(* ===== verification/Prelude.thy ===== *)
theory Prelude
  imports Main "HOL-Library.Word" "HOL-Library.Monad_Syntax"
begin

text \<open>
  Shared vocabulary of the development: the machine types of the C sources, the console that
  the panic macro of \<^verbatim>\<open>a3/fs/debug.h\<close> writes to, counted loops, little-endian encodings of the
  on-disk integers, and the generic lemmas on lists and words that the component theories use.

  Conventions. A C function is a HOL function on explicit state. Its result has type
  \<open>'a option\<close> wherever the C text can reach behaviour that the language leaves undefined (an
  access outside an object, through a null or dangling pointer) or can fail to return; that case
  is \<^term>\<open>None\<close>, and every theorem about such a function says under which conditions the
  result is \<^term>\<open>Some\<close>. Error codes that the program itself returns are ordinary values.
\<close>

unbundle bit_operations_syntax

section \<open>Machine types\<close>

type_synonym byte = "8 word"
type_synonym u32 = "32 word"
type_synonym u64 = "64 word"

named_theorems c_arith \<open>arithmetic of the C integer types inside their range\<close>
named_theorems bm_simps \<open>abstract view of bitmaps\<close>

text \<open>\<^verbatim>\<open>size_t\<close> values are natural numbers; sums wrap at 64 bits.\<close>

definition size_add :: "nat \<Rightarrow> nat \<Rightarrow> nat" where
  "size_add a b = (a + b) mod 2 ^ 64"

lemma size_add_exact [c_arith]: "a + b < 2 ^ 64 \<Longrightarrow> size_add a b = a + b"
  by (simp add: size_add_def)

lemma size_add_le: "size_add a b \<le> a + b"
  unfolding size_add_def by (rule mod_less_eq_dividend)

text \<open>\<^verbatim>\<open>int\<close> (and \<^verbatim>\<open>int32_t\<close>) values are integers in the 32-bit range; leaving the range is undefined
  behaviour of signed arithmetic.\<close>

definition int32 :: "int \<Rightarrow> bool" where
  "int32 i \<longleftrightarrow> - (2 ^ 31) \<le> i \<and> i < 2 ^ 31"

definition chk32 :: "int \<Rightarrow> int option" where
  "chk32 i = (if int32 i then Some i else None)"

lemma chk32_Some [simp]: "int32 i \<Longrightarrow> chk32 i = Some i"
  by (simp add: chk32_def)

lemma chk32_eq_Some_iff [simp]: "chk32 i = Some j \<longleftrightarrow> int32 i \<and> j = i"
  by (auto simp: chk32_def)

section \<open>The console\<close>

text \<open>
  \<^verbatim>\<open>PANIC\<close> and \<^verbatim>\<open>ASSERT\<close> of \<^verbatim>\<open>a3/fs/debug.h\<close> call \<^verbatim>\<open>debug_panic\<close>, which prints a line and returns:
  execution goes on after a failed assertion. A console is the sequence of what was printed; a
  panic is recorded with the function it comes from and its message.
\<close>

datatype out_event = Text string | Panic string string

type_synonym console = "out_event list"

definition debug_panic :: "string \<Rightarrow> string \<Rightarrow> console \<Rightarrow> console" where
  "debug_panic fn msg con = con @ [Panic fn msg]"

definition c_assert :: "string \<Rightarrow> bool \<Rightarrow> console \<Rightarrow> console" where
  "c_assert fn c con = (if c then con else debug_panic fn ''assertion `%s' failed.'' con)"

lemma c_assert_True [simp]: "c_assert fn True con = con"
  by (simp add: c_assert_def)

section \<open>Counted loops\<close>

text \<open>\<^verbatim>\<open>for (i = s; n more times; i++) if (P i) return i;\<close>, as the least index that satisfies \<open>P\<close>.\<close>

fun first_from :: "(nat \<Rightarrow> bool) \<Rightarrow> nat \<Rightarrow> nat \<Rightarrow> nat option" where
  "first_from P i 0 = None"
| "first_from P i (Suc n) = (if P i then Some i else first_from P (Suc i) n)"

lemma first_from_None_iff: "first_from P i n = None \<longleftrightarrow> (\<forall>j. i \<le> j \<and> j < i + n \<longrightarrow> \<not> P j)"
proof (induction n arbitrary: i)
  case (Suc n)
  have "(\<forall>j. i \<le> j \<and> j < i + Suc n \<longrightarrow> \<not> P j) \<longleftrightarrow>
        \<not> P i \<and> (\<forall>j. Suc i \<le> j \<and> j < Suc i + n \<longrightarrow> \<not> P j)"
    by (metis Suc_leI Suc_le_lessD add_Suc add_Suc_right le_add1 le_neq_implies_less less_or_eq_imp_le
        nless_le)
  with Suc.IH show ?case by simp
qed auto

lemma first_from_SomeD:
  "first_from P i n = Some k \<Longrightarrow> i \<le> k \<and> k < i + n \<and> P k \<and> (\<forall>j. i \<le> j \<and> j < k \<longrightarrow> \<not> P j)"
proof (induction n arbitrary: i)
  case (Suc n)
  show ?case
  proof (cases "P i")
    case True
    with Suc.prems show ?thesis by auto
  next
    case False
    with Suc.prems have "first_from P (Suc i) n = Some k" by simp
    from Suc.IH [OF this] False show ?thesis
      by (metis Suc_leD Suc_leI add_Suc add_Suc_right le_neq_implies_less)
  qed
qed simp

lemma first_from_SomeI:
  assumes "i \<le> k" "k < i + n" "P k" "\<And>j. i \<le> j \<Longrightarrow> j < k \<Longrightarrow> \<not> P j"
  shows "first_from P i n = Some k"
proof (cases "first_from P i n")
  case None
  with assms show ?thesis by (auto simp: first_from_None_iff)
next
  case (Some m)
  from first_from_SomeD [OF Some] assms have "m = k"
    by (metis linorder_neqE_nat)
  with Some show ?thesis by simp
qed

section \<open>Slices of lists\<close>

definition slice :: "nat \<Rightarrow> nat \<Rightarrow> 'a list \<Rightarrow> 'a list" where
  "slice s n xs = take n (drop s xs)"

definition fill :: "nat \<Rightarrow> nat \<Rightarrow> 'a \<Rightarrow> 'a list \<Rightarrow> 'a list" where
  "fill s n v xs = map (\<lambda>j. if s \<le> j \<and> j < s + n then v else xs ! j) [0..<length xs]"

lemma length_fill [simp]: "length (fill s n v xs) = length xs"
  by (simp add: fill_def)

lemma nth_fill [simp]:
  "j < length xs \<Longrightarrow> fill s n v xs ! j = (if s \<le> j \<and> j < s + n then v else xs ! j)"
  by (simp add: fill_def)

lemma fill_0 [simp]: "fill s 0 v xs = xs"
  by (rule nth_equalityI) auto

lemma fill_Suc: "s < length xs \<Longrightarrow> fill (Suc s) n v (xs[s := v]) = fill s (Suc n) v xs"
  by (rule nth_equalityI) (auto simp: nth_list_update)

lemma fill_fill [simp]: "fill s n v (fill s n w xs) = fill s n v xs"
  by (rule nth_equalityI) auto

lemma slice_Suc: "s < length xs \<Longrightarrow> slice s (Suc n) xs = xs ! s # slice (Suc s) n xs"
  by (simp add: slice_def Cons_nth_drop_Suc [symmetric])

lemma slice_0 [simp]: "slice s 0 xs = []"
  by (simp add: slice_def)

lemma length_slice [simp]: "s + n \<le> length xs \<Longrightarrow> length (slice s n xs) = n"
  by (simp add: slice_def)

lemma nth_slice [simp]: "i < n \<Longrightarrow> s + n \<le> length xs \<Longrightarrow> slice s n xs ! i = xs ! (s + i)"
  by (simp add: slice_def)

lemma slice_all [simp]: "slice 0 (length xs) xs = xs"
  by (simp add: slice_def)

lemma in_set_slice_iff:
  "s + n \<le> length xs \<Longrightarrow> v \<in> set (slice s n xs) \<longleftrightarrow> (\<exists>j. s \<le> j \<and> j < s + n \<and> xs ! j = v)"
proof -
  assume "s + n \<le> length xs"
  then have "v \<in> set (slice s n xs) \<longleftrightarrow> (\<exists>i<n. xs ! (s + i) = v)"
    by (auto simp: in_set_conv_nth)
  also have "\<dots> \<longleftrightarrow> (\<exists>j. s \<le> j \<and> j < s + n \<and> xs ! j = v)"
    by (metis le_add1 le_Suc_ex nat_add_left_cancel_less)
  finally show ?thesis .
qed

lemma slice_fill_self [simp]: "s + n \<le> length xs \<Longrightarrow> slice s n (fill s n v xs) = replicate n v"
  by (rule nth_equalityI) auto

lemma fill_slice_self: "s + n \<le> length xs \<Longrightarrow> slice s n xs = replicate n w \<Longrightarrow> fill s n w xs = xs"
proof (rule nth_equalityI)
  fix j
  assume len: "s + n \<le> length xs" and eq: "slice s n xs = replicate n w" and j: "j < length (fill s n w xs)"
  have "xs ! j = w" if "s \<le> j" "j < s + n"
  proof -
    from that have "slice s n xs ! (j - s) = xs ! j" using len by simp
    with eq that show ?thesis by simp
  qed
  with j show "fill s n w xs ! j = xs ! j" by auto
qed simp

lemma slice_split3: "s + n \<le> length xs \<Longrightarrow> xs = take s xs @ slice s n xs @ drop (s + n) xs"
  by (simp add: slice_def add.commute flip: drop_drop)

lemma fill_split3:
  "s + n \<le> length xs \<Longrightarrow> fill s n v xs = take s xs @ replicate n v @ drop (s + n) xs"
  by (rule nth_equalityI) (auto simp: nth_append)

lemma count_list_replicate [simp]: "count_list (replicate n v) w = (if v = w then n else 0)"
  by (induction n) auto

lemma count_list_fill:
  assumes "s + n \<le> length xs" "slice s n xs = replicate n v"
  shows "count_list (fill s n w xs) u + (if v = u then n else 0) =
         count_list xs u + (if w = u then n else 0)"
proof -
  have "count_list xs u = count_list (take s xs) u + count_list (replicate n v) u + count_list (drop (s + n) xs) u"
    using slice_split3 [OF assms(1)] assms(2) by (metis add.assoc count_list_append)
  with fill_split3 [OF assms(1)] show ?thesis by simp
qed

section \<open>Little-endian encodings\<close>

primrec to_le :: "nat \<Rightarrow> 'a::len word \<Rightarrow> byte list" where
  "to_le 0 w = []"
| "to_le (Suc n) w = ucast w # to_le n (drop_bit 8 w)"

primrec from_le :: "byte list \<Rightarrow> 'a::len word" where
  "from_le [] = 0"
| "from_le (b # bs) = ucast b OR push_bit 8 (from_le bs)"

lemma length_to_le [simp]: "length (to_le n w) = n"
  by (induction n arbitrary: w) auto

lemma bit_from_to_le:
  "bit (from_le (to_le n w) :: 'a::len word) k \<longleftrightarrow> bit (w :: 'a word) k \<and> k < 8 * n"
proof (induction n arbitrary: w k)
  case (Suc n)
  show ?case
  proof (cases "k < 8")
    case True
    then show ?thesis by (auto simp: bit_simps dest: bit_imp_le_length)
  next
    case False
    then obtain j where "k = 8 + j" using le_Suc_ex not_less by blast
    then show ?thesis
      by (auto simp: bit_simps Suc.IH dest: bit_imp_le_length)
  qed
qed simp

lemma from_to_le: "LENGTH('a) \<le> 8 * n \<Longrightarrow> from_le (to_le n w) = (w :: 'a::len word)"
  by (rule bit_eqI) (use bit_imp_le_length in \<open>fastforce simp: bit_from_to_le\<close>)

section \<open>Decimal output\<close>

text \<open>What \<^verbatim>\<open>printf\<close> writes for \<^verbatim>\<open>%u\<close> and \<^verbatim>\<open>%d\<close>.\<close>

definition digit_char :: "nat \<Rightarrow> char" where
  "digit_char d = char_of (48 + d)"

fun nat_str :: "nat \<Rightarrow> string" where
  "nat_str n = (if n < 10 then [digit_char n] else nat_str (n div 10) @ [digit_char (n mod 10)])"

declare nat_str.simps [simp del]

definition int_str :: "int \<Rightarrow> string" where
  "int_str i = (if i < 0 then CHR ''-'' # nat_str (nat (- i)) else nat_str (nat i))"

section \<open>Files of the host\<close>

text \<open>
  A host file is its content. \<open>pread\<close> is \<^verbatim>\<open>lseek\<close> and \<^verbatim>\<open>read\<close> into a buffer, which is short at the end of
  the file and leaves the rest of the buffer alone; \<open>pwrite\<close> is \<^verbatim>\<open>lseek\<close> and \<^verbatim>\<open>write\<close>, which extends the
  file, with zeros in the gap, when it starts past the end.
\<close>

definition pread :: "byte list \<Rightarrow> nat \<Rightarrow> nat \<Rightarrow> byte list \<Rightarrow> byte list" where
  "pread img off n buf = (let got = slice off n img in got @ drop (length got) buf)"

definition pwrite :: "byte list \<Rightarrow> nat \<Rightarrow> byte list \<Rightarrow> byte list" where
  "pwrite img off bs =
     take off img @ replicate (off - length img) 0 @ bs @ drop (off + length bs) img"

lemma pread_inside [simp]:
  "off + n \<le> length img \<Longrightarrow> length buf = n \<Longrightarrow> pread img off n buf = slice off n img"
  by (simp add: pread_def)

lemma length_pwrite_inside [simp]:
  "off + length bs \<le> length img \<Longrightarrow> length (pwrite img off bs) = length img"
  by (simp add: pwrite_def)

lemma nth_pwrite:
  "off + length bs \<le> length img \<Longrightarrow> x < length img \<Longrightarrow>
   pwrite img off bs ! x = (if off \<le> x \<and> x < off + length bs then bs ! (x - off) else img ! x)"
  by (auto simp: pwrite_def nth_append)

lemma pwrite_pwrite:
  "off + length a + length b \<le> length img \<Longrightarrow> pwrite (pwrite img off a) (off + length a) b = pwrite img off (a @ b)"
  by (rule nth_equalityI) (auto simp: nth_pwrite nth_append)

lemma slice_pwrite_same: "off + length bs \<le> length img \<Longrightarrow> slice off (length bs) (pwrite img off bs) = bs"
  by (simp add: pwrite_def slice_def)

lemma slice_pwrite_other:
  assumes "off + length bs \<le> length img" "p + n \<le> length img" "p + n \<le> off \<or> off + length bs \<le> p"
  shows "slice p n (pwrite img off bs) = slice p n img"
proof (rule nth_equalityI)
  fix i assume "i < length (slice p n (pwrite img off bs))"
  then have i: "i < n" by (simp add: slice_def)
  with assms have "pwrite img off bs ! (p + i) = img ! (p + i)"
    by (auto simp: pwrite_def nth_append)
  with i assms show "slice p n (pwrite img off bs) ! i = slice p n img ! i" by simp
qed (use assms in simp)

section \<open>Text streams\<close>

text \<open>
  A C stream opened for reading is what is left to read of it. \<open>fgets n\<close> reads at most \<open>n - 1\<close>
  characters, up to and including a newline, and returns a null pointer at the end; what the
  program sees of the characters read ends at the first NUL.
\<close>

definition newline :: char where
  "newline = CHR 0x0A"

fun line_split :: "nat \<Rightarrow> string \<Rightarrow> string \<times> string" where
  "line_split 0 s = ([], s)"
| "line_split (Suc k) [] = ([], [])"
| "line_split (Suc k) (c # cs) =
     (if c = newline then ([c], cs) else let (l, r) = line_split k cs in (c # l, r))"

definition c_string :: "string \<Rightarrow> string" where
  "c_string s = takeWhile (\<lambda>c. c \<noteq> CHR 0x00) s"

definition fgets :: "nat \<Rightarrow> string \<Rightarrow> (string \<times> string) option" where
  "fgets n s = (if s = [] then None else let (l, r) = line_split (n - 1) s in Some (c_string l, r))"

lemma line_split_append: "line_split k s = (l, r) \<Longrightarrow> s = l @ r"
  by (induction k s arbitrary: l r rule: line_split.induct) (auto split: if_splits prod.splits)

lemma line_split_shorter: "line_split k s = (l, r) \<Longrightarrow> s \<noteq> [] \<Longrightarrow> 0 < k \<Longrightarrow> length r < length s"
proof -
  assume *: "line_split k s = (l, r)" "s \<noteq> []" "0 < k"
  then have "l \<noteq> []" by (cases k; cases s) (auto split: if_splits prod.splits)
  with line_split_append [OF *(1)] show ?thesis by simp
qed

lemma fgets_shorter: "fgets n s = Some (l, r) \<Longrightarrow> 1 < n \<Longrightarrow> length r < length s"
  using line_split_shorter [of "n - 1" s] by (auto simp: fgets_def split: if_splits prod.splits)

text \<open>Whether reading a line has hit the end of the file, so that \<^verbatim>\<open>feof\<close> is true: the end was reached before a
  newline and before the buffer was full.\<close>

definition hits_eof :: "nat \<Rightarrow> string \<Rightarrow> bool" where
  "hits_eof n s \<longleftrightarrow> (case line_split (n - 1) s of (l, r) \<Rightarrow> r = [] \<and> length l < n - 1 \<and> (l = [] \<or> last l \<noteq> newline))"

lemma line_split_line:
  "newline \<notin> set l \<Longrightarrow> length l < k \<Longrightarrow> line_split k (l @ newline # r) = (l @ [newline], r)"
proof (induction l arbitrary: k)
  case Nil
  then show ?case by (cases k) auto
next
  case (Cons c l)
  then show ?case by (cases k) auto
qed

section \<open>The host system\<close>

text \<open>
  Calls to the operating system below the programs. Their effect on the host's files and their result
  are a parameter of the models that make them.
\<close>

datatype host_call =
  Access string | Mkdir string | Chdir string | System string | Is_dir string | Stat string | Unlink string | Rmdir string

type_synonym hostfiles = "string \<Rightarrow> string option"

text \<open>\<open>hdir\<close> is what \<^verbatim>\<open>opendir\<close> and \<^verbatim>\<open>readdir\<close> give for a path, \<open>hmalloc\<close> whether there is memory.\<close>

record host =
  hcall :: "host_call \<Rightarrow> hostfiles \<Rightarrow> int \<times> hostfiles"
  hdir :: "string \<Rightarrow> hostfiles \<Rightarrow> string list option"
  hmalloc :: "nat \<Rightarrow> bool"

definition strip_eol :: "string \<Rightarrow> string" where
  "strip_eol s = takeWhile (\<lambda>c. c \<noteq> CHR 0x0D \<and> c \<noteq> newline) s"

text \<open>A result of a call that may not come back: \<^term>\<open>Inl s\<close> when the program has called \<^verbatim>\<open>exit\<close> in state
  \<open>s\<close>, \<^term>\<open>Inr (x, s)\<close> when the call returns \<open>x\<close>.\<close>

type_synonym ('a, 's) outcome = "('s + 'a \<times> 's) option"

definition and_then :: "('a, 's) outcome \<Rightarrow> ('a \<Rightarrow> 's \<Rightarrow> ('b, 's) outcome) \<Rightarrow> ('b, 's) outcome" where
  "and_then m f = Option.bind m (\<lambda>r. case r of Inl s \<Rightarrow> Some (Inl s) | Inr (x, s) \<Rightarrow> f x s)"

lemma and_then_simps [simp]:
  "and_then None f = None" "and_then (Some (Inl s)) f = Some (Inl s)" "and_then (Some (Inr (x, s))) f = f x s"
  by (simp_all add: and_then_def)

lemma and_then_cong [fundef_cong]:
  "m = m' \<Longrightarrow> (\<And>x s. m' = Some (Inr (x, s)) \<Longrightarrow> f x s = g x s) \<Longrightarrow> and_then m f = and_then m' g"
  by (cases m') (auto simp: and_then_def split: sum.splits)

end
