(* ===== verification/Block_Device.thy ===== *)
theory Block_Device
  imports Prelude
begin

text \<open>
  Block devices: \<^verbatim>\<open>a3/fs/block.c\<close>, the disk driver \<^verbatim>\<open>a3/fs/ide.c\<close> and the partition driver
  \<^verbatim>\<open>a3/fs/partition.c\<close>. A \<^verbatim>\<open>struct block *\<close> is an index into the list of registered devices; a
  partition refers to its parent device, which was registered before it. The content of the host
  file behind the disk is the field \<open>image\<close>. Reads and writes of the host file are complete (the
  code ignores their results).

  The state record starts here and later components extend it with their own globals.
\<close>

section \<open>State\<close>

definition BLOCK_SECTOR_SIZE :: nat where
  "BLOCK_SECTOR_SIZE = 512"

type_synonym block_sector_t = u32
type_synonym sector_data = "byte list"

text \<open>\<^verbatim>\<open>ops\<close> and \<^verbatim>\<open>aux\<close> of a device: the operations of the disk, or those of a partition together with the
  partition descriptor (parent device and first sector).\<close>

datatype driver = ide_operations | partition_operations (part_block: nat) (part_start: block_sector_t)

record block =
  block_nm :: string
  block_fname :: string
  block_sz :: block_sector_t
  block_drv :: driver
  read_cnt :: u64
  write_cnt :: u64

record dev =
  console :: console
  image :: "byte list"
  blocks :: "block list"
  hard_drive :: "nat option"

definition printf :: "string \<Rightarrow> 'a dev_scheme \<Rightarrow> 'a dev_scheme" where
  "printf str s = s\<lparr>console := console s @ [Text str]\<rparr>"

definition panic :: "string \<Rightarrow> string \<Rightarrow> 'a dev_scheme \<Rightarrow> 'a dev_scheme" where
  "panic fn msg s = s\<lparr>console := debug_panic fn msg (console s)\<rparr>"

definition assertion :: "string \<Rightarrow> bool \<Rightarrow> 'a dev_scheme \<Rightarrow> 'a dev_scheme" where
  "assertion fn c s = s\<lparr>console := c_assert fn c (console s)\<rparr>"

section \<open>The disk driver\<close>

text \<open>The byte offset is computed in 32-bit unsigned arithmetic before \<^verbatim>\<open>lseek\<close> widens it.\<close>

definition ide_offset :: "block_sector_t \<Rightarrow> nat" where
  "ide_offset sec_no = unat (sec_no * 512)"

definition ide_read :: "byte list \<Rightarrow> block_sector_t \<Rightarrow> sector_data \<Rightarrow> sector_data" where
  "ide_read img sec_no buffer = pread img (ide_offset sec_no) BLOCK_SECTOR_SIZE buffer"

definition ide_write :: "byte list \<Rightarrow> block_sector_t \<Rightarrow> sector_data \<Rightarrow> byte list" where
  "ide_write img sec_no buffer = pwrite img (ide_offset sec_no) (take BLOCK_SECTOR_SIZE buffer)"

section \<open>Block devices\<close>

definition block_get_hd :: "'a dev_scheme \<Rightarrow> nat option" where
  "block_get_hd s = hard_drive s"

definition block_set_hd :: "nat \<Rightarrow> 'a dev_scheme \<Rightarrow> 'a dev_scheme" where
  "block_set_hd b s = s\<lparr>hard_drive := Some b\<rparr>"

definition block_size :: "'a dev_scheme \<Rightarrow> nat \<Rightarrow> block_sector_t option" where
  "block_size s b = (if b < length (blocks s) then Some (block_sz (blocks s ! b)) else None)"

definition block_name :: "'a dev_scheme \<Rightarrow> nat \<Rightarrow> string option" where
  "block_name s b = (if b < length (blocks s) then Some (block_nm (blocks s ! b)) else None)"

definition check_sector :: "nat \<Rightarrow> block_sector_t \<Rightarrow> 'a dev_scheme \<Rightarrow> 'a dev_scheme" where
  "check_sector b sector s =
     (if sector \<ge> block_sz (blocks s ! b)
      then panic ''check_sector'' ''Access past end of device %s (sector=%u, size=%u)'' s else s)"

definition inc_read_cnt :: "nat \<Rightarrow> 'a dev_scheme \<Rightarrow> 'a dev_scheme" where
  "inc_read_cnt b s = s\<lparr>blocks := (blocks s)[b := (blocks s ! b)\<lparr>read_cnt := read_cnt (blocks s ! b) + 1\<rparr>]\<rparr>"

definition inc_write_cnt :: "nat \<Rightarrow> 'a dev_scheme \<Rightarrow> 'a dev_scheme" where
  "inc_write_cnt b s = s\<lparr>blocks := (blocks s)[b := (blocks s ! b)\<lparr>write_cnt := write_cnt (blocks s ! b) + 1\<rparr>]\<rparr>"

text \<open>
  \<^verbatim>\<open>block_read\<close> calls the driver; the partition driver \<^verbatim>\<open>partition_read\<close> calls \<^verbatim>\<open>block_read\<close> on the parent at
  \<^verbatim>\<open>start + sector + 1\<close>. The two are one recursion over the chain of devices.
\<close>

function block_read ::
    "nat \<Rightarrow> block_sector_t \<Rightarrow> sector_data \<Rightarrow> 'a dev_scheme \<Rightarrow> (sector_data \<times> 'a dev_scheme) option" where
  "block_read b sector buffer s =
     (if b < length (blocks s) then
        (case block_drv (blocks s ! b) of
           ide_operations \<Rightarrow> Some (ide_read (image s) sector buffer, inc_read_cnt b s)
         | partition_operations p start \<Rightarrow>
             if p < b
             then do { (buffer', s') \<leftarrow> block_read p (start + sector + 1) buffer s;
                       Some (buffer', inc_read_cnt b s') }
             else None)
      else None)"
  by pat_completeness auto
termination
  by (relation "measure (\<lambda>(b, _). b)") auto

function block_write ::
    "nat \<Rightarrow> block_sector_t \<Rightarrow> sector_data \<Rightarrow> 'a dev_scheme \<Rightarrow> 'a dev_scheme option" where
  "block_write b sector buffer s =
     (if b < length (blocks s) then
        (let s1 = check_sector b sector s in
         case block_drv (blocks s1 ! b) of
           ide_operations \<Rightarrow> Some (inc_write_cnt b (s1\<lparr>image := ide_write (image s1) sector buffer\<rparr>))
         | partition_operations p start \<Rightarrow>
             if p < b
             then do { s' \<leftarrow> block_write p (start + sector + 1) buffer s1; Some (inc_write_cnt b s') }
             else None)
      else None)"
  by pat_completeness auto
termination
  by (relation "measure (\<lambda>(b, _). b)") auto

declare block_read.simps [simp del] block_write.simps [simp del]

definition block_read_unsafe ::
    "nat \<Rightarrow> block_sector_t \<Rightarrow> sector_data \<Rightarrow> 'a dev_scheme \<Rightarrow> (sector_data \<times> 'a dev_scheme) option" where
  "block_read_unsafe b sector buffer s =
     (if b < length (blocks s) then block_read b sector buffer (check_sector b sector s) else None)"

text \<open>\<^verbatim>\<open>print_human_readable_size\<close> of \<^verbatim>\<open>a3/fs/debug.c\<close>.\<close>

fun human_factor :: "nat \<Rightarrow> string list \<Rightarrow> string" where
  "human_factor sz [] = ''''"
| "human_factor sz [f] = nat_str sz @ '' '' @ f"
| "human_factor sz (f # g # fs) =
     (if sz \<ge> 1024 then human_factor (sz div 1024) (g # fs) else nat_str sz @ '' '' @ f)"

definition print_human_readable_size :: "nat \<Rightarrow> string" where
  "print_human_readable_size sz =
     (if sz = 1 then ''1 byte'' else human_factor sz [''bytes'', ''kB'', ''MB'', ''GB'', ''TB''])"

definition block_register ::
    "string \<Rightarrow> string \<Rightarrow> block_sector_t \<Rightarrow> driver \<Rightarrow> 'a dev_scheme \<Rightarrow> nat \<times> 'a dev_scheme" where
  "block_register name fname sz drv s =
     (let b = length (blocks s);
          blk = \<lparr>block_nm = take 16 name, block_fname = take 100 fname, block_sz = sz, block_drv = drv,
                 read_cnt = 0, write_cnt = 0\<rparr>;
          s = s\<lparr>blocks := blocks s @ [blk]\<rparr>;
          s = printf (take 16 name @ '': '' @ nat_str (unat sz) @ '' sectors ('') s;
          s = printf (print_human_readable_size (unat sz * 512)) s;
          s = printf ('')'' @ [CHR 0x0A]) s
      in (b, block_set_hd b s))"

section \<open>Partitions\<close>

record partition_table_entry =
  pe_type :: byte
  pe_offset :: u32
  pe_size :: u32

definition table_entry :: "sector_data \<Rightarrow> nat \<Rightarrow> partition_table_entry" where
  "table_entry pt i =
     (let e = slice (446 + 16 * i) 16 pt
      in \<lparr>pe_type = e ! 4, pe_offset = from_le (slice 8 4 e), pe_size = from_le (slice 12 4 e)\<rparr>)"

definition table_signature :: "sector_data \<Rightarrow> 16 word" where
  "table_signature pt = from_le (slice 510 2 pt)"

definition found_partition ::
    "nat \<Rightarrow> block_sector_t \<Rightarrow> block_sector_t \<Rightarrow> nat \<Rightarrow> string \<Rightarrow> 'a dev_scheme \<Rightarrow> 'a dev_scheme option" where
  "found_partition b start sz part_nr fname s =
     do { bsz \<leftarrow> block_size s b;
          nm \<leftarrow> block_name s b;
          let name = nm @ nat_str part_nr;
          if start \<ge> bsz
          then Some (printf (name @ '': Partition starts past end of device (sector '' @ nat_str (unat start)
                             @ '')'' @ [CHR 0x0A]) s)
          else if start + sz < start \<or> start + sz > bsz
          then Some (printf (name @ '': Partition end ('' @ nat_str (unat (start + sz))
                             @ '') past end of device ('' @ nat_str (unat bsz) @ '')'' @ [CHR 0x0A]) s)
          else Some (snd (block_register (take 15 name) fname sz (partition_operations b start) s)) }"

text \<open>
  Partition types 0x05, 0x0f, 0x85 and 0xc5 are extended partitions, whose table the code scans
  recursively (\<open>scan\<close> is the recursive call of \<^verbatim>\<open>read_partition_table\<close>). The scan reads sector 0 of the
  device at every level, so the recursion need not end; \<open>fuel\<close> bounds its depth and
  \<^term>\<open>None\<close> is the result when the bound is reached.
\<close>

primrec parse_partitions ::
    "(block_sector_t \<Rightarrow> block_sector_t \<Rightarrow> nat \<Rightarrow> 'a dev_scheme \<Rightarrow> (nat \<times> 'a dev_scheme) option) \<Rightarrow>
     nat \<Rightarrow> block_sector_t \<Rightarrow> block_sector_t \<Rightarrow> string \<Rightarrow> partition_table_entry list \<Rightarrow>
     nat \<Rightarrow> 'a dev_scheme \<Rightarrow> (nat \<times> 'a dev_scheme) option" where
  "parse_partitions scan b sector primary fname [] part_nr s = Some (part_nr, s)"
| "parse_partitions scan b sector primary fname (e # es) part_nr s =
     (if pe_size e = 0 \<or> pe_type e = 0
      then parse_partitions scan b sector primary fname es part_nr s
      else if pe_type e \<in> {0x05, 0x0f, 0x85, 0xc5}
      then do { nm \<leftarrow> block_name s b;
                let s1 = printf (nm @ '': Extended partition in sector '' @ nat_str (unat sector) @ [CHR 0x0A]) s;
                (part_nr', s2) \<leftarrow>
                  (if sector = 0 then scan (pe_offset e) (pe_offset e) part_nr s1
                   else scan (pe_offset e + primary) primary part_nr s1);
                parse_partitions scan b sector primary fname es part_nr' s2 }
      else do { s1 \<leftarrow> found_partition b (pe_offset e + sector) (pe_size e) (part_nr + 1) fname s;
                parse_partitions scan b sector primary fname es (part_nr + 1) s1 })"

primrec read_partition_table ::
    "nat \<Rightarrow> nat \<Rightarrow> string \<Rightarrow> block_sector_t \<Rightarrow> block_sector_t \<Rightarrow> nat \<Rightarrow> 'a dev_scheme \<Rightarrow> (nat \<times> 'a dev_scheme) option"
where
  "read_partition_table 0 b fname sector primary part_nr s = None"
| "read_partition_table (Suc fuel) b fname sector primary part_nr s =
     do { bsz \<leftarrow> block_size s b;
          nm \<leftarrow> block_name s b;
          if sector \<ge> bsz
          then Some (part_nr, printf (nm @ '': Partition table at sector '' @ nat_str (unat sector)
                                      @ '' past end of device.'' @ [CHR 0x0A]) s)
          else do { (pt, s1) \<leftarrow> block_read b 0 (replicate 512 0) s;
                    if table_signature pt \<noteq> 0xaa55
                    then Some (part_nr,
                           if primary = 0
                           then printf (nm @ '': Invalid partition table signature'' @ [CHR 0x0A]) s1
                           else printf (nm @ '': Invalid extended partition table in sector ''
                                        @ nat_str (unat sector) @ [CHR 0x0A]) s1)
                    else parse_partitions (read_partition_table fuel b fname) b sector primary fname
                           (map (table_entry pt) [0..<4]) part_nr s1 } }"

declare parse_partitions.simps [simp del] read_partition_table.simps [simp del]

definition partition_scan :: "nat \<Rightarrow> nat \<Rightarrow> string \<Rightarrow> 'a dev_scheme \<Rightarrow> 'a dev_scheme option" where
  "partition_scan fuel b fname s =
     do { (part_nr, s) \<leftarrow> read_partition_table fuel b fname 0 0 0 s;
          nm \<leftarrow> block_name s b;
          Some (if part_nr = 0 then printf (nm @ '': Device contains no partitions'' @ [CHR 0x0A]) s else s) }"

text \<open>\<^verbatim>\<open>identify_ata_device\<close>: the capacity of the disk is its size in whole sectors, as a 32-bit number.\<close>

definition identify_ata_device :: "nat \<Rightarrow> string \<Rightarrow> string \<Rightarrow> 'a dev_scheme \<Rightarrow> 'a dev_scheme option" where
  "identify_ata_device fuel name fname s =
     (let capacity = word_of_nat (length (image s) div BLOCK_SECTOR_SIZE);
          (b, s) = block_register name fname capacity ide_operations s
      in partition_scan fuel b fname s)"

text \<open>\<open>fd\<close> is what \<^verbatim>\<open>open\<close> returned for the disk file; the code compares it with 1.\<close>

definition ide_init :: "nat \<Rightarrow> int \<Rightarrow> string \<Rightarrow> 'a dev_scheme \<Rightarrow> 'a dev_scheme option" where
  "ide_init fuel fd hd_file s =
     (let s = (if fd = 1 then panic ''ide_init'' ''FD -1'' s else s)
      in identify_ata_device fuel ''hda'' hd_file s)"

section \<open>Where a sector of a device lies\<close>

text \<open>
  \<open>dev_base bs b\<close> is the distance, in sectors, from the start of the disk to sector 0 of device
  \<open>b\<close>; it is \<^term>\<open>None\<close> for a device whose chain of parents is broken. \<open>dev_ok n s b\<close> says
  that sectors \<open>0, \<dots>, n - 1\<close> of device \<open>b\<close> lie inside the disk image and below the 4 GB limit of
  the offset computation, and \<open>dev_sector\<close> is the content of one sector.
\<close>

function dev_base :: "block list \<Rightarrow> nat \<Rightarrow> nat option" where
  "dev_base bs b =
     (if b < length bs then
        (case block_drv (bs ! b) of
           ide_operations \<Rightarrow> Some 0
         | partition_operations p start \<Rightarrow>
             if p < b then map_option (\<lambda>k. k + unat start + 1) (dev_base bs p) else None)
      else None)"
  by pat_completeness auto
termination
  by (relation "measure (\<lambda>(bs, b). b)") auto

declare dev_base.simps [simp del]

definition dev_ok :: "nat \<Rightarrow> nat \<Rightarrow> 'a dev_scheme \<Rightarrow> bool" where
  "dev_ok n b s \<longleftrightarrow>
     (case dev_base (blocks s) b of None \<Rightarrow> False
      | Some k \<Rightarrow> 512 * (k + n) \<le> length (image s) \<and> k + n \<le> 2 ^ 23)"

definition dev_sector :: "nat \<Rightarrow> 'a dev_scheme \<Rightarrow> block_sector_t \<Rightarrow> sector_data" where
  "dev_sector b s sector = slice (512 * (the (dev_base (blocks s) b) + unat sector)) 512 (image s)"

text \<open>Two device tables with the same drivers have the same geometry.\<close>

definition same_drivers :: "block list \<Rightarrow> block list \<Rightarrow> bool" where
  "same_drivers bs cs \<longleftrightarrow> map (\<lambda>x. (block_drv x, block_sz x)) bs = map (\<lambda>x. (block_drv x, block_sz x)) cs"

lemma same_drivers_refl [simp]: "same_drivers bs bs"
  by (simp add: same_drivers_def)

lemma same_drivers_trans: "same_drivers a b \<Longrightarrow> same_drivers b c \<Longrightarrow> same_drivers a c"
  by (simp add: same_drivers_def)

lemma same_drivers_lengthD: "same_drivers bs cs \<Longrightarrow> length bs = length cs"
  unfolding same_drivers_def by (metis length_map)

lemma same_drivers_nthD:
  assumes "same_drivers bs cs" "i < length bs"
  shows "block_drv (bs ! i) = block_drv (cs ! i)" "block_sz (bs ! i) = block_sz (cs ! i)"
proof -
  have "map (\<lambda>x. (block_drv x, block_sz x)) bs ! i = map (\<lambda>x. (block_drv x, block_sz x)) cs ! i"
    using assms(1) by (simp add: same_drivers_def)
  with assms same_drivers_lengthD [OF assms(1)]
  show "block_drv (bs ! i) = block_drv (cs ! i)" "block_sz (bs ! i) = block_sz (cs ! i)" by auto
qed

lemma dev_base_same_drivers: "same_drivers bs cs \<Longrightarrow> dev_base bs b = dev_base cs b"
proof (induction bs b rule: dev_base.induct)
  case (1 bs b)
  show ?case
  proof (cases "b < length bs")
    case True
    note d = same_drivers_nthD(1) [OF "1.prems" True] and l = same_drivers_lengthD [OF "1.prems"]
    show ?thesis
    proof (cases "block_drv (bs ! b)")
      case (partition_operations p st)
      with d have "block_drv (cs ! b) = partition_operations p st" by simp
      with partition_operations True l "1.IH" [OF True partition_operations] "1.prems" show ?thesis
        by (simp add: dev_base.simps [of bs b] dev_base.simps [of cs b])
    qed (use True d l in \<open>simp add: dev_base.simps [of bs b] dev_base.simps [of cs b]\<close>)
  next
    case False
    with same_drivers_lengthD [OF "1.prems"] show ?thesis
      by (simp add: dev_base.simps [of bs b] dev_base.simps [of cs b])
  qed
qed

lemma dev_base_SomeD: "dev_base bs b = Some k \<Longrightarrow> b < length bs"
  by (subst (asm) dev_base.simps) (simp split: if_splits)

text \<open>What the bookkeeping of a read or write may change: counters and console only.\<close>

definition only_bookkeeping :: "'a dev_scheme \<Rightarrow> 'a dev_scheme \<Rightarrow> bool" where
  "only_bookkeeping s s' \<longleftrightarrow>
     image s' = image s \<and> hard_drive s' = hard_drive s \<and> dev.more s' = dev.more s \<and>
     same_drivers (blocks s) (blocks s')"

lemma same_drivers_inc:
  "i < length bs \<Longrightarrow> block_drv c = block_drv (bs ! i) \<Longrightarrow> block_sz c = block_sz (bs ! i) \<Longrightarrow>
   same_drivers bs (bs[i := c])"
  by (auto simp: same_drivers_def list_eq_iff_nth_eq nth_list_update)

lemma only_bookkeeping_refl [simp]: "only_bookkeeping s s"
  by (simp add: only_bookkeeping_def)

lemma only_bookkeeping_trans:
  "only_bookkeeping s t \<Longrightarrow> only_bookkeeping t u \<Longrightarrow> only_bookkeeping s u"
  by (auto simp: only_bookkeeping_def elim: same_drivers_trans)

lemma only_bookkeeping_inc_read: "b < length (blocks s) \<Longrightarrow> only_bookkeeping s (inc_read_cnt b s)"
  by (simp add: only_bookkeeping_def inc_read_cnt_def same_drivers_inc)

lemma only_bookkeeping_inc_write: "b < length (blocks s) \<Longrightarrow> only_bookkeeping s (inc_write_cnt b s)"
  by (simp add: only_bookkeeping_def inc_write_cnt_def same_drivers_inc)

lemma only_bookkeeping_check: "only_bookkeeping s (check_sector b sector s)"
  by (simp add: only_bookkeeping_def check_sector_def panic_def)

lemma only_bookkeepingD:
  assumes "only_bookkeeping s s'"
  shows "image s' = image s" "same_drivers (blocks s) (blocks s')" "dev_base (blocks s') b = dev_base (blocks s) b"
    "dev.more s' = dev.more s" "hard_drive s' = hard_drive s"
  using assms dev_base_same_drivers [of "blocks s" "blocks s'" b] by (simp_all add: only_bookkeeping_def)

lemma ide_offset_exact: "unat sector < 2 ^ 23 \<Longrightarrow> ide_offset sector = 512 * unat sector"
  by (simp add: ide_offset_def unat_word_ariths)

lemma partition_sector_exact:
  fixes st sector :: u32
  assumes "unat st + unat sector + 1 < 2 ^ 32"
  shows "unat (st + sector + 1) = unat st + unat sector + 1"
  using assms by (simp add: unat_word_ariths)

lemma block_read_image:
  "dev_base (blocks s) b = Some k \<Longrightarrow> k + n \<le> 2 ^ 23 \<Longrightarrow> 512 * (k + n) \<le> length (image s) \<Longrightarrow>
   unat sector < n \<Longrightarrow> length buffer = 512 \<Longrightarrow>
   \<exists>s'. block_read b sector buffer s = Some (slice (512 * (k + unat sector)) 512 (image s), s') \<and>
        only_bookkeeping s s'"
proof (induction b sector buffer s arbitrary: k n rule: block_read.induct)
  case (1 b sector buffer s)
  note len = dev_base_SomeD [OF "1.prems"(1)]
  show ?case
  proof (cases "block_drv (blocks s ! b)")
    case ide_operations
    with len "1.prems" have "k = 0" by (simp add: dev_base.simps [of _ b])
    with len ide_operations "1.prems" show ?thesis
      by (simp add: block_read.simps [of b] ide_read_def BLOCK_SECTOR_SIZE_def ide_offset_exact
          only_bookkeeping_inc_read)
  next
    case (partition_operations p st)
    with len "1.prems"(1) obtain k' where p: "p < b" and k': "dev_base (blocks s) p = Some k'"
      and k: "k = k' + unat st + 1"
      by (auto simp: dev_base.simps [of _ b] split: if_splits)
    have "unat st + unat sector + 1 < 2 ^ 32" using "1.prems"(2,4) k by simp
    from partition_sector_exact [OF this] have u: "unat (st + sector + 1) = unat st + unat sector + 1" .
    have "\<exists>s'. block_read p (st + sector + 1) buffer s =
        Some (slice (512 * (k' + unat (st + sector + 1))) 512 (image s), s') \<and> only_bookkeeping s s'"
      by (rule "1.IH" [OF len partition_operations p k', of "unat st + 1 + n"]) (use "1.prems" k u in auto)
    then obtain s' where s': "block_read p (st + sector + 1) buffer s =
        Some (slice (512 * (k' + unat (st + sector + 1))) 512 (image s), s')" "only_bookkeeping s s'" by blast
    have "b < length (blocks s')"
      using only_bookkeepingD(2) [OF s'(2)] same_drivers_lengthD len by metis
    then have "only_bookkeeping s (inc_read_cnt b s')"
      using s'(2) only_bookkeeping_inc_read only_bookkeeping_trans by metis
    with s' len partition_operations p k u show ?thesis
      by (simp add: block_read.simps [of b] add.assoc add.commute add.left_commute)
  qed
qed

lemma image_upd_bookkeeping:
  "only_bookkeeping s t \<Longrightarrow> only_bookkeeping (s\<lparr>image := i\<rparr>) (t\<lparr>image := i\<rparr>)"
  by (simp add: only_bookkeeping_def)

lemma block_write_image:
  "dev_base (blocks s) b = Some k \<Longrightarrow> k + n \<le> 2 ^ 23 \<Longrightarrow> 512 * (k + n) \<le> length (image s) \<Longrightarrow>
   unat sector < n \<Longrightarrow> length buffer = 512 \<Longrightarrow>
   \<exists>s'. block_write b sector buffer s = Some s' \<and>
        only_bookkeeping (s\<lparr>image := pwrite (image s) (512 * (k + unat sector)) buffer\<rparr>) s'"
proof (induction b sector buffer s arbitrary: k n rule: block_write.induct)
  case (1 b sector buffer s)
  note len = dev_base_SomeD [OF "1.prems"(1)]
  let ?s1 = "check_sector b sector s"
  note ck = only_bookkeeping_check [of s b sector]
  have len1: "b < length (blocks ?s1)"
    using only_bookkeepingD(2) [OF ck] same_drivers_lengthD len by metis
  have drv: "block_drv (blocks ?s1 ! b) = block_drv (blocks s ! b)"
    using same_drivers_nthD(1) [OF only_bookkeepingD(2) [OF ck] len] by simp
  show ?case
  proof (cases "block_drv (blocks s ! b)")
    case ide_operations
    with len "1.prems" have "k = 0" by (simp add: dev_base.simps [of _ b])
    let ?t = "?s1\<lparr>image := pwrite (image s) (512 * unat sector) buffer\<rparr>"
    have "only_bookkeeping ?t (inc_write_cnt b ?t)"
      using len1 by (intro only_bookkeeping_inc_write) simp
    with image_upd_bookkeeping [OF ck] have
      "only_bookkeeping (s\<lparr>image := pwrite (image s) (512 * unat sector) buffer\<rparr>) (inc_write_cnt b ?t)"
      using only_bookkeeping_trans by blast
    with len ide_operations drv "1.prems" \<open>k = 0\<close> only_bookkeepingD(1) [OF ck] show ?thesis
      by (simp add: block_write.simps [of b] ide_write_def BLOCK_SECTOR_SIZE_def ide_offset_exact Let_def)
  next
    case (partition_operations p st)
    with len "1.prems"(1) obtain k' where p: "p < b" and k': "dev_base (blocks s) p = Some k'"
      and k: "k = k' + unat st + 1"
      by (auto simp: dev_base.simps [of _ b] split: if_splits)
    have "unat st + unat sector + 1 < 2 ^ 32" using "1.prems"(2,4) k by simp
    from partition_sector_exact [OF this] have u: "unat (st + sector + 1) = unat st + unat sector + 1" .
    let ?img = "pwrite (image s) (512 * (k' + unat (st + sector + 1))) buffer"
    have "block_drv (blocks ?s1 ! b) = partition_operations p st" using drv partition_operations by simp
    note IH = "1.IH" [OF len refl this p]
    have base: "dev_base (blocks ?s1) p = Some k'" using only_bookkeepingD(3) [OF ck] k' by simp
    have "\<exists>s'. block_write p (st + sector + 1) buffer ?s1 = Some s' \<and>
        only_bookkeeping (?s1\<lparr>image := pwrite (image ?s1) (512 * (k' + unat (st + sector + 1))) buffer\<rparr>) s'"
    proof (rule IH [OF base])
      show "k' + (unat st + 1 + n) \<le> 2 ^ 23" using "1.prems"(2) k by simp
      show "512 * (k' + (unat st + 1 + n)) \<le> length (image ?s1)"
        using "1.prems"(3) k only_bookkeepingD(1) [OF ck] by simp
      show "unat (st + sector + 1) < unat st + 1 + n" using u "1.prems"(4) by simp
    qed (rule "1.prems"(5))
    then obtain s' where s': "block_write p (st + sector + 1) buffer ?s1 = Some s'"
        "only_bookkeeping (?s1\<lparr>image := ?img\<rparr>) s'"
      using only_bookkeepingD(1) [OF ck] by auto
    have "b < length (blocks s')"
      using only_bookkeepingD(2) [OF s'(2)] same_drivers_lengthD len1 by fastforce
    then have "only_bookkeeping (s\<lparr>image := ?img\<rparr>) (inc_write_cnt b s')"
      by (intro only_bookkeeping_trans [OF image_upd_bookkeeping [OF ck]]
          only_bookkeeping_trans [OF s'(2)] only_bookkeeping_inc_write)
    moreover have "k + unat sector = k' + unat (st + sector + 1)" using k u by simp
    moreover have "block_write b sector buffer s = Some (inc_write_cnt b s')"
      using s'(1) len drv partition_operations p by (simp add: block_write.simps [of b] Let_def)
    ultimately show ?thesis by metis
  qed
qed

section \<open>The contract of a sector store\<close>

text \<open>
  The layers of the file system pass whole sectors to each other. The locale states what a reader
  and a writer promise over the abstract content of the sectors: reading returns the content and
  changes no sector, writing changes exactly one. \<open>valid\<close> are the sectors that may be used. The
  raw device meets the contract below, the buffer cache does in its own theory.
\<close>

locale sector_store =
  fixes inv :: "'s \<Rightarrow> bool"
    and valid :: "block_sector_t \<Rightarrow> bool"
    and content :: "'s \<Rightarrow> block_sector_t \<Rightarrow> sector_data"
    and rd :: "block_sector_t \<Rightarrow> 's \<Rightarrow> (sector_data \<times> 's) option"
    and wr :: "block_sector_t \<Rightarrow> sector_data \<Rightarrow> 's \<Rightarrow> 's option"
  assumes content_length: "inv s \<Longrightarrow> valid k \<Longrightarrow> length (content s k) = 512"
    and rd_law: "inv s \<Longrightarrow> valid k \<Longrightarrow>
        \<exists>s'. rd k s = Some (content s k, s') \<and> inv s' \<and> (\<forall>j. valid j \<longrightarrow> content s' j = content s j)"
    and wr_law: "inv s \<Longrightarrow> valid k \<Longrightarrow> length d = 512 \<Longrightarrow>
        \<exists>s'. wr k d s = Some s' \<and> inv s' \<and> (\<forall>j. valid j \<longrightarrow> content s' j = (if j = k then d else content s j))"
begin

lemma read_after_write:
  assumes "inv s" "valid k" "valid j" "length d = 512"
  shows "\<exists>s'. do { s1 \<leftarrow> wr k d s; rd j s1 } = Some (if j = k then d else content s j, s') \<and> inv s'"
proof -
  from wr_law [OF assms(1,2,4)] obtain s1 where
    s1: "wr k d s = Some s1" "inv s1" "\<forall>j. valid j \<longrightarrow> content s1 j = (if j = k then d else content s j)" by blast
  from rd_law [OF s1(2) assms(3)] obtain s2 where "rd j s1 = Some (content s1 j, s2)" "inv s2" by blast
  with s1 assms(3) show ?thesis by auto
qed

lemma rd_content:
  assumes "inv s" "valid k" "rd k s = Some (d, s')"
  shows "d = content s k" "inv s'" "valid j \<Longrightarrow> content s' j = content s j"
  using rd_law [OF assms(1,2)] assms(3) by auto

lemma wr_content:
  assumes "inv s" "valid k" "length d = 512" "wr k d s = Some s'"
  shows "inv s'" "valid j \<Longrightarrow> content s' j = (if j = k then d else content s j)"
  using wr_law [OF assms(1,2,3)] assms(4) by auto

text \<open>A sequence of writes leaves each sector with the last data written to it.\<close>

lemma wr_many:
  "inv s \<Longrightarrow> (\<forall>(k, d)\<in>set ws. valid k \<and> length d = 512) \<Longrightarrow>
   \<exists>s'. foldl (\<lambda>r (k, d). Option.bind r (wr k d)) (Some s) ws = Some s' \<and> inv s' \<and>
        (\<forall>j. valid j \<longrightarrow> content s' j = (case map_of (rev ws) j of None \<Rightarrow> content s j | Some d \<Rightarrow> d))"
proof (induction ws rule: rev_induct)
  case (snoc w ws)
  obtain k d where w: "w = (k, d)" by (cases w)
  from snoc obtain s1 where
    s1: "foldl (\<lambda>r (k, d). Option.bind r (wr k d)) (Some s) ws = Some s1" "inv s1"
      "\<forall>j. valid j \<longrightarrow> content s1 j = (case map_of (rev ws) j of None \<Rightarrow> content s j | Some d \<Rightarrow> d)"
    by auto
  from snoc.prems w have "valid k" "length d = 512" by auto
  from wr_law [OF s1(2) this] obtain s2 where
    "wr k d s1 = Some s2" "inv s2" "\<forall>j. valid j \<longrightarrow> content s2 j = (if j = k then d else content s1 j)" by blast
  with s1 w show ?case by auto
qed simp

end

definition dev_rd :: "nat \<Rightarrow> block_sector_t \<Rightarrow> 'a dev_scheme \<Rightarrow> (sector_data \<times> 'a dev_scheme) option" where
  "dev_rd b sector s = block_read b sector (replicate 512 0) s"

definition valid_sector :: "nat \<Rightarrow> block_sector_t \<Rightarrow> bool" where
  "valid_sector n sector \<longleftrightarrow> unat sector < n"

lemma dev_okE:
  assumes "dev_ok n b s"
  obtains k where "dev_base (blocks s) b = Some k" "k + n \<le> 2 ^ 23" "512 * (k + n) \<le> length (image s)"
  using assms by (auto simp: dev_ok_def split: option.splits)

lemma block_read_content:
  assumes "dev_ok n b s" "valid_sector n sector" "length buffer = 512"
  shows "\<exists>s'. block_read b sector buffer s = Some (dev_sector b s sector, s') \<and> only_bookkeeping s s'"
  using assms(1)
proof (cases rule: dev_okE)
  case (1 k)
  with block_read_image [OF 1, of sector buffer] assms(2,3) show ?thesis
    by (simp add: dev_sector_def valid_sector_def)
qed

lemma only_bookkeeping_content:
  "only_bookkeeping s s' \<Longrightarrow> dev_ok n b s' = dev_ok n b s"
  "only_bookkeeping s s' \<Longrightarrow> dev_sector b s' sector = dev_sector b s sector"
  using only_bookkeepingD(1) [of s s'] only_bookkeepingD(3) [of s s' b] by (auto simp: dev_ok_def dev_sector_def split: option.splits)

lemma length_dev_sector: "dev_ok n b s \<Longrightarrow> valid_sector n k \<Longrightarrow> length (dev_sector b s k) = 512"
  by (auto simp: dev_ok_def dev_sector_def valid_sector_def split: option.splits)

lemma block_write_content:
  assumes "dev_ok n b s" "valid_sector n sector" "length d = 512"
  shows "\<exists>s'. block_write b sector d s = Some s' \<and> dev_ok n b s' \<and> dev.more s' = dev.more s \<and>
              (\<forall>j. valid_sector n j \<longrightarrow> dev_sector b s' j = (if j = sector then d else dev_sector b s j))"
  using assms(1)
proof (cases rule: dev_okE)
  case (1 k)
  let ?t = "s\<lparr>image := pwrite (image s) (512 * (k + unat sector)) d\<rparr>"
  from block_write_image [OF 1, of sector d] assms(2,3) obtain s' where
    s': "block_write b sector d s = Some s'" "only_bookkeeping ?t s'" by (auto simp: valid_sector_def)
  have in_img: "512 * (k + unat sector) + length d \<le> length (image s)"
    using 1 assms by (simp add: valid_sector_def)
  have "dev_ok n b ?t" using 1 in_img by (simp add: dev_ok_def)
  moreover have "dev_sector b ?t j = (if j = sector then d else dev_sector b s j)" if "valid_sector n j" for j
  proof (cases "j = sector")
    case True
    with 1 assms(3) slice_pwrite_same [OF in_img] show ?thesis by (simp add: dev_sector_def)
  next
    case False
    then have "unat j \<noteq> unat sector" using unsigned_word_eqI by blast
    then have "k + unat j < k + unat sector \<or> k + unat sector < k + unat j" by linarith
    then have "512 * (k + unat j) + 512 \<le> 512 * (k + unat sector) \<or>
               512 * (k + unat sector) + length d \<le> 512 * (k + unat j)" using assms(3) by auto
    moreover have "512 * (k + unat j) + 512 \<le> length (image s)"
      using that 1 by (simp add: valid_sector_def)
    ultimately have "slice (512 * (k + unat j)) 512 (image ?t) = slice (512 * (k + unat j)) 512 (image s)"
      using slice_pwrite_other [OF in_img, of "512 * (k + unat j)" 512] by simp
    with False 1 show ?thesis by (simp add: dev_sector_def)
  qed
  ultimately show ?thesis
    using s' only_bookkeeping_content [OF s'(2)] only_bookkeepingD(4) [OF s'(2)] by auto
qed

interpretation raw: sector_store "dev_ok n b" "valid_sector n" "dev_sector b" "dev_rd b" "block_write b" for n b
proof unfold_locales
  fix s k assume *: "dev_ok n b s" "valid_sector n k"
  then show "\<exists>s'. dev_rd b k s = Some (dev_sector b s k, s') \<and> dev_ok n b s' \<and>
                (\<forall>j. valid_sector n j \<longrightarrow> dev_sector b s' j = dev_sector b s j)"
    using block_read_content [OF *, of "replicate 512 0"] only_bookkeeping_content by (fastforce simp: dev_rd_def)
next
  fix s k d assume "dev_ok n b s" "valid_sector n k" "length (d :: sector_data) = 512"
  from block_write_content [OF this] show "\<exists>s'. block_write b k d s = Some s' \<and> dev_ok n b s' \<and>
        (\<forall>j. valid_sector n j \<longrightarrow> dev_sector b s' j = (if j = k then d else dev_sector b s j))" by blast
qed (rule length_dev_sector)

section \<open>Properties\<close>

text \<open>
  C29. A sector written with \<^verbatim>\<open>block_write\<close> is read back unchanged by \<^verbatim>\<open>block_read\<close>, and every other sector
  still reads as before, on a disk or on a partition of any depth whose sectors lie inside the
  disk file and below 4 GB.
\<close>

theorem block_write_then_read:
  assumes "dev_ok n b s" "unat k < n" "unat j < n" "length d = 512"
  shows "\<exists>s'. do { s1 \<leftarrow> block_write b k d s; block_read b j (replicate 512 0) s1 } =
              Some (if j = k then d else dev_sector b s j, s') \<and> dev_ok n b s'"
  using raw.read_after_write [of n b s k j d] assms by (simp add: dev_rd_def valid_sector_def)

definition disk2 :: dev where
  "disk2 = \<lparr>console = [], image = replicate 1024 0,
            blocks = [\<lparr>block_nm = ''hda'', block_fname = ''d'', block_sz = 2, block_drv = ide_operations,
                       read_cnt = 0, write_cnt = 0\<rparr>], hard_drive = Some 0\<rparr>"

lemma disk2_ok: "dev_ok 2 0 disk2"
  by (simp add: dev_ok_def disk2_def dev_base.simps)

theorem block_write_then_read_witness:
  "\<exists>s'. do { s1 \<leftarrow> block_write 0 1 (replicate 512 7) disk2; block_read 0 1 (replicate 512 0) s1 } =
        Some (replicate 512 7, s') \<and> dev_ok 2 0 s'"
  using block_write_then_read [OF disk2_ok, of 1 1 "replicate 512 7"] by simp

text \<open>
  \<^verbatim>\<open>found_partition\<close> registers a new device exactly when the partition starts inside its device and
  ends inside it, the sum computed without wrap-around; otherwise it only prints.
\<close>

theorem found_partition_registers:
  assumes "block_size s b = Some bsz"
  shows "\<exists>s'. found_partition b start sz part_nr fname s = Some s' \<and>
    (if start < bsz \<and> unat start + unat sz \<le> unat bsz
     then length (blocks s') = Suc (length (blocks s)) \<and> hard_drive s' = Some (length (blocks s)) \<and>
          block_drv (last (blocks s')) = partition_operations b start \<and> block_sz (last (blocks s')) = sz
     else blocks s' = blocks s \<and> hard_drive s' = hard_drive s)"
proof -
  from assms obtain nm where nm: "block_name s b = Some nm"
    by (auto simp: block_size_def block_name_def split: if_splits)
  have "start + sz < start \<or> start + sz > bsz \<longleftrightarrow> \<not> unat start + unat sz \<le> unat bsz"
  proof (cases "unat start + unat sz < 2 ^ 32")
    case True
    then have "unat (start + sz) = unat start + unat sz" by (simp add: unat_word_ariths)
    then show ?thesis by (auto simp: word_less_nat_alt)
  next
    case False
    have lt: "unat start < 2 ^ 32" "unat sz < 2 ^ 32"
      using unsigned_less [of start] unsigned_less [of sz] by simp_all
    have "unat (start + sz) = (unat start + unat sz) mod 2 ^ 32" by (simp add: unat_word_ariths)
    also have "\<dots> = unat start + unat sz - 2 ^ 32"
      using False lt by (simp only: le_mod_geq not_less) (rule mod_less, linarith)
    finally have "unat (start + sz) < unat start" using False lt by linarith
    moreover have "unat bsz < 2 ^ 32" using unsigned_less [of bsz] by simp
    ultimately show ?thesis using False by (auto simp: word_less_nat_alt)
  qed
  note ends = this
  show ?thesis
  proof (cases "start < bsz \<and> unat start + unat sz \<le> unat bsz")
    case True
    then have "\<not> bsz \<le> start" by (simp add: not_le)
    with True ends assms nm have "found_partition b start sz part_nr fname s =
        Some (snd (block_register (take 15 (nm @ nat_str part_nr)) fname sz (partition_operations b start) s))"
      by (simp add: found_partition_def Let_def del: take_append)
    with True show ?thesis by (simp add: block_register_def Let_def printf_def block_set_hd_def)
  next
    case False
    with ends assms nm have "\<exists>msg. found_partition b start sz part_nr fname s = Some (printf msg s)"
      by (simp add: found_partition_def Let_def) (metis linorder_not_less)
    with False show ?thesis by (auto simp: printf_def)
  qed
qed

theorem found_partition_registers_witness:
  "\<exists>s'. found_partition 0 1 1 1 ''d'' disk2 = Some s' \<and> length (blocks s') = 2 \<and>
        block_drv (last (blocks s')) = partition_operations 0 1"
proof -
  have "block_size disk2 0 = Some 2" by (simp add: block_size_def disk2_def)
  from found_partition_registers [OF this, of 1 1 1 "''d''"] show ?thesis
    by (auto simp: disk2_def word_less_nat_alt)
qed

text \<open>
  \<^verbatim>\<open>partition_read\<close> adds one to the sector number, so sector \<open>i\<close> of a partition that starts at
  \<open>start\<close> is sector \<open>start + i + 1\<close> of the disk. In particular the last sector of the partition,
  \<open>sz - 1\<close>, is read from disk sector \<open>start + sz\<close>, the first one after the partition.
\<close>

theorem partition_sector_is_shifted:
  assumes "b < length (blocks s)" "block_drv (blocks s ! b) = partition_operations p start"
    "p < b" "block_drv (blocks s ! p) = ide_operations"
  shows "map_option fst (block_read b (block_sz (blocks s ! b) - 1) buffer s) =
         Some (ide_read (image s) (start + block_sz (blocks s ! b)) buffer)"
  using assms by (simp add: block_read.simps [of b] block_read.simps [of p])

definition disk_part :: dev where
  "disk_part = disk2\<lparr>blocks := blocks disk2 @
     [\<lparr>block_nm = ''hda1'', block_fname = ''d'', block_sz = 1, block_drv = partition_operations 0 1,
       read_cnt = 0, write_cnt = 0\<rparr>]\<rparr>"

theorem partition_sector_is_shifted_witness:
  "map_option fst (block_read 1 (1 - 1) (replicate 512 9) disk_part) =
   Some (ide_read (replicate 1024 0) 2 (replicate 512 9))"
  using partition_sector_is_shifted [of 1 disk_part 0 1 "replicate 512 9"]
  by (simp add: disk_part_def disk2_def)

text \<open>
  The byte offset of a sector wraps at 32 bits: sectors that differ by \<open>2 ^ 23\<close> (4 GB) are the
  same bytes of the disk file, although a sector number is said to be good for devices up to
  2 TB.
\<close>

theorem ide_sectors_alias:
  "ide_read img (sec_no + 0x800000) buffer = ide_read img sec_no buffer \<and>
   ide_write img (sec_no + 0x800000) data = ide_write img sec_no data"
proof -
  have "(0x800000 * 512 :: block_sector_t) = 0" by simp
  then have "(sec_no + 0x800000) * 512 = sec_no * 512" by (simp only: distrib_right add_0_right)
  then have "ide_offset (sec_no + 0x800000) = ide_offset sec_no" by (simp only: ide_offset_def)
  then show ?thesis by (simp add: ide_read_def ide_write_def)
qed

text \<open>
  An extended partition sends the scan of the partition table into unbounded recursion: the nested
  call reads sector 0 again instead of the sector it was given, and finds the same entry there.
\<close>

definition table_seen :: "nat \<Rightarrow> block_sector_t \<Rightarrow> sector_data \<Rightarrow> 'a dev_scheme \<Rightarrow> bool" where
  "table_seen b bsz pt s \<longleftrightarrow> dev_ok 1 b s \<and> block_size s b = Some bsz \<and> dev_sector b s 0 = pt"

lemma table_seen_bookkeeping:
  assumes "only_bookkeeping s s'" "table_seen b bsz pt s"
  shows "table_seen b bsz pt s'"
proof -
  note sd = only_bookkeepingD(2) [OF assms(1)]
  have "block_size s' b = block_size s b"
    using same_drivers_nthD(2) [OF sd, of b] same_drivers_lengthD [OF sd] by (simp add: block_size_def)
  with assms(2) only_bookkeeping_content [OF assms(1)] show ?thesis by (simp add: table_seen_def)
qed

lemma only_bookkeeping_printf: "only_bookkeeping s (printf msg s)"
  by (simp add: only_bookkeeping_def printf_def)

lemma read_partition_table_unfold:
  assumes "table_seen b bsz pt s" "sector < bsz" "table_signature pt = 0xaa55"
  shows "\<exists>s1. table_seen b bsz pt s1 \<and>
     read_partition_table (Suc fuel) b fname sector primary part_nr s =
     parse_partitions (read_partition_table fuel b fname) b sector primary fname
       (map (table_entry pt) [0..<4]) part_nr s1"
proof -
  from assms(1) obtain nm where nm: "block_name s b = Some nm"
    by (auto simp: table_seen_def block_size_def block_name_def split: if_splits)
  have "valid_sector 1 (0 :: block_sector_t)" by (simp add: valid_sector_def)
  from block_read_content [OF _ this, of b s "replicate 512 0"] assms(1) obtain s1 where
    "block_read b 0 (replicate 512 0) s = Some (pt, s1)" "only_bookkeeping s s1"
    by (auto simp: table_seen_def)
  moreover from this(2) assms(1) have "table_seen b bsz pt s1" by (rule table_seen_bookkeeping)
  moreover have "\<not> bsz \<le> sector" using assms(2) by (simp add: not_le)
  ultimately show ?thesis using assms nm by (auto simp: table_seen_def read_partition_table.simps(2))
qed

lemma parse_extended_None:
  assumes "table_seen b bsz pt s" "pe_size e \<noteq> 0" "pe_type e \<in> {0x05, 0x0f, 0x85, 0xc5}"
    and "\<And>t. table_seen b bsz pt t \<Longrightarrow>
           (if sector = 0 then scan (pe_offset e) (pe_offset e) part_nr t
            else scan (pe_offset e + primary) primary part_nr t) = None"
  shows "parse_partitions scan b sector primary fname (e # es) part_nr s = None"
proof -
  from assms(1) obtain nm where nm: "block_name s b = Some nm"
    by (auto simp: table_seen_def block_size_def block_name_def split: if_splits)
  have "pe_type e \<noteq> 0" using assms(3) by auto
  moreover have "table_seen b bsz pt (printf msg s)" for msg
    using table_seen_bookkeeping [OF only_bookkeeping_printf assms(1)] .
  ultimately show ?thesis
    using assms(2,3) nm assms(4) [OF table_seen_bookkeeping [OF only_bookkeeping_printf assms(1)]]
    by (simp add: parse_partitions.simps(2) Let_def del: insert_iff)
qed

lemma upt_0_4: "[0..<4] = [0, 1, 2, 3::nat]"
  by (simp add: upt_rec)

lemma read_extended_diverges:
  assumes "table_signature pt = 0xaa55" "pe_size (table_entry pt 0) \<noteq> 0"
    "pe_type (table_entry pt 0) \<in> {0x05, 0x0f, 0x85, 0xc5}"
    "pe_offset (table_entry pt 0) + off < bsz" "pe_offset (table_entry pt 0) + off \<noteq> 0"
  shows "table_seen b bsz pt s \<Longrightarrow>
         read_partition_table fuel b fname (pe_offset (table_entry pt 0) + off) off part_nr s = None"
proof (induction fuel arbitrary: s part_nr)
  case (Suc fuel)
  from read_partition_table_unfold [OF Suc.prems assms(4,1)] obtain s1 where
    s1: "table_seen b bsz pt s1" "read_partition_table (Suc fuel) b fname (pe_offset (table_entry pt 0) + off) off part_nr s =
      parse_partitions (read_partition_table fuel b fname) b (pe_offset (table_entry pt 0) + off) off fname
        (map (table_entry pt) [0..<4]) part_nr s1" by blast
  have "parse_partitions (read_partition_table fuel b fname) b (pe_offset (table_entry pt 0) + off) off fname
        (table_entry pt 0 # map (table_entry pt) [1, 2, 3]) part_nr s1 = None"
    by (rule parse_extended_None [OF s1(1) assms(2,3)]) (use Suc.IH assms(5) in simp)
  with s1(2) show ?case by (simp add: upt_0_4)
qed (simp add: read_partition_table.simps)


definition disk_ext :: dev where
  "disk_ext = \<lparr>console = [],
     image = replicate 446 0 @ [0, 0, 0, 0, 5, 0, 0, 0, 1, 0, 0, 0, 1, 0, 0, 0] @ replicate 48 0 @ [0x55, 0xaa] @
             replicate 1024 0,
     blocks = [\<lparr>block_nm = ''hda'', block_fname = ''d'', block_sz = 3, block_drv = ide_operations,
                read_cnt = 0, write_cnt = 0\<rparr>], hard_drive = Some 0\<rparr>"


end
