(* ===== verification/Buffer_Cache.thy ===== *)
theory Buffer_Cache
  imports Block_Device
begin

text \<open>
  The write-back buffer cache of \<^verbatim>\<open>a3/fs/cache.c\<close>: 64 entries of one sector each, replaced by the clock
  (second chance) algorithm. A \<^verbatim>\<open>struct buffer_cache_entry_t *\<close> is an index into \<open>cache\<close>. The theory
  proves that the cache is transparent: with it, reads and writes of sectors meet the same contract
  (\<open>sector_store\<close>) as on the raw device, and closing the cache leaves that content on the disk.
\<close>

section \<open>Definitions\<close>

definition BUFFER_CACHE_SIZE :: nat where
  "BUFFER_CACHE_SIZE = 64"

record buffer_cache_entry_t =
  occupied :: bool
  disk_sector :: block_sector_t
  buffer :: sector_data
  dirty :: bool
  accessed :: bool

record cstate = dev +
  fs_device :: nat
  cache :: "buffer_cache_entry_t list"
  clock :: nat

definition upd_entry ::
    "nat \<Rightarrow> (buffer_cache_entry_t \<Rightarrow> buffer_cache_entry_t) \<Rightarrow> 'a cstate_scheme \<Rightarrow> 'a cstate_scheme" where
  "upd_entry i f s = s\<lparr>cache := (cache s)[i := f (cache s ! i)]\<rparr>"

definition buffer_cache_init :: "'a cstate_scheme \<Rightarrow> 'a cstate_scheme" where
  "buffer_cache_init s = s\<lparr>cache := map (\<lambda>e. e\<lparr>occupied := False, dirty := False\<rparr>) (cache s)\<rparr>"

definition buffer_cache_flush :: "nat \<Rightarrow> 'a cstate_scheme \<Rightarrow> 'a cstate_scheme option" where
  "buffer_cache_flush i s =
     (let s = assertion ''buffer_cache_flush'' (occupied (cache s ! i)) s
      in if dirty (cache s ! i)
         then do { s' \<leftarrow> block_write (fs_device s) (disk_sector (cache s ! i)) (buffer (cache s ! i)) s;
                   Some (upd_entry i (dirty_update (\<lambda>_. False)) s') }
         else Some s)"

primrec buffer_cache_close_loop :: "nat list \<Rightarrow> 'a cstate_scheme \<Rightarrow> 'a cstate_scheme option" where
  "buffer_cache_close_loop [] s = Some s"
| "buffer_cache_close_loop (i # is) s =
     (if \<not> occupied (cache s ! i) then buffer_cache_close_loop is s
      else do { s' \<leftarrow> buffer_cache_flush i s; buffer_cache_close_loop is s' })"

definition buffer_cache_close :: "'a cstate_scheme \<Rightarrow> 'a cstate_scheme option" where
  "buffer_cache_close s = buffer_cache_close_loop [0..<BUFFER_CACHE_SIZE] s"

definition buffer_cache_lookup :: "block_sector_t \<Rightarrow> 'a cstate_scheme \<Rightarrow> nat option" where
  "buffer_cache_lookup sector s =
     first_from (\<lambda>i. occupied (cache s ! i) \<and> disk_sector (cache s ! i) = sector) 0 BUFFER_CACHE_SIZE"

text \<open>
  The loop of \<^verbatim>\<open>buffer_cache_evict\<close>. It stops at an unoccupied entry (second component of the result
  \<^term>\<open>False\<close>) or at one whose access bit is clear, and clears the access bits it passes; each
  round that does not stop clears one bit, so the loop ends.
\<close>

function clock_sweep ::
    "buffer_cache_entry_t list \<Rightarrow> nat \<Rightarrow> (nat \<times> bool \<times> buffer_cache_entry_t list) option" where
  "clock_sweep es c =
     (if c < length es then
        if \<not> occupied (es ! c) then Some (c, False, es)
        else if accessed (es ! c)
        then clock_sweep (es[c := (es ! c)\<lparr>accessed := False\<rparr>]) ((c + 1) mod BUFFER_CACHE_SIZE)
        else Some (c, True, es)
      else None)"
  by pat_completeness auto

lemma filter_update_shorter:
  "i < length xs \<Longrightarrow> P (xs ! i) \<Longrightarrow> \<not> P y \<Longrightarrow> length (filter P (xs[i := y])) < length (filter P xs)"
proof (induction xs arbitrary: i)
  case (Cons x xs)
  then show ?case by (cases i) auto
qed simp

termination clock_sweep
  by (relation "measure (\<lambda>(es, c). length (filter accessed es))") (auto intro: filter_update_shorter)

declare clock_sweep.simps [simp del]

definition buffer_cache_evict :: "'a cstate_scheme \<Rightarrow> (nat \<times> 'a cstate_scheme) option" where
  "buffer_cache_evict s =
     do { (c, full, es) \<leftarrow> clock_sweep (cache s) (clock s);
          let s1 = s\<lparr>cache := es, clock := c\<rparr>;
          if \<not> full then Some (c, s1)
          else do { s2 \<leftarrow> (if dirty (cache s1 ! c) then buffer_cache_flush c s1 else Some s1);
                    Some (c, upd_entry c (occupied_update (\<lambda>_. False)) s2) } }"

text \<open>The common start of \<^verbatim>\<open>buffer_cache_read\<close> and \<^verbatim>\<open>buffer_cache_write\<close>: the entry of a sector, loaded from
  the device on a miss.\<close>

definition buffer_cache_slot :: "string \<Rightarrow> block_sector_t \<Rightarrow> 'a cstate_scheme \<Rightarrow> (nat \<times> 'a cstate_scheme) option"
  where
  "buffer_cache_slot fn sector s =
     (case buffer_cache_lookup sector s of
        Some i \<Rightarrow> Some (i, s)
      | None \<Rightarrow>
          do { (i, s1) \<leftarrow> buffer_cache_evict s;
               let s2 = assertion fn (\<not> occupied (cache s1 ! i)) s1;
               let s3 = upd_entry i (\<lambda>e. e\<lparr>occupied := True, disk_sector := sector, dirty := False\<rparr>) s2;
               (buf, s4) \<leftarrow> block_read (fs_device s3) sector (buffer (cache s3 ! i)) s3;
               Some (i, upd_entry i (buffer_update (\<lambda>_. buf)) s4) })"

definition buffer_cache_read :: "block_sector_t \<Rightarrow> 'a cstate_scheme \<Rightarrow> (sector_data \<times> 'a cstate_scheme) option"
  where
  "buffer_cache_read sector s =
     do { (i, s1) \<leftarrow> buffer_cache_slot ''buffer_cache_read'' sector s;
          let s2 = upd_entry i (accessed_update (\<lambda>_. True)) s1;
          Some (buffer (cache s2 ! i), s2) }"

definition buffer_cache_write :: "block_sector_t \<Rightarrow> sector_data \<Rightarrow> 'a cstate_scheme \<Rightarrow> 'a cstate_scheme option"
  where
  "buffer_cache_write sector source s =
     do { (i, s1) \<leftarrow> buffer_cache_slot ''buffer_cache_write'' sector s;
          Some (upd_entry i (\<lambda>e. e\<lparr>accessed := True, dirty := True, buffer := take 512 source\<rparr>) s1) }"

section \<open>The content seen through the cache\<close>

definition cached :: "buffer_cache_entry_t list \<Rightarrow> block_sector_t \<Rightarrow> nat \<Rightarrow> bool" where
  "cached es k i \<longleftrightarrow> i < length es \<and> occupied (es ! i) \<and> disk_sector (es ! i) = k"

text \<open>Entries agree with the device unless dirty, hold distinct usable sectors, and are full sectors.\<close>

definition cache_ok :: "nat \<Rightarrow> (block_sector_t \<Rightarrow> sector_data) \<Rightarrow> buffer_cache_entry_t list \<Rightarrow> bool" where
  "cache_ok n dsk es \<longleftrightarrow>
     length es = BUFFER_CACHE_SIZE \<and>
     (\<forall>i k. cached es k i \<longrightarrow> valid_sector n k \<and> (\<not> dirty (es ! i) \<longrightarrow> buffer (es ! i) = dsk k)) \<and>
     (\<forall>i j k. cached es k i \<longrightarrow> cached es k j \<longrightarrow> i = j) \<and>
     (\<forall>i < BUFFER_CACHE_SIZE. length (buffer (es ! i)) = 512)"

definition cache_view :: "(block_sector_t \<Rightarrow> sector_data) \<Rightarrow> buffer_cache_entry_t list \<Rightarrow> block_sector_t \<Rightarrow> sector_data" where
  "cache_view dsk es k =
     (case first_from (\<lambda>i. occupied (es ! i) \<and> disk_sector (es ! i) = k) 0 BUFFER_CACHE_SIZE of
        Some i \<Rightarrow> buffer (es ! i) | None \<Rightarrow> dsk k)"

definition cache_inv :: "nat \<Rightarrow> 'a cstate_scheme \<Rightarrow> bool" where
  "cache_inv n s \<longleftrightarrow> dev_ok n (fs_device s) s \<and> clock s < BUFFER_CACHE_SIZE \<and>
     cache_ok n (dev_sector (fs_device s) s) (cache s)"

definition cache_content :: "'a cstate_scheme \<Rightarrow> block_sector_t \<Rightarrow> sector_data" where
  "cache_content s = cache_view (dev_sector (fs_device s) s) (cache s)"

lemma first_cached:
  assumes "cache_ok n dsk es" "cached es k i"
  shows "first_from (\<lambda>i. occupied (es ! i) \<and> disk_sector (es ! i) = k) 0 BUFFER_CACHE_SIZE = Some i"
proof (rule first_from_SomeI)
  fix j assume "j < i"
  with assms show "\<not> (occupied (es ! j) \<and> disk_sector (es ! j) = k)"
    unfolding cache_ok_def cached_def by (metis less_trans nat_neq_iff)
qed (use assms in \<open>auto simp: cached_def cache_ok_def\<close>)

lemma first_not_cached:
  assumes "length es = BUFFER_CACHE_SIZE" "\<And>i. \<not> cached es k i"
  shows "first_from (\<lambda>i. occupied (es ! i) \<and> disk_sector (es ! i) = k) 0 BUFFER_CACHE_SIZE = None"
  using assms by (auto simp: first_from_None_iff cached_def)

lemma cache_view_hit: "cache_ok n dsk es \<Longrightarrow> cached es k i \<Longrightarrow> cache_view dsk es k = buffer (es ! i)"
  by (simp add: cache_view_def first_cached)

lemma cache_view_miss:
  "length es = BUFFER_CACHE_SIZE \<Longrightarrow> (\<And>i. \<not> cached es k i) \<Longrightarrow> cache_view dsk es k = dsk k"
  by (simp add: cache_view_def first_not_cached)

lemma lookup_cases:
  assumes "cache_ok n dsk (cache s)"
  obtains (hit) i where "buffer_cache_lookup k s = Some i" "cached (cache s) k i"
  | (miss) "buffer_cache_lookup k s = None" "\<And>i. \<not> cached (cache s) k i"
proof (cases "\<exists>i. cached (cache s) k i")
  case True
  then obtain i where "cached (cache s) k i" ..
  with first_cached [OF assms this] hit show ?thesis by (simp add: buffer_cache_lookup_def)
next
  case False
  with assms first_not_cached [of "cache s" k] miss show ?thesis
    by (auto simp: buffer_cache_lookup_def cache_ok_def)
qed

section \<open>Effect of the elementary steps on the view\<close>

lemma cached_update:
  "i < length es \<Longrightarrow>
   cached (es[i := e]) k j \<longleftrightarrow> (if j = i then occupied e \<and> disk_sector e = k else cached es k j)"
  by (auto simp: cached_def nth_list_update)

lemma cache_okD:
  assumes "cache_ok n dsk es"
  shows "length es = BUFFER_CACHE_SIZE" "cached es k i \<Longrightarrow> valid_sector n k"
    "cached es k i \<Longrightarrow> \<not> dirty (es ! i) \<Longrightarrow> buffer (es ! i) = dsk k"
    "cached es k i \<Longrightarrow> cached es k j \<Longrightarrow> i = j"
    "i < BUFFER_CACHE_SIZE \<Longrightarrow> length (buffer (es ! i)) = 512"
  using assms unfolding cache_ok_def by blast+

lemma cache_okI:
  assumes "length es = BUFFER_CACHE_SIZE" "\<And>i k. cached es k i \<Longrightarrow> valid_sector n k"
    "\<And>i k. cached es k i \<Longrightarrow> \<not> dirty (es ! i) \<Longrightarrow> buffer (es ! i) = dsk k"
    "\<And>i j k. cached es k i \<Longrightarrow> cached es k j \<Longrightarrow> i = j"
    "\<And>i. i < BUFFER_CACHE_SIZE \<Longrightarrow> length (buffer (es ! i)) = 512"
  shows "cache_ok n dsk es"
  using assms unfolding cache_ok_def by auto

text \<open>Two caches with the same entries, possibly seen over two device contents, have the same view if
  they agree on what is cached and on the device for the rest.\<close>

lemma cache_view_eqI:
  assumes "cache_ok n dsk es" "cache_ok n dsk' es'"
    and "\<And>i. cached es k i \<Longrightarrow> (cached es' k i \<and> buffer (es' ! i) = buffer (es ! i)) \<or>
             ((\<forall>j. \<not> cached es' k j) \<and> buffer (es ! i) = dsk' k)"
    and "(\<And>i. \<not> cached es k i) \<Longrightarrow>
         (\<exists>j. cached es' k j \<and> buffer (es' ! j) = dsk k) \<or> ((\<forall>j. \<not> cached es' k j) \<and> dsk' k = dsk k)"
  shows "cache_view dsk' es' k = cache_view dsk es k"
proof (cases "\<exists>i. cached es k i")
  case True
  then obtain i where i: "cached es k i" ..
  from assms(3) [OF i] show ?thesis
    by (auto simp: cache_view_hit [OF assms(1) i] cache_view_hit [OF assms(2)]
        cache_view_miss [OF cache_okD(1) [OF assms(2)]])
next
  case False
  with assms(4) show ?thesis
    by (auto simp: cache_view_hit [OF assms(2)] cache_view_miss [OF cache_okD(1) [OF assms(2)]]
        cache_view_miss [OF cache_okD(1) [OF assms(1)]])
qed

definition same_entries :: "buffer_cache_entry_t list \<Rightarrow> buffer_cache_entry_t list \<Rightarrow> bool" where
  "same_entries es es' \<longleftrightarrow> map (accessed_update (\<lambda>_. False)) es = map (accessed_update (\<lambda>_. False)) es'"

lemma accessed_update_eqD:
  "accessed_update (\<lambda>_. False) e = accessed_update (\<lambda>_. False) e' \<Longrightarrow>
   occupied e = occupied e' \<and> disk_sector e = disk_sector e' \<and> buffer e = buffer e' \<and> dirty e = dirty e'"
  by (cases e; cases e') simp

lemma same_entriesD:
  assumes "same_entries es es'" "i < length es"
  shows "occupied (es' ! i) = occupied (es ! i)" "disk_sector (es' ! i) = disk_sector (es ! i)"
    "buffer (es' ! i) = buffer (es ! i)" "dirty (es' ! i) = dirty (es ! i)"
proof -
  have l: "length es' = length es" using assms(1) unfolding same_entries_def by (metis length_map)
  have "map (accessed_update (\<lambda>_. False)) es ! i = map (accessed_update (\<lambda>_. False)) es' ! i"
    using assms(1) by (simp add: same_entries_def)
  then have "accessed_update (\<lambda>_. False) (es ! i) = accessed_update (\<lambda>_. False) (es' ! i)"
    using assms(2) l by simp
  from accessed_update_eqD [OF this] show
    "occupied (es' ! i) = occupied (es ! i)" "disk_sector (es' ! i) = disk_sector (es ! i)"
    "buffer (es' ! i) = buffer (es ! i)" "dirty (es' ! i) = dirty (es ! i)" by simp_all
qed

lemma same_entries_length: "same_entries es es' \<Longrightarrow> length es' = length es"
  unfolding same_entries_def by (metis length_map)

lemma same_entries_cached: "same_entries es es' \<Longrightarrow> cached es' k i = cached es k i"
  by (auto simp: cached_def same_entries_length same_entriesD)

lemma same_entries_ok:
  assumes "same_entries es es'" "cache_ok n dsk es"
  shows "cache_ok n dsk es'" "cache_view dsk es' k = cache_view dsk es k"
proof -
  have c: "cached es' k i = cached es k i" for k i by (rule same_entries_cached [OF assms(1)])
  have d: "cached es k i \<Longrightarrow> buffer (es' ! i) = buffer (es ! i)"
    "cached es k i \<Longrightarrow> dirty (es' ! i) = dirty (es ! i)" for k i
    using same_entriesD [OF assms(1)] by (auto simp: cached_def)
  have len: "length es = BUFFER_CACHE_SIZE" using assms(2) by (rule cache_okD)
  show ok: "cache_ok n dsk es'"
  proof (rule cache_okI)
    fix i k assume "cached es' k i" "\<not> dirty (es' ! i)"
    then show "buffer (es' ! i) = dsk k"
      using cache_okD(3) [OF assms(2)] d c by simp
  next
    fix i assume "i < BUFFER_CACHE_SIZE"
    then show "length (buffer (es' ! i)) = 512"
      using cache_okD(5) [OF assms(2)] same_entriesD(3) [OF assms(1)] len by simp
  qed (use cache_okD [OF assms(2)] c len same_entries_length [OF assms(1)] in auto)
  show "cache_view dsk es' k = cache_view dsk es k"
    by (rule cache_view_eqI [OF assms(2) ok]) (use c d in auto)
qed

lemma clock_sweep_same:
  assumes "length es = BUFFER_CACHE_SIZE" "c < BUFFER_CACHE_SIZE"
  shows "\<exists>c' full es'. clock_sweep es c = Some (c', full, es') \<and> c' < BUFFER_CACHE_SIZE \<and>
     same_entries es es' \<and> occupied (es' ! c') = full"
  using assms
proof (induction es c rule: clock_sweep.induct)
  case (1 es c)
  show ?case
  proof (cases "occupied (es ! c) \<and> accessed (es ! c)")
    case True
    let ?es = "es[c := (es ! c)\<lparr>accessed := False\<rparr>]"
    from 1 True obtain c' full es' where
      *: "clock_sweep ?es ((c + 1) mod BUFFER_CACHE_SIZE) = Some (c', full, es')" "c' < BUFFER_CACHE_SIZE"
         "same_entries ?es es'" "occupied (es' ! c') = full"
      by (auto simp: BUFFER_CACHE_SIZE_def)
    have "same_entries es ?es"
      using "1.prems" by (auto simp: same_entries_def list_eq_iff_nth_eq nth_list_update)
    with *(3) have "same_entries es es'" by (simp add: same_entries_def)
    with * True 1 show ?thesis by (simp add: clock_sweep.simps [of es c])
  next
    case False
    with 1 show ?thesis by (auto simp: clock_sweep.simps [of es c] same_entries_def)
  qed
qed

text \<open>Dropping a clean entry.\<close>

lemma drop_clean:
  assumes "cache_ok n dsk es" "i < BUFFER_CACHE_SIZE" "\<not> dirty (es ! i)"
  defines "es' \<equiv> es[i := (es ! i)\<lparr>occupied := False\<rparr>]"
  shows "cache_ok n dsk es'" "cache_view dsk es' k = cache_view dsk es k"
proof -
  have len: "i < length es" using assms(2) cache_okD(1) [OF assms(1)] by simp
  have c: "cached es' k j \<longleftrightarrow> j \<noteq> i \<and> cached es k j" for k j
    by (simp add: es'_def cached_update [OF len])
  have nth: "j \<noteq> i \<Longrightarrow> es' ! j = es ! j" for j by (simp add: es'_def)
  show ok: "cache_ok n dsk es'"
  proof (rule cache_okI)
    fix j assume "j < BUFFER_CACHE_SIZE"
    then show "length (buffer (es' ! j)) = 512"
      using cache_okD(5) [OF assms(1)] len by (cases "j = i") (simp_all add: es'_def)
  qed (use cache_okD [OF assms(1)] c nth len in \<open>auto simp: es'_def\<close>)
  show "cache_view dsk es' k = cache_view dsk es k"
  proof (rule cache_view_eqI [OF assms(1) ok])
    fix j assume j: "cached es k j"
    show "cached es' k j \<and> buffer (es' ! j) = buffer (es ! j) \<or> (\<forall>j. \<not> cached es' k j) \<and> buffer (es ! j) = dsk k"
    proof (cases "j = i")
      case True
      with j cache_okD(3,4) [OF assms(1)] assms(3) c show ?thesis by blast
    qed (use j c nth in simp)
  qed (use c in simp)
qed

text \<open>Writing a dirty entry back to the device.\<close>

lemma write_back:
  assumes "cache_ok n dsk es" "cached es q i"
    and "\<And>k. valid_sector n k \<Longrightarrow> dsk' k = (if k = q then buffer (es ! i) else dsk k)"
  defines "es' \<equiv> es[i := (es ! i)\<lparr>dirty := False\<rparr>]"
  shows "cache_ok n dsk' es'" "valid_sector n k \<Longrightarrow> cache_view dsk' es' k = cache_view dsk es k"
proof -
  have len: "i < length es" "disk_sector (es ! i) = q" "occupied (es ! i)" using assms(2) by (auto simp: cached_def)
  have c: "cached es' k j = cached es k j" for k j
    using len by (auto simp: es'_def cached_def nth_list_update)
  have nth: "j \<noteq> i \<Longrightarrow> es' ! j = es ! j" "buffer (es' ! j) = buffer (es ! j)" for j
    using len by (auto simp: es'_def nth_list_update)
  show ok: "cache_ok n dsk' es'"
  proof (rule cache_okI)
    fix j k assume j: "cached es' k j" "\<not> dirty (es' ! j)"
    then have v: "valid_sector n k" using c cache_okD(2) [OF assms(1)] by blast
    show "buffer (es' ! j) = dsk' k"
    proof (cases "j = i")
      case True
      with j len have "k = q" using c by (auto simp: cached_def)
      with True v show ?thesis by (simp add: assms(3) nth)
    next
      case False
      with j have "k \<noteq> q" using c cache_okD(4) [OF assms(1)] assms(2) by blast
      with False j c v show ?thesis using cache_okD(3) [OF assms(1)] by (auto simp: assms(3) nth)
    qed
  qed (use cache_okD [OF assms(1)] c nth in \<open>auto simp: es'_def\<close>)
  show "cache_view dsk' es' k = cache_view dsk es k" if "valid_sector n k"
    by (rule cache_view_eqI [OF assms(1) ok]) (use c nth assms(2,3) that in auto)
qed

text \<open>Loading a sector that is not cached into a free entry.\<close>

lemma load_entry:
  assumes "cache_ok n dsk es" "i < BUFFER_CACHE_SIZE" "\<not> occupied (es ! i)" "\<And>j. \<not> cached es q j"
    and "valid_sector n q" "length (dsk q) = 512"
    and "occupied e" "disk_sector e = q" "\<not> dirty e" "buffer e = dsk q"
  shows "cache_ok n dsk (es[i := e])" "cache_view dsk (es[i := e]) k = cache_view dsk es k" "cached (es[i := e]) q i"
proof -
  have len: "i < length es" using assms(2) cache_okD(1) [OF assms(1)] by simp
  have c: "cached (es[i := e]) k j \<longleftrightarrow> (if j = i then k = q else cached es k j)" for k j
    using assms(7,8) by (auto simp: cached_update [OF len])
  have ni: "\<not> cached es k i" for k using assms(3) by (simp add: cached_def)
  show ok: "cache_ok n dsk (es[i := e])"
  proof (rule cache_okI)
    fix j k assume "cached (es[i := e]) k j" "\<not> dirty (es[i := e] ! j)"
    then show "buffer (es[i := e] ! j) = dsk k"
      using c assms(10) len cache_okD(3) [OF assms(1)] by (cases "j = i") auto
  next
    fix j j' k assume "cached (es[i := e]) k j" "cached (es[i := e]) k j'"
    then show "j = j'" using c assms(4) cache_okD(4) [OF assms(1)] by (auto split: if_splits)
  next
    fix j assume "j < BUFFER_CACHE_SIZE"
    then show "length (buffer (es[i := e] ! j)) = 512"
      using assms(6,10) len cache_okD(5) [OF assms(1)] by (cases "j = i") auto
  qed (use c assms(5) cache_okD [OF assms(1)] in \<open>auto split: if_splits\<close>)
  show "cache_view dsk (es[i := e]) k = cache_view dsk es k"
  proof (rule cache_view_eqI [OF assms(1) ok])
    fix j assume "cached es k j"
    then show "cached (es[i := e]) k j \<and> buffer (es[i := e] ! j) = buffer (es ! j) \<or>
          (\<forall>j. \<not> cached (es[i := e]) k j) \<and> buffer (es ! j) = dsk k"
      using c ni by (metis nth_list_update_neq)
  next
    assume "\<And>j. \<not> cached es k j"
    then show "(\<exists>j. cached (es[i := e]) k j \<and> buffer (es[i := e] ! j) = dsk k) \<or>
          (\<forall>j. \<not> cached (es[i := e]) k j) \<and> dsk k = dsk k"
      using c assms(10) len by (cases "k = q") (auto intro!: exI [of _ i])
  qed
  show "cached (es[i := e]) q i" using c by simp
qed

text \<open>Changing the data of a cached sector.\<close>

lemma store_entry:
  assumes "cache_ok n dsk es" "cached es q i" "length (buffer e) = 512" "dirty e \<or> buffer e = buffer (es ! i)"
    and "occupied e" "disk_sector e = q" "dirty (es ! i) \<longrightarrow> dirty e"
  shows "cache_ok n dsk (es[i := e])"
    "cache_view dsk (es[i := e]) k = (if k = q then buffer e else cache_view dsk es k)"
proof -
  have len: "i < length es" using assms(2) by (auto simp: cached_def)
  have c: "cached (es[i := e]) k j = cached es k j" for k j
    using assms(2,5,6) by (cases "j = i") (auto simp: cached_update [OF len] cached_def)
  show ok: "cache_ok n dsk (es[i := e])"
  proof (rule cache_okI)
    fix j k assume j: "cached (es[i := e]) k j" "\<not> dirty (es[i := e] ! j)"
    show "buffer (es[i := e] ! j) = dsk k"
    proof (cases "j = i")
      case True
      with j(1) c have "cached es k i" by simp
      with assms(2) have "k = q" by (simp add: cached_def)
      moreover have "\<not> dirty e" using j(2) len True by simp
      ultimately have "k = q" "\<not> dirty e" .
      with assms(2,4,7) len True cache_okD(3) [OF assms(1)] show ?thesis by auto
    next
      case False
      with j c cache_okD(3) [OF assms(1)] show ?thesis by auto
    qed
  next
    fix j assume "j < BUFFER_CACHE_SIZE"
    then show "length (buffer (es[i := e] ! j)) = 512"
      using assms(3) len cache_okD(5) [OF assms(1)] by (cases "j = i") auto
  qed (use c cache_okD [OF assms(1)] in auto)
  show "cache_view dsk (es[i := e]) k = (if k = q then buffer e else cache_view dsk es k)"
  proof (cases "k = q")
    case True
    with cache_view_hit [OF ok] c assms(2) len show ?thesis by simp
  next
    case False
    have "cache_view dsk (es[i := e]) k = cache_view dsk es k"
    proof (rule cache_view_eqI [OF assms(1) ok])
      fix j assume "cached es k j"
      then show "cached (es[i := e]) k j \<and> buffer (es[i := e] ! j) = buffer (es ! j) \<or>
            (\<forall>j. \<not> cached (es[i := e]) k j) \<and> buffer (es ! j) = dsk k"
        using c False assms(2) by (metis cached_def nth_list_update_neq)
    qed (use c in simp)
    with False show ?thesis by simp
  qed
qed

section \<open>The operations meet the sector contract\<close>

lemma cstate_more_eqD:
  assumes "dev.more s' = dev.more s"
  shows "fs_device s' = fs_device s" "cache s' = cache s" "clock s' = clock s" "cstate.more s' = cstate.more s"
  using assms by (cases s; cases s'; simp)+

lemma upd_entry_sel [simp]:
  "cache (upd_entry i f s) = (cache s)[i := f (cache s ! i)]" "fs_device (upd_entry i f s) = fs_device s"
  "clock (upd_entry i f s) = clock s" "cstate.more (upd_entry i f s) = cstate.more s"
  "dev_ok n b (upd_entry i f s) = dev_ok n b s" "dev_sector b (upd_entry i f s) = dev_sector b s"
  by (simp_all add: upd_entry_def dev_ok_def dev_sector_def fun_eq_iff cong: option.case_cong)

lemma assertion_sel [simp]:
  fixes s :: "'a cstate_scheme"
  shows "cache (assertion fn c s) = cache s" "fs_device (assertion fn c s) = fs_device s"
  "clock (assertion fn c s) = clock s" "cstate.more (assertion fn c s) = cstate.more s"
  "dev_ok n b (assertion fn c s) = dev_ok n b s" "dev_sector b (assertion fn c s) = dev_sector b s"
  by (simp_all add: assertion_def dev_ok_def dev_sector_def fun_eq_iff cong: option.case_cong)

text \<open>What an operation of the cache keeps: the invariant, the device it works on, the content of every
  sector, and the state of the layers above.\<close>

definition cache_keeps :: "nat \<Rightarrow> 'a cstate_scheme \<Rightarrow> 'a cstate_scheme \<Rightarrow> bool" where
  "cache_keeps n s s' \<longleftrightarrow> cache_inv n s' \<and> fs_device s' = fs_device s \<and> cstate.more s' = cstate.more s \<and>
     (\<forall>k. valid_sector n k \<longrightarrow> cache_content s' k = cache_content s k)"

lemma cache_keeps_trans: "cache_keeps n s t \<Longrightarrow> cache_keeps n t u \<Longrightarrow> cache_keeps n s u"
  by (simp add: cache_keeps_def)

lemma cache_keeps_refl: "cache_inv n s \<Longrightarrow> cache_keeps n s s"
  by (simp add: cache_keeps_def)

lemma cache_invD:
  assumes "cache_inv n s"
  shows "dev_ok n (fs_device s) s" "clock s < BUFFER_CACHE_SIZE"
    "cache_ok n (dev_sector (fs_device s) s) (cache s)" "length (cache s) = BUFFER_CACHE_SIZE"
  using assms by (auto simp: cache_inv_def cache_ok_def)

lemma flush_keeps:
  assumes "cache_inv n s" "cached (cache s) q i"
  shows "\<exists>s'. buffer_cache_flush i s = Some s' \<and> cache_keeps n s s' \<and> clock s' = clock s \<and>
     cache s' = (cache s)[i := (cache s ! i)\<lparr>dirty := False\<rparr>] \<and>
     (valid_sector n k \<longrightarrow> dev_sector (fs_device s') s' k =
        (if dirty (cache s ! i) \<and> k = q then buffer (cache s ! i) else dev_sector (fs_device s) s k))"
proof (cases "dirty (cache s ! i)")
  case False
  have "(cache s)[i := (cache s ! i)\<lparr>dirty := False\<rparr>] = cache s"
    using False by (cases "cache s ! i") (simp add: list_update_same_conv list_update_beyond, metis list_update_id)
  with False assms show ?thesis
    by (simp add: buffer_cache_flush_def cache_keeps_def cache_inv_def cache_content_def Let_def)
next
  case True
  note inv = cache_invD [OF assms(1)]
  let ?s = "assertion ''buffer_cache_flush'' (occupied (cache s ! i)) s"
  from assms(2) have q: "disk_sector (cache s ! i) = q" "i < BUFFER_CACHE_SIZE" and v: "valid_sector n q"
    using cache_okD [OF inv(3)] by (auto simp: cached_def)
  have "dev_ok n (fs_device s) ?s" using inv(1) by simp
  from block_write_content [OF this v cache_okD(5) [OF inv(3) q(2)]] obtain t where
    t: "block_write (fs_device s) q (buffer (cache s ! i)) ?s = Some t" "dev_ok n (fs_device s) t"
      "dev.more t = dev.more ?s"
      "\<And>j. valid_sector n j \<Longrightarrow> dev_sector (fs_device s) t j =
        (if j = q then buffer (cache s ! i) else dev_sector (fs_device s) ?s j)" by blast
  note m = cstate_more_eqD [OF t(3), simplified]
  note wb = write_back [OF inv(3) assms(2), of "dev_sector (fs_device s) t"]
  let ?s' = "upd_entry i (dirty_update (\<lambda>_. False)) t"
  have "cache_keeps n s ?s'"
    unfolding cache_keeps_def cache_inv_def cache_content_def
    using t(2,4) m inv(2) wb by simp
  with True t q m show ?thesis by (simp add: buffer_cache_flush_def Let_def)
qed

lemma cache_entries_keeps:
  assumes "cache_inv n s" "fs_device s' = fs_device s" "cstate.more s' = cstate.more s" "clock s' < BUFFER_CACHE_SIZE"
    and "dev_ok n (fs_device s) s' = dev_ok n (fs_device s) s"
    and "dev_sector (fs_device s) s' = dev_sector (fs_device s) s"
    and "cache_ok n (dev_sector (fs_device s) s) (cache s')"
    and "\<And>k. cache_view (dev_sector (fs_device s) s) (cache s') k = cache_view (dev_sector (fs_device s) s) (cache s) k"
  shows "cache_keeps n s s'"
  using assms by (simp add: cache_keeps_def cache_inv_def cache_content_def)

lemma dev_upd_cache [simp]:
  "dev_ok n b (s\<lparr>cache := es, clock := c\<rparr>) = dev_ok n b s"
  "dev_sector b (s\<lparr>cache := es, clock := c\<rparr>) = dev_sector b s"
  by (simp_all add: dev_ok_def dev_sector_def fun_eq_iff cong: option.case_cong)

lemma evict_keeps:
  assumes "cache_inv n s"
  shows "\<exists>i s'. buffer_cache_evict s = Some (i, s') \<and> cache_keeps n s s' \<and> i < BUFFER_CACHE_SIZE \<and>
     \<not> occupied (cache s' ! i) \<and> (\<forall>q j. cached (cache s') q j \<longrightarrow> cached (cache s) q j)"
proof -
  note inv = cache_invD [OF assms]
  from clock_sweep_same [OF inv(4,2)] obtain c full es where
    cs: "clock_sweep (cache s) (clock s) = Some (c, full, es)" "c < BUFFER_CACHE_SIZE"
      "same_entries (cache s) es" "occupied (es ! c) = full" by blast
  let ?s1 = "s\<lparr>cache := es, clock := c\<rparr>"
  have k1: "cache_keeps n s ?s1"
    using cs inv same_entries_ok [OF cs(3) inv(3)] by (intro cache_entries_keeps [OF assms]) auto
  have c1: "cached es q j = cached (cache s) q j" for q j by (rule same_entries_cached [OF cs(3)])
  have len: "c < length es" using cs(2) same_entries_length [OF cs(3)] inv(4) by simp
  show ?thesis
  proof (cases full)
    case False
    with cs k1 c1 show ?thesis by (simp add: buffer_cache_evict_def)
  next
    case True
    then have cc: "cached (cache ?s1) (disk_sector (es ! c)) c" using cs len by (simp add: cached_def)
    have i1: "cache_inv n ?s1" using k1 by (simp add: cache_keeps_def)
    from flush_keeps [OF i1 cc] obtain s2 where
      s2: "buffer_cache_flush c ?s1 = Some s2" "cache_keeps n ?s1 s2"
        "cache s2 = es[c := (es ! c)\<lparr>dirty := False\<rparr>]" by auto
    let ?t = "if dirty (es ! c) then s2 else ?s1"
    have t: "cache_keeps n ?s1 ?t" "\<not> dirty (cache ?t ! c)" "cached (cache ?t) q j = cached es q j" for q j
      using s2 cache_keeps_refl [OF i1] len by (auto simp: cached_def nth_list_update)
    let ?t' = "upd_entry c (occupied_update (\<lambda>_. False)) ?t"
    have it: "cache_inv n ?t" using t(1) by (simp add: cache_keeps_def)
    note invt = cache_invD [OF it]
    have "cache_keeps n ?t ?t'"
      using invt drop_clean [OF invt(3) cs(2) t(2)] by (intro cache_entries_keeps [OF it]) (simp_all only: upd_entry_sel)
    then have "cache_keeps n s ?t'" using k1 t(1) cache_keeps_trans by blast
    moreover have "buffer_cache_evict s = Some (c, ?t')"
      using True cs(1) s2(1) by (simp add: buffer_cache_evict_def)
    moreover have "c < length (cache ?t)" using invt(4) cs(2) by simp
    then have "\<not> occupied (cache ?t' ! c)" "cached (cache ?t') q j \<Longrightarrow> cached (cache s) q j" for q j
      using t(3) c1 by (auto simp: cached_update split: if_splits)
    ultimately show ?thesis using cs(2) by blast
  qed
qed

lemma slot_keeps:
  assumes "cache_inv n s" "valid_sector n q"
  shows "\<exists>i s'. buffer_cache_slot fn q s = Some (i, s') \<and> cache_keeps n s s' \<and> cached (cache s') q i"
  using cache_invD(3) [OF assms(1)]
proof (cases rule: lookup_cases [where k = q])
  case (hit i)
  with cache_keeps_refl [OF assms(1)] show ?thesis by (auto simp: buffer_cache_slot_def)
next
  case miss
  from evict_keeps [OF assms(1)] obtain i s1 where
    s1: "buffer_cache_evict s = Some (i, s1)" "cache_keeps n s s1" "i < BUFFER_CACHE_SIZE"
      "\<not> occupied (cache s1 ! i)" "\<And>q j. cached (cache s1) q j \<Longrightarrow> cached (cache s) q j" by blast
  have i1: "cache_inv n s1" using s1(2) by (simp add: cache_keeps_def)
  note inv = cache_invD [OF i1]
  define s3 where "s3 = upd_entry i (\<lambda>e. e\<lparr>occupied := True, disk_sector := q, dirty := False\<rparr>)
                          (assertion fn (\<not> occupied (cache s1 ! i)) s1)"
  have s3: "fs_device s3 = fs_device s1"
    "cache s3 = (cache s1)[i := (cache s1 ! i)\<lparr>occupied := True, disk_sector := q, dirty := False\<rparr>]"
    by (simp_all add: s3_def)
  have len: "i < length (cache s1)" using inv(4) s1(3) by simp
  have d3: "dev_ok n (fs_device s3) s3" "dev_sector (fs_device s3) s3 = dev_sector (fs_device s1) s1"
    "length (buffer (cache s3 ! i)) = 512"
    using inv(1) len cache_okD(5) [OF inv(3) s1(3)] by (simp_all add: s3_def)
  from block_read_content [OF d3(1) assms(2) d3(3)] obtain s4 where
    s4: "block_read (fs_device s3) q (buffer (cache s3 ! i)) s3 = Some (dev_sector (fs_device s1) s1 q, s4)"
      "only_bookkeeping s3 s4" using d3(2) by auto
  note m = cstate_more_eqD [OF only_bookkeepingD(4) [OF s4(2)]]
  have d4: "dev_ok n (fs_device s1) s4 = dev_ok n (fs_device s1) s1"
    "dev_sector (fs_device s1) s4 = dev_sector (fs_device s1) s1"
    using only_bookkeeping_content [OF s4(2)] by (simp_all add: s3_def fun_eq_iff)
  let ?s5 = "upd_entry i (buffer_update (\<lambda>_. dev_sector (fs_device s1) s1 q)) s4"
  let ?e = "(cache s1 ! i)\<lparr>occupied := True, disk_sector := q, dirty := False, buffer := dev_sector (fs_device s1) s1 q\<rparr>"
  have c5: "cache ?s5 = (cache s1)[i := ?e]" using m(2) len by (simp add: s3_def)
  note le = load_entry [OF inv(3) s1(3,4) _ assms(2) length_dev_sector [OF inv(1) assms(2)], of ?e]
  have "cache_keeps n s1 ?s5"
    using le c5 m inv(2) d4 miss(2) s1(5) by (intro cache_entries_keeps [OF i1]) (auto simp: s3_def)
  then have "cache_keeps n s ?s5" using s1(2) cache_keeps_trans by blast
  moreover have "cached (cache ?s5) q i" using le(3) c5 miss(2) s1(5) by auto
  moreover have "buffer_cache_slot fn q s = Some (i, ?s5)"
    using miss(1) s1(1) s4(1) s3 by (simp add: buffer_cache_slot_def Let_def flip: s3_def)
  ultimately show ?thesis by blast
qed

lemma read_keeps:
  assumes "cache_inv n s" "valid_sector n q"
  shows "\<exists>s'. buffer_cache_read q s = Some (cache_content s q, s') \<and> cache_keeps n s s'"
proof -
  from slot_keeps [OF assms] obtain i s1 where
    s1: "buffer_cache_slot ''buffer_cache_read'' q s = Some (i, s1)" "cache_keeps n s s1" "cached (cache s1) q i" by blast
  have i1: "cache_inv n s1" using s1(2) by (simp add: cache_keeps_def)
  note inv = cache_invD [OF i1]
  let ?s2 = "upd_entry i (accessed_update (\<lambda>_. True)) s1"
  let ?e = "(cache s1 ! i)\<lparr>accessed := True\<rparr>"
  have len: "i < length (cache s1)" "occupied (cache s1 ! i)" "disk_sector (cache s1 ! i) = q"
    using s1(3) by (auto simp: cached_def)
  have l5: "length (buffer (cache s1 ! i)) = 512" using cache_okD(5) [OF inv(3)] len(1) inv(4) by simp
  note se = store_entry [OF inv(3) s1(3), of ?e, simplified, OF l5 len(2,3)]
  have hit: "cache_view (dev_sector (fs_device s1) s1) (cache s1) q = buffer (cache s1 ! i)"
    by (rule cache_view_hit [OF inv(3) s1(3)])
  have "cache_keeps n s1 ?s2"
    using se inv(2) hit by (intro cache_entries_keeps [OF i1]) auto
  moreover have "buffer (cache s1 ! i) = cache_content s q"
    using s1(2) assms(2) unfolding cache_keeps_def cache_content_def hit [symmetric] by blast
  ultimately show ?thesis using s1 len(1) cache_keeps_trans by (auto simp: buffer_cache_read_def)
qed

lemma write_stores:
  assumes "cache_inv n s" "valid_sector n q" "length d = 512"
  shows "\<exists>s'. buffer_cache_write q d s = Some s' \<and> cache_inv n s' \<and> fs_device s' = fs_device s \<and>
     cstate.more s' = cstate.more s \<and>
     (\<forall>k. valid_sector n k \<longrightarrow> cache_content s' k = (if k = q then d else cache_content s k))"
proof -
  from slot_keeps [OF assms(1,2)] obtain i s1 where
    s1: "buffer_cache_slot ''buffer_cache_write'' q s = Some (i, s1)" "cache_keeps n s s1" "cached (cache s1) q i" by blast
  have i1: "cache_inv n s1" using s1(2) by (simp add: cache_keeps_def)
  note inv = cache_invD [OF i1]
  let ?s2 = "upd_entry i (\<lambda>e. e\<lparr>accessed := True, dirty := True, buffer := take 512 d\<rparr>) s1"
  let ?e = "(cache s1 ! i)\<lparr>accessed := True, dirty := True, buffer := take 512 d\<rparr>"
  have len: "occupied (cache s1 ! i)" "disk_sector (cache s1 ! i) = q"
    using s1(3) by (auto simp: cached_def)
  have "length (buffer ?e) = 512" using assms(3) by simp
  note se = store_entry [OF inv(3) s1(3) this]
  have "cache_inv n ?s2" "\<forall>k. cache_content ?s2 k = (if k = q then d else cache_content s1 k)"
    using inv len se assms(3) by (simp_all add: cache_inv_def cache_content_def)
  with s1(1,2) show ?thesis by (auto simp: buffer_cache_write_def cache_keeps_def)
qed

interpretation bc: sector_store "cache_inv n" "valid_sector n" cache_content buffer_cache_read buffer_cache_write
  for n
proof unfold_locales
  fix s k assume inv: "cache_inv n s" "valid_sector n k"
  show "\<exists>s'. buffer_cache_read k s = Some (cache_content s k, s') \<and> cache_inv n s' \<and>
          (\<forall>j. valid_sector n j \<longrightarrow> cache_content s' j = cache_content s j)"
    using read_keeps [OF inv] by (auto simp: cache_keeps_def)
  note ok = cache_invD(3) [OF inv(1)]
  show "length (cache_content s k) = 512"
  proof (cases "\<exists>i. cached (cache s) k i")
    case True
    then obtain i where "cached (cache s) k i" ..
    with cache_okD(1,5) [OF ok] show ?thesis
      by (auto simp: cache_content_def cache_view_hit [OF ok] cached_def)
  next
    case False
    with length_dev_sector [OF cache_invD(1) [OF inv(1)] inv(2)] show ?thesis
      by (simp add: cache_content_def cache_view_miss [OF cache_okD(1) [OF ok]])
  qed
next
  fix s k d assume "cache_inv n s" "valid_sector n k" "length (d :: sector_data) = 512"
  from write_stores [OF this] show "\<exists>s'. buffer_cache_write k d s = Some s' \<and> cache_inv n s' \<and>
        (\<forall>j. valid_sector n j \<longrightarrow> cache_content s' j = (if j = k then d else cache_content s j))" by blast
qed

section \<open>Closing the cache\<close>

definition clean :: "buffer_cache_entry_t list \<Rightarrow> nat \<Rightarrow> bool" where
  "clean es i \<longleftrightarrow> (occupied (es ! i) \<longrightarrow> \<not> dirty (es ! i))"

lemma close_loop_keeps:
  "cache_inv n s \<Longrightarrow> set is \<subseteq> {..<BUFFER_CACHE_SIZE} \<Longrightarrow>
   \<exists>s'. buffer_cache_close_loop is s = Some s' \<and> cache_keeps n s s' \<and>
        (\<forall>i<BUFFER_CACHE_SIZE. i \<in> set is \<or> clean (cache s) i \<longrightarrow> clean (cache s') i)"
proof (induction "is" arbitrary: s)
  case (Cons i "is")
  have len: "i < length (cache s)" using Cons.prems(2) cache_invD(4) [OF Cons.prems(1)] by simp
  show ?case
  proof (cases "occupied (cache s ! i)")
    case False
    with Cons.IH [OF Cons.prems(1)] Cons.prems(2) show ?thesis by (auto simp: clean_def)
  next
    case True
    then have "cached (cache s) (disk_sector (cache s ! i)) i" using len by (simp add: cached_def)
    from flush_keeps [OF Cons.prems(1) this] obtain s1 where
      s1: "buffer_cache_flush i s = Some s1" "cache_keeps n s s1"
        "cache s1 = (cache s)[i := (cache s ! i)\<lparr>dirty := False\<rparr>]" by blast
    have "cache_inv n s1" using s1(2) by (simp add: cache_keeps_def)
    from Cons.IH [OF this] Cons.prems(2) obtain s' where
      s': "buffer_cache_close_loop is s1 = Some s'" "cache_keeps n s1 s'"
        "\<And>j. j < BUFFER_CACHE_SIZE \<Longrightarrow> j \<in> set is \<or> clean (cache s1) j \<Longrightarrow> clean (cache s') j" by auto
    have "clean (cache s1) j" if "j = i \<or> clean (cache s) j" for j
      using that s1(3) len by (cases "j = i") (auto simp: clean_def)
    with s' s1 True cache_keeps_trans show ?thesis by (fastforce)
  qed
qed (use cache_keeps_refl in auto)

section \<open>Properties\<close>

text \<open>
  C10. The buffer cache is transparent: data written with \<^verbatim>\<open>buffer_cache_write\<close> is what
  \<^verbatim>\<open>buffer_cache_read\<close> returns for that sector, and every other sector reads as before, whatever is
  cached, evicted or written back on the way.
\<close>

theorem cache_write_then_read:
  assumes "cache_inv n s" "unat k < n" "unat j < n" "length d = 512"
  shows "\<exists>s'. do { s1 \<leftarrow> buffer_cache_write k d s; buffer_cache_read j s1 } =
              Some (if j = k then d else cache_content s j, s') \<and> cache_inv n s'"
  using bc.read_after_write [of n s k j d] assms by (simp add: valid_sector_def)

text \<open>A state of the cache just after \<^verbatim>\<open>buffer_cache_init\<close> on the two-sector disk.\<close>

definition entry0 :: buffer_cache_entry_t where
  "entry0 = \<lparr>occupied = False, disk_sector = 0, buffer = replicate 512 0, dirty = False, accessed = False\<rparr>"

definition cache2 :: cstate where
  "cache2 = buffer_cache_init (dev.extend disk2 \<lparr>fs_device = 0, cache = replicate 64 entry0, clock = 0\<rparr>)"

lemma cache2_inv: "cache_inv 2 cache2"
proof -
  have "dev_ok 2 0 cache2"
    by (simp add: dev_ok_def disk2_def cache2_def buffer_cache_init_def dev.defs dev_base.simps)
  moreover have "cache cache2 = replicate 64 entry0" "fs_device cache2 = 0" "clock cache2 = 0"
    by (simp_all add: cache2_def buffer_cache_init_def dev.defs entry0_def)
  moreover have "cache_ok 2 dsk (replicate 64 entry0)" for dsk
    by (auto simp: cache_ok_def cached_def BUFFER_CACHE_SIZE_def entry0_def)
  ultimately show ?thesis by (simp add: cache_inv_def BUFFER_CACHE_SIZE_def)
qed

theorem cache_write_then_read_witness:
  "\<exists>s'. do { s1 \<leftarrow> buffer_cache_write 1 (replicate 512 7) cache2; buffer_cache_read 1 s1 } =
        Some (replicate 512 7, s') \<and> cache_inv 2 s'"
  using cache_write_then_read [OF cache2_inv, of 1 1 "replicate 512 7"] by simp

text \<open>
  C11. \<^verbatim>\<open>buffer_cache_close\<close> leaves no dirty entry behind, and every sector on the device then holds what a
  read through the cache would have returned before.
\<close>

theorem cache_close_writes_back:
  assumes "cache_inv n s"
  shows "\<exists>s'. buffer_cache_close s = Some s' \<and> cache_inv n s' \<and>
    (\<forall>i<BUFFER_CACHE_SIZE. occupied (cache s' ! i) \<longrightarrow> \<not> dirty (cache s' ! i)) \<and>
    (\<forall>k. unat k < n \<longrightarrow> dev_sector (fs_device s') s' k = cache_content s k)"
proof -
  from close_loop_keeps [OF assms, of "[0..<BUFFER_CACHE_SIZE]"] obtain s' where
    s': "buffer_cache_close s = Some s'" "cache_keeps n s s'"
      "\<And>i. i < BUFFER_CACHE_SIZE \<Longrightarrow> clean (cache s') i"
    by (auto simp: buffer_cache_close_def lessThan_atLeast0)
  have i': "cache_inv n s'" using s'(2) by (simp add: cache_keeps_def)
  note inv = cache_invD [OF i']
  have view: "cache_view (dev_sector (fs_device s') s') (cache s') k = dev_sector (fs_device s') s' k" for k
  proof (cases "\<exists>i. cached (cache s') k i")
    case True
    then obtain i where i: "cached (cache s') k i" ..
    then have "\<not> dirty (cache s' ! i)" using s'(3) [of i] inv(4) by (simp add: cached_def clean_def)
    with i show ?thesis by (simp add: cache_view_hit [OF inv(3)] cache_okD(3) [OF inv(3)])
  next
    case False
    then show ?thesis by (simp add: cache_view_miss [OF inv(4)])
  qed
  have "dev_sector (fs_device s') s' k = cache_content s k" if "unat k < n" for k
    using s'(2) that view [of k] unfolding cache_keeps_def valid_sector_def cache_content_def by metis
  with s' i' show ?thesis by (auto simp: clean_def)
qed

theorem cache_close_writes_back_witness:
  "\<exists>s1 s2. buffer_cache_write 1 (replicate 512 7) cache2 = Some s1 \<and> buffer_cache_close s1 = Some s2 \<and>
     cache_inv 2 s2 \<and> dev_sector (fs_device s2) s2 1 = replicate 512 7"
proof -
  have "valid_sector 2 1" by (simp add: valid_sector_def)
  with bc.wr_law [OF cache2_inv this, of "replicate 512 7"] obtain s1 where
    s1: "buffer_cache_write 1 (replicate 512 7) cache2 = Some s1" "cache_inv 2 s1"
      "cache_content s1 1 = replicate 512 7" by auto
  from cache_close_writes_back [OF s1(2)] s1(1,3) show ?thesis by fastforce
qed

section \<open>The clock algorithm\<close>

text \<open>The entries after the hand, at \<open>c\<close>, has passed \<open>d\<close> of them.\<close>

definition passed :: "nat \<Rightarrow> nat \<Rightarrow> buffer_cache_entry_t list \<Rightarrow> buffer_cache_entry_t list" where
  "passed c d es =
     map (\<lambda>i. if (i + BUFFER_CACHE_SIZE - c) mod BUFFER_CACHE_SIZE < d
              then (es ! i)\<lparr>accessed := False\<rparr> else es ! i) [0..<length es]"

lemma clock_distance:
  assumes "c < N" "d < N" "i < (N :: nat)"
  shows "(i + N - c) mod N = d \<longleftrightarrow> i = (c + d) mod N"
proof -
  have "(i + N - c) mod N = (if c \<le> i then i - c else i + N - c)"
    using assms by (auto simp: mod_if)
  moreover have "(c + d) mod N = (if c + d < N then c + d else c + d - N)"
    using assms by (auto simp: mod_if)
  ultimately show ?thesis using assms by (auto split: if_splits)
qed

lemma passed_Suc:
  assumes "c < BUFFER_CACHE_SIZE" "d < BUFFER_CACHE_SIZE" "length es = BUFFER_CACHE_SIZE"
  defines "x \<equiv> (c + d) mod BUFFER_CACHE_SIZE"
  shows "passed c d es ! x = es ! x" "(passed c d es)[x := (es ! x)\<lparr>accessed := False\<rparr>] = passed c (Suc d) es"
proof -
  have x: "x < BUFFER_CACHE_SIZE" by (simp add: x_def BUFFER_CACHE_SIZE_def)
  then have dx: "(x + BUFFER_CACHE_SIZE - c) mod BUFFER_CACHE_SIZE = d"
    using clock_distance [OF assms(1,2)] by (simp add: x_def)
  then show "passed c d es ! x = es ! x" using x assms(3) by (simp add: passed_def)
  have other: "(i + BUFFER_CACHE_SIZE - c) mod BUFFER_CACHE_SIZE \<noteq> d"
    if "i < BUFFER_CACHE_SIZE" "i \<noteq> x" for i
    using clock_distance [OF assms(1,2) that(1)] that(2) by (simp add: x_def)
  show "(passed c d es)[x := (es ! x)\<lparr>accessed := False\<rparr>] = passed c (Suc d) es"
  proof (rule nth_equalityI)
    fix i assume "i < length ((passed c d es)[x := (es ! x)\<lparr>accessed := False\<rparr>])"
    then have "i < BUFFER_CACHE_SIZE" using assms(3) by (simp add: passed_def)
    then show "(passed c d es)[x := (es ! x)\<lparr>accessed := False\<rparr>] ! i = passed c (Suc d) es ! i"
      using dx other [of i] assms(3) by (cases "i = x") (auto simp: passed_def less_Suc_eq)
  qed (simp add: passed_def)
qed

lemma clock_sweep_passes:
  assumes "c < BUFFER_CACHE_SIZE" "length es = BUFFER_CACHE_SIZE"
  shows "d \<le> BUFFER_CACHE_SIZE \<Longrightarrow>
    (\<And>j. j < d \<Longrightarrow> occupied (es ! ((c + j) mod BUFFER_CACHE_SIZE)) \<and> accessed (es ! ((c + j) mod BUFFER_CACHE_SIZE))) \<Longrightarrow>
    clock_sweep es c = clock_sweep (passed c d es) ((c + d) mod BUFFER_CACHE_SIZE)"
proof (induction d)
  case 0
  have "passed c 0 es = es" by (rule nth_equalityI) (simp_all add: passed_def)
  with assms(1) show ?case by simp
next
  case (Suc d)
  let ?x = "(c + d) mod BUFFER_CACHE_SIZE"
  from Suc.prems(1) have d: "d < BUFFER_CACHE_SIZE" by simp
  have x: "?x < length (passed c d es)" using assms(2) by (simp add: passed_def BUFFER_CACHE_SIZE_def)
  from Suc have "clock_sweep es c = clock_sweep (passed c d es) ?x" by simp
  also have "\<dots> = clock_sweep (passed c (Suc d) es) ((?x + 1) mod BUFFER_CACHE_SIZE)"
    using x Suc.prems(2) [of d] passed_Suc [OF assms(1) d assms(2)]
    by (subst clock_sweep.simps) simp
  also have "(?x + 1) mod BUFFER_CACHE_SIZE = (c + Suc d) mod BUFFER_CACHE_SIZE"
    by (simp add: mod_Suc_eq)
  finally show ?case .
qed

text \<open>
  C30. The clock algorithm gives every recently used entry a second chance: the entry
  \<^verbatim>\<open>buffer_cache_evict\<close> chooses is the first one, going round from the hand, that is free or whose
  access bit is clear, and the hand itself when every entry is in use and was accessed; exactly the
  access bits of the entries passed over are cleared.
\<close>

theorem clock_second_chance:
  assumes "length es = BUFFER_CACHE_SIZE" "c < BUFFER_CACHE_SIZE"
  shows "\<exists>d \<le> BUFFER_CACHE_SIZE. \<exists>v. v = (c + d) mod BUFFER_CACHE_SIZE \<and>
    clock_sweep es c = Some (v, occupied (es ! v), passed c d es) \<and>
    (\<forall>j<d. occupied (es ! ((c + j) mod BUFFER_CACHE_SIZE)) \<and> accessed (es ! ((c + j) mod BUFFER_CACHE_SIZE))) \<and>
    (d < BUFFER_CACHE_SIZE \<longrightarrow> \<not> (occupied (es ! v) \<and> accessed (es ! v)))"
proof -
  let ?used = "\<lambda>j. occupied (es ! ((c + j) mod BUFFER_CACHE_SIZE)) \<and> accessed (es ! ((c + j) mod BUFFER_CACHE_SIZE))"
  let ?stop = "first_from (\<lambda>j. \<not> ?used j) 0 BUFFER_CACHE_SIZE"
  show ?thesis
  proof (cases ?stop)
    case None
    then have all: "?used j" if "j < BUFFER_CACHE_SIZE" for j using that by (simp add: first_from_None_iff)
    have "clock_sweep es c = clock_sweep (passed c BUFFER_CACHE_SIZE es) c"
      using clock_sweep_passes [OF assms(2,1) order_refl] all assms(2) by simp
    also have "\<dots> = Some (c, occupied (es ! c), passed c BUFFER_CACHE_SIZE es)"
      using all [of 0] assms by (subst clock_sweep.simps) (simp add: passed_def)
    finally have "clock_sweep es c = Some (c, occupied (es ! c), passed c BUFFER_CACHE_SIZE es)" .
    with all assms(2) show ?thesis by (intro exI [of _ BUFFER_CACHE_SIZE]) auto
  next
    case (Some d)
    from first_from_SomeD [OF this] have d: "d < BUFFER_CACHE_SIZE" "\<not> ?used d" "\<And>j. j < d \<Longrightarrow> ?used j" by auto
    let ?v = "(c + d) mod BUFFER_CACHE_SIZE"
    have v: "?v < length (passed c d es)" using assms(1) by (simp add: passed_def BUFFER_CACHE_SIZE_def)
    have "clock_sweep es c = clock_sweep (passed c d es) ?v"
      using clock_sweep_passes [OF assms(2,1) less_imp_le [OF d(1)]] d(3) by simp
    also have "\<dots> = Some (?v, occupied (es ! ?v), passed c d es)"
      using d(2) v passed_Suc(1) [OF assms(2) d(1) assms(1)] by (subst clock_sweep.simps) auto
    finally have "clock_sweep es c = Some (?v, occupied (es ! ?v), passed c d es)" .
    with d show ?thesis by (intro exI [of _ d]) auto
  qed
qed

theorem clock_second_chance_witness:
  "\<exists>d \<le> BUFFER_CACHE_SIZE. clock_sweep (replicate 64 (entry0\<lparr>occupied := True, accessed := True\<rparr>)) 5 =
     Some ((5 + d) mod BUFFER_CACHE_SIZE, True,
           passed 5 d (replicate 64 (entry0\<lparr>occupied := True, accessed := True\<rparr>)))"
proof -
  let ?es = "replicate 64 (entry0\<lparr>occupied := True, accessed := True\<rparr>)"
  have "length ?es = BUFFER_CACHE_SIZE" "5 < BUFFER_CACHE_SIZE" by (simp_all add: BUFFER_CACHE_SIZE_def)
  from clock_second_chance [OF this] obtain d where
    d: "d \<le> BUFFER_CACHE_SIZE" "clock_sweep ?es 5 =
      Some ((5 + d) mod BUFFER_CACHE_SIZE, occupied (?es ! ((5 + d) mod BUFFER_CACHE_SIZE)), passed 5 d ?es)" by blast
  moreover have "(5 + d) mod BUFFER_CACHE_SIZE < 64" by (simp add: BUFFER_CACHE_SIZE_def)
  ultimately show ?thesis by auto
qed

end
