(* ===== verification/Bitmap.thy ===== *)
theory Bitmap
  imports Prelude
begin

text \<open>
  The bitmap of \<^verbatim>\<open>a3/fs/bitmap.c\<close> (with the rounding macros of \<^verbatim>\<open>a3/fs/round.h\<close>): an array of
  64-bit words that represents an array of bits. Every operation takes the console, because the
  assertions of the source print and go on; an access outside the word array is \<^term>\<open>None\<close>.
  The second half relates the words to the abstract bit vector \<open>bm_bit\<close>, states the contract
  \<open>bit_vector\<close> that users of a bitmap rely on as a locale, and proves that the code meets it.
  The two operations that go through a file, \<^verbatim>\<open>bitmap_read\<close> and \<^verbatim>\<open>bitmap_write\<close>, belong to the
  inode layer and are not in this theory.
\<close>

section \<open>Definitions\<close>

definition ROUND_UP :: "nat \<Rightarrow> nat \<Rightarrow> nat" where
  "ROUND_UP x step = (x + step - 1) mod 2 ^ 64 div step * step"

definition DIV_ROUND_UP :: "nat \<Rightarrow> nat \<Rightarrow> nat" where
  "DIV_ROUND_UP x step = (x + step - 1) mod 2 ^ 64 div step"

definition ROUND_DOWN :: "nat \<Rightarrow> nat \<Rightarrow> nat" where
  "ROUND_DOWN x step = x div step * step"

record bitmap =
  bit_cnt :: nat
  bits :: "u64 list"

definition ELEM_BITS :: nat where
  "ELEM_BITS = 64"

definition BITMAP_ERROR :: nat where
  "BITMAP_ERROR = 2 ^ 32 - 1"

definition elem_idx :: "nat \<Rightarrow> nat" where
  "elem_idx bit_idx = bit_idx div ELEM_BITS"

definition bit_mask :: "nat \<Rightarrow> u64" where
  "bit_mask bit_idx = push_bit (bit_idx mod ELEM_BITS) 1"

definition elem_cnt :: "nat \<Rightarrow> nat" where
  "elem_cnt n = DIV_ROUND_UP n ELEM_BITS"

definition byte_cnt :: "nat \<Rightarrow> nat" where
  "byte_cnt n = 8 * elem_cnt n"

definition last_mask :: "bitmap \<Rightarrow> u64" where
  "last_mask b = (let last_bits = bit_cnt b mod ELEM_BITS
                  in if last_bits \<noteq> 0 then push_bit last_bits 1 - 1 else - 1)"

definition bitmap_size :: "bitmap \<Rightarrow> nat" where
  "bitmap_size b = bit_cnt b"

definition bitmap_get_bits :: "bitmap \<Rightarrow> u64 list" where
  "bitmap_get_bits b = bits b"

subsection \<open>Setting and testing single bits\<close>

text \<open>\<open>update_elem f b i\<close> is the read-modify-write \<^verbatim>\<open>b->bits[i] op= m\<close>.\<close>

definition update_elem :: "(u64 \<Rightarrow> u64) \<Rightarrow> bitmap \<Rightarrow> nat \<Rightarrow> bitmap option" where
  "update_elem f b i =
     (if i < length (bits b) then Some (b\<lparr>bits := (bits b)[i := f (bits b ! i)]\<rparr>) else None)"

definition bitmap_mark :: "bitmap \<Rightarrow> nat \<Rightarrow> bitmap option" where
  "bitmap_mark b bit_idx = update_elem (\<lambda>w. w OR bit_mask bit_idx) b (elem_idx bit_idx)"

definition bitmap_reset :: "bitmap \<Rightarrow> nat \<Rightarrow> bitmap option" where
  "bitmap_reset b bit_idx = update_elem (\<lambda>w. w AND NOT (bit_mask bit_idx)) b (elem_idx bit_idx)"

definition bitmap_flip :: "bitmap \<Rightarrow> nat \<Rightarrow> bitmap option" where
  "bitmap_flip b bit_idx = update_elem (\<lambda>w. w XOR bit_mask bit_idx) b (elem_idx bit_idx)"

definition bitmap_set :: "bitmap \<Rightarrow> nat \<Rightarrow> bool \<Rightarrow> console \<Rightarrow> (bitmap \<times> console) option" where
  "bitmap_set b idx value con =
     (let con = c_assert ''bitmap_set'' (idx < bit_cnt b) con
      in do { b' \<leftarrow> (if value then bitmap_mark b idx else bitmap_reset b idx); Some (b', con) })"

definition bitmap_test :: "bitmap \<Rightarrow> nat \<Rightarrow> console \<Rightarrow> (bool \<times> console) option" where
  "bitmap_test b idx con =
     (let con = c_assert ''bitmap_test'' (idx < bit_cnt b) con
      in if elem_idx idx < length (bits b)
         then Some (bits b ! elem_idx idx AND bit_mask idx \<noteq> 0, con) else None)"

subsection \<open>Setting and testing multiple bits\<close>

fun bitmap_set_loop :: "bitmap \<Rightarrow> nat \<Rightarrow> bool \<Rightarrow> nat \<Rightarrow> nat \<Rightarrow> console \<Rightarrow> (bitmap \<times> console) option"
  where
  "bitmap_set_loop b start value i 0 con = Some (b, con)"
| "bitmap_set_loop b start value i (Suc n) con =
     do { (b', con') \<leftarrow> bitmap_set b (size_add start i) value con;
          bitmap_set_loop b' start value (Suc i) n con' }"

definition bitmap_set_multiple ::
    "bitmap \<Rightarrow> nat \<Rightarrow> nat \<Rightarrow> bool \<Rightarrow> console \<Rightarrow> (bitmap \<times> console) option" where
  "bitmap_set_multiple b start cnt value con =
     (let con = c_assert ''bitmap_set_multiple'' (start \<le> bit_cnt b) con;
          con = c_assert ''bitmap_set_multiple'' (size_add start cnt \<le> bit_cnt b) con
      in bitmap_set_loop b start value 0 cnt con)"

definition bitmap_set_all :: "bitmap \<Rightarrow> bool \<Rightarrow> console \<Rightarrow> (bitmap \<times> console) option" where
  "bitmap_set_all b value con = bitmap_set_multiple b 0 (bitmap_size b) value con"

fun bitmap_count_loop ::
    "bitmap \<Rightarrow> nat \<Rightarrow> bool \<Rightarrow> nat \<Rightarrow> nat \<Rightarrow> nat \<Rightarrow> console \<Rightarrow> (nat \<times> console) option" where
  "bitmap_count_loop b start value i 0 value_cnt con = Some (value_cnt, con)"
| "bitmap_count_loop b start value i (Suc n) value_cnt con =
     do { (t, con') \<leftarrow> bitmap_test b (size_add start i) con;
          bitmap_count_loop b start value (Suc i) n
            (if t = value then value_cnt + 1 else value_cnt) con' }"

definition bitmap_count ::
    "bitmap \<Rightarrow> nat \<Rightarrow> nat \<Rightarrow> bool \<Rightarrow> console \<Rightarrow> (nat \<times> console) option" where
  "bitmap_count b start cnt value con =
     (let con = c_assert ''bitmap_count'' (start \<le> bit_cnt b) con;
          con = c_assert ''bitmap_count'' (size_add start cnt \<le> bit_cnt b) con
      in bitmap_count_loop b start value 0 cnt 0 con)"

fun bitmap_contains_loop ::
    "bitmap \<Rightarrow> nat \<Rightarrow> bool \<Rightarrow> nat \<Rightarrow> nat \<Rightarrow> console \<Rightarrow> (bool \<times> console) option" where
  "bitmap_contains_loop b start value i 0 con = Some (False, con)"
| "bitmap_contains_loop b start value i (Suc n) con =
     do { (t, con') \<leftarrow> bitmap_test b (size_add start i) con;
          if t = value then Some (True, con')
          else bitmap_contains_loop b start value (Suc i) n con' }"

definition bitmap_contains ::
    "bitmap \<Rightarrow> nat \<Rightarrow> nat \<Rightarrow> bool \<Rightarrow> console \<Rightarrow> (bool \<times> console) option" where
  "bitmap_contains b start cnt value con =
     (let con = c_assert ''bitmap_contains'' (start \<le> bit_cnt b) con;
          con = c_assert ''bitmap_contains'' (size_add start cnt \<le> bit_cnt b) con
      in bitmap_contains_loop b start value 0 cnt con)"

definition bitmap_any :: "bitmap \<Rightarrow> nat \<Rightarrow> nat \<Rightarrow> console \<Rightarrow> (bool \<times> console) option" where
  "bitmap_any b start cnt con = bitmap_contains b start cnt True con"

definition bitmap_none :: "bitmap \<Rightarrow> nat \<Rightarrow> nat \<Rightarrow> console \<Rightarrow> (bool \<times> console) option" where
  "bitmap_none b start cnt con =
     do { (r, con') \<leftarrow> bitmap_contains b start cnt True con; Some (\<not> r, con') }"

definition bitmap_all :: "bitmap \<Rightarrow> nat \<Rightarrow> nat \<Rightarrow> console \<Rightarrow> (bool \<times> console) option" where
  "bitmap_all b start cnt con =
     do { (r, con') \<leftarrow> bitmap_contains b start cnt False con; Some (\<not> r, con') }"

subsection \<open>Finding set or unset bits\<close>

fun bitmap_scan_loop ::
    "bitmap \<Rightarrow> nat \<Rightarrow> bool \<Rightarrow> nat \<Rightarrow> nat \<Rightarrow> console \<Rightarrow> (nat \<times> console) option" where
  "bitmap_scan_loop b cnt value i 0 con = Some (BITMAP_ERROR, con)"
| "bitmap_scan_loop b cnt value i (Suc n) con =
     do { (r, con') \<leftarrow> bitmap_contains b i cnt (\<not> value) con;
          if \<not> r then Some (i, con') else bitmap_scan_loop b cnt value (Suc i) n con' }"

definition bitmap_scan ::
    "bitmap \<Rightarrow> nat \<Rightarrow> nat \<Rightarrow> bool \<Rightarrow> console \<Rightarrow> (nat \<times> console) option" where
  "bitmap_scan b start cnt value con =
     (let con = c_assert ''bitmap_scan'' (start \<le> bit_cnt b) con
      in if cnt \<le> bit_cnt b
         then let last = bit_cnt b - cnt
              in bitmap_scan_loop b cnt value start (Suc last - start) con
         else Some (BITMAP_ERROR, con))"

definition bitmap_scan_and_flip ::
    "bitmap \<Rightarrow> nat \<Rightarrow> nat \<Rightarrow> bool \<Rightarrow> console \<Rightarrow> (nat \<times> bitmap \<times> console) option" where
  "bitmap_scan_and_flip b start cnt value con =
     do { (idx, con') \<leftarrow> bitmap_scan b start cnt value con;
          if idx \<noteq> BITMAP_ERROR
          then do { (b', con'') \<leftarrow> bitmap_set_multiple b idx cnt (\<not> value) con'; Some (idx, b', con'') }
          else Some (idx, b, con') }"

subsection \<open>Creation and destruction\<close>

text \<open>
  \<open>mok n\<close> tells whether \<^verbatim>\<open>malloc\<close> of \<open>n\<close> bytes succeeds. A result \<open>Some (None, con)\<close> is the null
  pointer that the source returns on failure.
\<close>

definition bitmap_create ::
    "(nat \<Rightarrow> bool) \<Rightarrow> nat \<Rightarrow> console \<Rightarrow> (bitmap option \<times> console) option" where
  "bitmap_create mok n con =
     (if mok 16
      then if mok (byte_cnt n) \<or> n = 0
           then do { (b, con') \<leftarrow>
                       bitmap_set_all \<lparr>bit_cnt = n, bits = replicate (elem_cnt n) 0\<rparr> False con;
                     Some (Some b, con') }
           else Some (None, con)
      else Some (None, con))"

definition bitmap_buf_size :: "nat \<Rightarrow> nat" where
  "bitmap_buf_size n = 16 + byte_cnt n"

text \<open>\<open>buf\<close> is what the caller's storage holds, as words, after the bitmap header.\<close>

definition bitmap_create_in_buf ::
    "nat \<Rightarrow> u64 list \<Rightarrow> nat \<Rightarrow> console \<Rightarrow> (bitmap \<times> console) option" where
  "bitmap_create_in_buf n buf block_size con =
     (let con = c_assert ''bitmap_create_in_buf'' (block_size \<ge> bitmap_buf_size n) con
      in bitmap_set_all \<lparr>bit_cnt = n, bits = buf\<rparr> False con)"

fun words_of_bytes :: "nat \<Rightarrow> byte list \<Rightarrow> u64 list" where
  "words_of_bytes 0 bs = []"
| "words_of_bytes (Suc n) bs = from_le (take 8 bs) # words_of_bytes n (drop 8 bs)"

definition bytes_of_words :: "u64 list \<Rightarrow> byte list" where
  "bytes_of_words ws = concat (map (to_le 8) ws)"

definition bitmap_create_from_buf ::
    "(nat \<Rightarrow> bool) \<Rightarrow> nat \<Rightarrow> byte list \<Rightarrow> console \<Rightarrow> (bitmap \<times> console) option" where
  "bitmap_create_from_buf mok n buf con =
     do { (b, con') \<leftarrow> bitmap_create mok n con;
          b' \<leftarrow> b;
          let con'' = c_assert ''bitmap_create_from_buf'' (mok (byte_cnt n)) con';
          if byte_cnt n \<le> length buf
          then Some (b'\<lparr>bits := words_of_bytes (elem_cnt n) buf\<rparr>, con'') else None }"

definition bitmap_file_size :: "bitmap \<Rightarrow> nat" where
  "bitmap_file_size b = byte_cnt (bit_cnt b)"

section \<open>The abstract bit vector\<close>

definition bm_bit :: "bitmap \<Rightarrow> nat \<Rightarrow> bool" where
  "bm_bit b i = bit (bits b ! (i div 64)) (i mod 64)"

definition bm_abs :: "bitmap \<Rightarrow> bool list" where
  "bm_abs b = map (bm_bit b) [0..<bit_cnt b]"

definition bm_wf :: "bitmap \<Rightarrow> bool" where
  "bm_wf b \<longleftrightarrow> length (bits b) = elem_cnt (bit_cnt b) \<and> bit_cnt b + 64 \<le> 2 ^ 64"

lemma length_bm_abs [simp]: "length (bm_abs b) = bit_cnt b"
  by (simp add: bm_abs_def)

lemma nth_bm_abs [simp]: "i < bit_cnt b \<Longrightarrow> bm_abs b ! i = bm_bit b i"
  by (simp add: bm_abs_def)

lemma elem_cnt_exact: "n + 64 \<le> 2 ^ 64 \<Longrightarrow> elem_cnt n = (n + 63) div 64"
  by (simp add: elem_cnt_def DIV_ROUND_UP_def ELEM_BITS_def)

lemma elem_idx_in_range:
  assumes "bm_wf b" "i < bit_cnt b"
  shows "i div 64 < length (bits b)"
proof -
  have "i div 64 < (bit_cnt b + 63) div 64"
    using assms(2) by simp
  with assms(1) show ?thesis by (simp add: bm_wf_def elem_cnt_exact)
qed

lemma bit_bit_mask: "bit (bit_mask i) k \<longleftrightarrow> k = i mod 64"
  by (auto simp: bit_mask_def ELEM_BITS_def bit_simps)

lemma and_bit_mask_nonzero: "w AND bit_mask i \<noteq> 0 \<longleftrightarrow> bit w (i mod 64)"
proof -
  have "w AND bit_mask i = 0 \<longleftrightarrow> (\<forall>k. \<not> bit (w AND bit_mask i) k)"
    by (metis bit_0_eq bit_eqI bot_apply bot_bool_def)
  then show ?thesis by (auto simp: bit_bit_mask bit_and_iff)
qed

lemma update_elem_abs:
  assumes "bm_wf b" "i < bit_cnt b"
    and "\<And>w k. k < 64 \<Longrightarrow> bit (f w) k \<longleftrightarrow> (if k = i mod 64 then g (bit w k) else bit w k)"
  shows "\<exists>b'. update_elem f b (elem_idx i) = Some b' \<and> bm_wf b' \<and> bit_cnt b' = bit_cnt b \<and>
              bm_abs b' = (bm_abs b)[i := g (bm_bit b i)]"
proof -
  note r = elem_idx_in_range [OF assms(1,2)]
  let ?b = "b\<lparr>bits := (bits b)[i div 64 := f (bits b ! (i div 64))]\<rparr>"
  have "bm_bit ?b j = (if j = i then g (bm_bit b i) else bm_bit b j)" for j
  proof (cases "j div 64 = i div 64")
    case True
    then have "j mod 64 = i mod 64 \<longleftrightarrow> j = i"
      by (metis div_mult_mod_eq)
    with True r show ?thesis by (auto simp: bm_bit_def assms(3))
  next
    case False
    then show ?thesis by (auto simp: bm_bit_def)
  qed
  then have "bm_abs ?b = (bm_abs b)[i := g (bm_bit b i)]"
    by (intro nth_equalityI) (auto simp: nth_list_update)
  with r assms(1) show ?thesis
    by (simp add: update_elem_def elem_idx_def ELEM_BITS_def bm_wf_def)
qed

lemma bitmap_mark_abs:
  "bm_wf b \<Longrightarrow> i < bit_cnt b \<Longrightarrow>
   \<exists>b'. bitmap_mark b i = Some b' \<and> bm_wf b' \<and> bit_cnt b' = bit_cnt b \<and> bm_abs b' = (bm_abs b)[i := True]"
  unfolding bitmap_mark_def
  by (rule update_elem_abs [where g = "\<lambda>_. True"]) (auto simp: bit_bit_mask bit_simps)

lemma bitmap_reset_abs:
  "bm_wf b \<Longrightarrow> i < bit_cnt b \<Longrightarrow>
   \<exists>b'. bitmap_reset b i = Some b' \<and> bm_wf b' \<and> bit_cnt b' = bit_cnt b \<and> bm_abs b' = (bm_abs b)[i := False]"
  unfolding bitmap_reset_def
  by (rule update_elem_abs [where g = "\<lambda>_. False"]) (auto simp: bit_bit_mask bit_simps)

lemma bitmap_flip_abs:
  "bm_wf b \<Longrightarrow> i < bit_cnt b \<Longrightarrow>
   \<exists>b'. bitmap_flip b i = Some b' \<and> bm_wf b' \<and> bit_cnt b' = bit_cnt b \<and>
        bm_abs b' = (bm_abs b)[i := \<not> bm_abs b ! i]"
  using update_elem_abs [where g = Not and f = "\<lambda>w. w XOR bit_mask i"]
  unfolding bitmap_flip_def by (simp add: bit_bit_mask bit_simps)

lemma bitmap_set_abs:
  assumes "bm_wf b" "i < bit_cnt b"
  shows "\<exists>b'. bitmap_set b i v con = Some (b', con) \<and> bm_wf b' \<and> bit_cnt b' = bit_cnt b \<and>
              bm_abs b' = (bm_abs b)[i := v]"
  using bitmap_mark_abs [OF assms] bitmap_reset_abs [OF assms] assms(2)
  by (cases v) (auto simp: bitmap_set_def)

lemma bitmap_test_abs:
  assumes "bm_wf b" "i < bit_cnt b"
  shows "bitmap_test b i con = Some (bm_abs b ! i, con)"
  using elem_idx_in_range [OF assms] assms(2)
  by (simp add: bitmap_test_def elem_idx_def ELEM_BITS_def and_bit_mask_nonzero bm_bit_def)

lemma bitmap_set_loop_abs:
  "bm_wf b \<Longrightarrow> start + i + n \<le> bit_cnt b \<Longrightarrow>
   \<exists>b'. bitmap_set_loop b start v i n con = Some (b', con) \<and> bm_wf b' \<and> bit_cnt b' = bit_cnt b \<and>
        bm_abs b' = fill (start + i) n v (bm_abs b)"
proof (induction n arbitrary: b i)
  case (Suc n)
  then have a: "size_add start i = start + i"
    by (simp add: bm_wf_def c_arith)
  from Suc.prems have "start + i < bit_cnt b" by simp
  from bitmap_set_abs [OF Suc.prems(1) this] obtain b1 where
    b1: "bitmap_set b (start + i) v con = Some (b1, con)" "bm_wf b1" "bit_cnt b1 = bit_cnt b"
        "bm_abs b1 = (bm_abs b)[start + i := v]" by blast
  with Suc.IH [of b1 "Suc i"] Suc.prems show ?case
    by (auto simp: a fill_Suc)
qed simp

lemma bitmap_set_multiple_abs:
  assumes "bm_wf b" "start + cnt \<le> bit_cnt b"
  shows "\<exists>b'. bitmap_set_multiple b start cnt v con = Some (b', con) \<and> bm_wf b' \<and>
              bit_cnt b' = bit_cnt b \<and> bm_abs b' = fill start cnt v (bm_abs b)"
  using bitmap_set_loop_abs [of b start 0 cnt v con] assms
  by (simp add: bitmap_set_multiple_def size_add_exact bm_wf_def)

lemma bitmap_count_loop_abs:
  "bm_wf b \<Longrightarrow> start + i + n \<le> bit_cnt b \<Longrightarrow>
   bitmap_count_loop b start v i n k con =
   Some (k + count_list (slice (start + i) n (bm_abs b)) v, con)"
proof (induction n arbitrary: i k)
  case (Suc n)
  then have "size_add start i = start + i" and "start + i < bit_cnt b"
    by (simp_all add: bm_wf_def c_arith)
  with Suc show ?case by (simp add: bitmap_test_abs slice_Suc)
qed simp

lemma bitmap_count_abs:
  assumes "bm_wf b" "start + cnt \<le> bit_cnt b"
  shows "bitmap_count b start cnt v con = Some (count_list (slice start cnt (bm_abs b)) v, con)"
  using bitmap_count_loop_abs [of b start 0 cnt v 0 con] assms
  by (simp add: bitmap_count_def size_add_exact bm_wf_def)

lemma bitmap_contains_loop_abs:
  "bm_wf b \<Longrightarrow> start + i + n \<le> bit_cnt b \<Longrightarrow>
   bitmap_contains_loop b start v i n con = Some (v \<in> set (slice (start + i) n (bm_abs b)), con)"
proof (induction n arbitrary: i)
  case (Suc n)
  then have "size_add start i = start + i" and "start + i < bit_cnt b"
    by (simp_all add: bm_wf_def c_arith)
  with Suc show ?case by (auto simp: bitmap_test_abs slice_Suc)
qed simp

lemma bitmap_contains_abs:
  assumes "bm_wf b" "start + cnt \<le> bit_cnt b"
  shows "bitmap_contains b start cnt v con = Some (v \<in> set (slice start cnt (bm_abs b)), con)"
  using bitmap_contains_loop_abs [of b start 0 cnt v con] assms
  by (simp add: bitmap_contains_def size_add_exact bm_wf_def)

text \<open>A group of \<open>cnt\<close> bits at \<open>i\<close> that all have the value \<open>v\<close>.\<close>

definition group_at :: "bool list \<Rightarrow> nat \<Rightarrow> bool \<Rightarrow> nat \<Rightarrow> bool" where
  "group_at bs cnt v i \<longleftrightarrow> i + cnt \<le> length bs \<and> slice i cnt bs = replicate cnt v"

lemma group_at_iff:
  "i + cnt \<le> length bs \<Longrightarrow> group_at bs cnt v i \<longleftrightarrow> (\<not> v) \<notin> set (slice i cnt bs)"
  unfolding group_at_def
  by (auto simp: list_eq_iff_nth_eq in_set_conv_nth)

lemma bitmap_scan_loop_abs:
  "bm_wf b \<Longrightarrow> (\<forall>j. i \<le> j \<and> j < i + n \<longrightarrow> j + cnt \<le> bit_cnt b) \<Longrightarrow>
   bitmap_scan_loop b cnt v i n con =
   Some (case first_from (group_at (bm_abs b) cnt v) i n of None \<Rightarrow> BITMAP_ERROR | Some k \<Rightarrow> k, con)"
proof (induction n arbitrary: i)
  case (Suc n)
  then have "i + cnt \<le> bit_cnt b" by simp
  with Suc show ?case by (simp add: bitmap_contains_abs group_at_iff)
qed simp

text \<open>The index that a scan must return: the first group at or after \<open>start\<close>.\<close>

definition scan_spec :: "bool list \<Rightarrow> nat \<Rightarrow> nat \<Rightarrow> bool \<Rightarrow> nat option" where
  "scan_spec bs start cnt v = first_from (group_at bs cnt v) start (Suc (length bs) - start)"

lemma first_from_extend:
  assumes "\<And>j. i + n \<le> j \<Longrightarrow> \<not> P j" "n \<le> m"
  shows "first_from P i m = first_from P i n"
proof (cases "first_from P i n")
  case None
  then have "first_from P i m = None"
    using assms by (metis first_from_None_iff not_less)
  with None show ?thesis by simp
next
  case (Some k)
  from first_from_SomeD [OF Some] assms(2) have "first_from P i m = Some k"
    by (intro first_from_SomeI) auto
  with Some show ?thesis by simp
qed

lemma bitmap_scan_abs:
  assumes "bm_wf b" "start \<le> bit_cnt b"
  shows "bitmap_scan b start cnt v con =
         Some (case scan_spec (bm_abs b) start cnt v of None \<Rightarrow> BITMAP_ERROR | Some k \<Rightarrow> k, con)"
proof (cases "cnt \<le> bit_cnt b")
  case True
  have "first_from (group_at (bm_abs b) cnt v) start (Suc (bit_cnt b) - start) =
        first_from (group_at (bm_abs b) cnt v) start (Suc (bit_cnt b - cnt) - start)"
    using True by (intro first_from_extend) (auto simp: group_at_def)
  moreover have "bitmap_scan_loop b cnt v start (Suc (bit_cnt b - cnt) - start) con =
    Some (case first_from (group_at (bm_abs b) cnt v) start (Suc (bit_cnt b - cnt) - start) of
            None \<Rightarrow> BITMAP_ERROR | Some k \<Rightarrow> k, con)"
    using True assms by (intro bitmap_scan_loop_abs) auto
  ultimately show ?thesis
    using True assms by (simp add: bitmap_scan_def scan_spec_def)
next
  case False
  then have "scan_spec (bm_abs b) start cnt v = None"
    by (auto simp: scan_spec_def first_from_None_iff group_at_def)
  with False assms show ?thesis by (simp add: bitmap_scan_def)
qed

lemma scan_spec_SomeD:
  "scan_spec bs start cnt v = Some k \<Longrightarrow>
   start \<le> k \<and> k + cnt \<le> length bs \<and> group_at bs cnt v k \<and> (\<forall>j. start \<le> j \<and> j < k \<longrightarrow> \<not> group_at bs cnt v j)"
  using first_from_SomeD [of "group_at bs cnt v" start "Suc (length bs) - start" k]
  by (auto simp: scan_spec_def group_at_def)

lemma scan_spec_NoneD:
  "scan_spec bs start cnt v = None \<Longrightarrow> start \<le> j \<Longrightarrow> \<not> group_at bs cnt v j"
  by (auto simp: scan_spec_def first_from_None_iff group_at_def)

lemma bitmap_scan_and_flip_abs:
  assumes "bm_wf b" "start \<le> bit_cnt b" "bit_cnt b < BITMAP_ERROR"
  shows "\<exists>b'. bitmap_scan_and_flip b start cnt v con =
           Some (case scan_spec (bm_abs b) start cnt v of None \<Rightarrow> BITMAP_ERROR | Some k \<Rightarrow> k, b', con) \<and>
         bm_wf b' \<and> bit_cnt b' = bit_cnt b \<and>
         bm_abs b' = (case scan_spec (bm_abs b) start cnt v of
                        None \<Rightarrow> bm_abs b | Some k \<Rightarrow> fill k cnt (\<not> v) (bm_abs b))"
proof (cases "scan_spec (bm_abs b) start cnt v")
  case None
  with assms show ?thesis by (simp add: bitmap_scan_and_flip_def bitmap_scan_abs)
next
  case (Some k)
  from scan_spec_SomeD [OF Some] assms(3) have "k + cnt \<le> bit_cnt b" and "k \<noteq> BITMAP_ERROR" by auto
  with assms Some bitmap_set_multiple_abs [of b k cnt "\<not> v" con] show ?thesis
    by (auto simp: bitmap_scan_and_flip_def bitmap_scan_abs)
qed

section \<open>The contract of a bit vector and what its users get from it\<close>

text \<open>
  The free map of the file system uses a bitmap through two operations only: it claims the first
  group of clear bits and it clears a group again. The locale states what those two operations
  promise over the abstract vector; its lemmas are the facts an allocator needs.
\<close>

locale bit_vector =
  fixes wf :: "'b \<Rightarrow> bool"
    and bv :: "'b \<Rightarrow> bool list"
    and set_multiple :: "'b \<Rightarrow> nat \<Rightarrow> nat \<Rightarrow> bool \<Rightarrow> console \<Rightarrow> ('b \<times> console) option"
    and claim :: "'b \<Rightarrow> nat \<Rightarrow> nat \<Rightarrow> bool \<Rightarrow> console \<Rightarrow> (nat \<times> 'b \<times> console) option"
    and err :: nat
  assumes set_multiple_law:
      "wf b \<Longrightarrow> s + n \<le> length (bv b) \<Longrightarrow>
       \<exists>b'. set_multiple b s n v con = Some (b', con) \<and> wf b' \<and> bv b' = fill s n v (bv b)"
    and claim_law:
      "wf b \<Longrightarrow> s \<le> length (bv b) \<Longrightarrow>
       \<exists>b'. claim b s n v con =
              Some (case scan_spec (bv b) s n v of None \<Rightarrow> err | Some k \<Rightarrow> k, b', con) \<and> wf b' \<and>
            bv b' = (case scan_spec (bv b) s n v of
                       None \<Rightarrow> bv b | Some k \<Rightarrow> fill k n (\<not> v) (bv b))"
    and err_large: "wf b \<Longrightarrow> length (bv b) < err"
begin

lemma claim_cases:
  assumes "wf b" "s \<le> length (bv b)" "claim b s n v con = Some (k, b', con')"
  obtains (none) "k = err" "con' = con" "wf b'" "bv b' = bv b" "\<forall>j\<ge>s. \<not> group_at (bv b) n v j"
  | (found) "k \<noteq> err" "con' = con" "wf b'" "s \<le> k" "k + n \<le> length (bv b)" "group_at (bv b) n v k"
      "bv b' = fill k n (\<not> v) (bv b)" "\<forall>j. s \<le> j \<and> j < k \<longrightarrow> \<not> group_at (bv b) n v j"
proof (cases "scan_spec (bv b) s n v")
  case None
  with claim_law [OF assms(1,2), of n v con] assms(3) scan_spec_NoneD [OF None] none
  show ?thesis by auto
next
  case (Some i)
  from scan_spec_SomeD [OF Some] err_large [OF assms(1)] have "i \<noteq> err" by auto
  with Some claim_law [OF assms(1,2), of n v con] assms(3) scan_spec_SomeD [OF Some] found
  show ?thesis by auto
qed

lemma claim_release:
  assumes "wf b" "s \<le> length (bv b)" "claim b s n v con = Some (k, b', con')" "k \<noteq> err"
  shows "\<exists>b''. set_multiple b' k n v con' = Some (b'', con') \<and> wf b'' \<and> bv b'' = bv b"
  using assms(1-3)
proof (cases rule: claim_cases)
  case found
  then have "fill k n v (bv b') = bv b"
    by (simp add: group_at_def fill_slice_self)
  with found set_multiple_law [of b' k n v con'] show ?thesis by auto
qed (use assms(4) in simp)

lemma claim_count:
  assumes "wf b" "s \<le> length (bv b)" "claim b s n v con = Some (k, b', con')" "k \<noteq> err"
  shows "count_list (bv b) v = count_list (bv b') v + n"
  using assms(1-3)
proof (cases rule: claim_cases)
  case found
  with count_list_fill [of k n "bv b" v "\<not> v" v] show ?thesis
    by (simp add: group_at_def)
qed (use assms(4) in simp)

lemma claims_disjoint:
  assumes "wf b" "s \<le> length (bv b)" "claim b s n v con = Some (k, b', con')" "k \<noteq> err"
    and "t \<le> length (bv b)" "claim b' t m v con' = Some (k2, b'', con'')" "k2 \<noteq> err"
    and "0 < n" "0 < m"
  shows "k + n \<le> k2 \<or> k2 + m \<le> k"
  using assms(1-3)
proof (cases rule: claim_cases)
  case 1: found
  have t: "t \<le> length (bv b')" using 1 assms(5) by simp
  from 1(3) t assms(6) show ?thesis
  proof (cases rule: claim_cases)
    case 2: found
    show ?thesis
    proof (rule ccontr)
      assume "\<not> ?thesis"
      then obtain j where j: "k \<le> j" "j < k + n" "k2 \<le> j" "j < k2 + m"
        using assms(8,9) by (meson le_refl linorder_not_le nat_le_linear trans_le_add1 less_add_same_cancel1)
      then have "bv b' ! j = (\<not> v)" using 1 by simp
      moreover have "bv b' ! j = v"
        using 2(6) j in_set_slice_iff [of k2 m "bv b'" "\<not> v"]
        by (auto simp: group_at_def)
      ultimately show False by simp
    qed
  qed (use assms(7) in simp)
qed (use assms(4) in simp)

end

definition free_map_wf :: "bitmap \<Rightarrow> bool" where
  "free_map_wf b \<longleftrightarrow> bm_wf b \<and> bit_cnt b < BITMAP_ERROR"

interpretation fm: bit_vector free_map_wf bm_abs bitmap_set_multiple bitmap_scan_and_flip BITMAP_ERROR
proof unfold_locales
  fix b s n v con
  assume "free_map_wf b" "s + n \<le> length (bm_abs b)"
  then show "\<exists>b'. bitmap_set_multiple b s n v con = Some (b', con) \<and> free_map_wf b' \<and>
                  bm_abs b' = fill s n v (bm_abs b)"
    using bitmap_set_multiple_abs [of b s n v con] by (auto simp: free_map_wf_def)
next
  fix b s n v con
  assume "free_map_wf b" "s \<le> length (bm_abs b)"
  then show "\<exists>b'. bitmap_scan_and_flip b s n v con =
      Some (case scan_spec (bm_abs b) s n v of None \<Rightarrow> BITMAP_ERROR | Some k \<Rightarrow> k, b', con) \<and>
      free_map_wf b' \<and> bm_abs b' = (case scan_spec (bm_abs b) s n v of
                       None \<Rightarrow> bm_abs b | Some k \<Rightarrow> fill k n (\<not> v) (bm_abs b))"
    using bitmap_scan_and_flip_abs [of b s n v con] by (auto simp: free_map_wf_def)
qed (simp add: free_map_wf_def)

section \<open>Creation and the byte image\<close>

lemma words_of_bytes_of_words: "words_of_bytes (length ws) (bytes_of_words ws) = ws"
  by (induction ws) (auto simp: bytes_of_words_def from_to_le)

lemma bitmap_create_abs:
  assumes "mok 16" "mok (byte_cnt n) \<or> n = 0" "n + 64 \<le> 2 ^ 64"
  shows "\<exists>b. bitmap_create mok n con = Some (Some b, con) \<and> bm_wf b \<and> bm_abs b = replicate n False"
proof -
  let ?b = "\<lparr>bit_cnt = n, bits = replicate (elem_cnt n) 0\<rparr>"
  have "bm_wf ?b" using assms(3) by (simp add: bm_wf_def)
  from bitmap_set_multiple_abs [OF this, of 0 n False con] obtain b where
    b: "bitmap_set_multiple ?b 0 n False con = Some (b, con)" "bm_wf b" "bit_cnt b = n"
       "bm_abs b = fill 0 n False (bm_abs ?b)" by auto
  then have "bm_abs b = replicate n False" by (intro nth_equalityI) auto
  with b assms show ?thesis
    by (auto simp: bitmap_create_def bitmap_set_all_def bitmap_size_def)
qed

section \<open>Properties\<close>

text \<open>
  Writing bit \<open>i\<close> with \<^verbatim>\<open>bitmap_set\<close> and then reading bit \<open>j\<close> with \<^verbatim>\<open>bitmap_test\<close> gives the
  written value if \<open>i = j\<close> and the old bit otherwise; both calls are defined and no assertion
  prints, for every pair of indices inside a well-formed bitmap.
\<close>

theorem bitmap_set_then_test:
  assumes "bm_wf b" "i < bit_cnt b" "j < bit_cnt b"
  shows "do { (b', con') \<leftarrow> bitmap_set b i v con; bitmap_test b' j con' } =
         do { (old, con') \<leftarrow> bitmap_test b j con; Some (if j = i then v else old, con') }"
proof -
  from bitmap_set_abs [OF assms(1,2)] obtain b' where
    "bitmap_set b i v con = Some (b', con)" "bm_wf b'" "bit_cnt b' = bit_cnt b"
    "bm_abs b' = (bm_abs b)[i := v]" by blast
  with assms show ?thesis
    by (auto simp: bitmap_test_abs nth_list_update simp del: nth_bm_abs)
qed

definition bm_example :: bitmap where
  "bm_example = \<lparr>bit_cnt = 70, bits = [0x7, 0x20]\<rparr>"

lemma bit_cnt_bm_example [simp]: "bit_cnt bm_example = 70"
  by (simp add: bm_example_def)

lemma bm_example_wf: "bm_wf bm_example"
  by (simp add: bm_example_def bm_wf_def elem_cnt_exact)

theorem bitmap_set_then_test_witness:
  "do { (b', con') \<leftarrow> bitmap_set bm_example 65 True []; bitmap_test b' 65 con' } = Some (True, [])"
proof -
  have "65 < bit_cnt bm_example" by (simp add: bm_example_def)
  from bitmap_set_then_test [OF bm_example_wf this this, of True "[]"]
  show ?thesis by (simp add: bitmap_test_abs bm_example_wf)
qed

text \<open>
  C12. \<^verbatim>\<open>bitmap_scan\<close> returns the least index at or after \<open>start\<close> of \<open>cnt\<close> consecutive bits that all
  have the wanted value, or \<^verbatim>\<open>BITMAP_ERROR\<close> exactly when there is no such group.
\<close>

theorem bitmap_scan_finds_first:
  assumes "bm_wf b" "start \<le> bit_cnt b" "bit_cnt b < BITMAP_ERROR"
  shows "\<exists>k. bitmap_scan b start cnt v con = Some (k, con) \<and>
           (k = BITMAP_ERROR \<longleftrightarrow> (\<forall>j. start \<le> j \<longrightarrow> \<not> group_at (bm_abs b) cnt v j)) \<and>
           (k \<noteq> BITMAP_ERROR \<longrightarrow> start \<le> k \<and> group_at (bm_abs b) cnt v k \<and>
              (\<forall>j. start \<le> j \<and> j < k \<longrightarrow> \<not> group_at (bm_abs b) cnt v j))"
proof (cases "scan_spec (bm_abs b) start cnt v")
  case None
  with assms show ?thesis
    using scan_spec_NoneD [OF None] by (simp add: bitmap_scan_abs)
next
  case (Some k)
  note d = scan_spec_SomeD [OF Some]
  have "k \<noteq> BITMAP_ERROR" using d assms(3) by auto
  with Some d assms show ?thesis by (auto simp: bitmap_scan_abs)
qed

lemma group_at_bits:
  "group_at bs cnt v i \<longleftrightarrow> i + cnt \<le> length bs \<and> (\<forall>j. i \<le> j \<and> j < i + cnt \<longrightarrow> bs ! j = v)"
  using group_at_iff [of i cnt bs v] in_set_slice_iff [of i cnt bs "\<not> v"]
  by (auto simp: group_at_def)

lemma bm_example_bit: "j < 64 \<Longrightarrow> bm_bit bm_example j \<longleftrightarrow> j < 3"
proof -
  assume "j < 64"
  have "bit (7 :: u64) j \<longleftrightarrow> j < 3"
    using bit_mask_iff [of 3 j, where 'a = u64] \<open>j < 64\<close> by (auto simp: mask_eq_exp_minus_1)
  with \<open>j < 64\<close> show ?thesis by (simp add: bm_bit_def bm_example_def)
qed

lemma bm_example_scan: "scan_spec (bm_abs bm_example) 0 3 False = Some 3"
proof -
  show ?thesis
    unfolding scan_spec_def
  proof (rule first_from_SomeI)
    fix j :: nat assume "j < 3"
    then show "\<not> group_at (bm_abs bm_example) 3 False j"
      by (auto simp: group_at_bits bm_example_bit intro!: exI [of _ 2])
  qed (auto simp: group_at_bits bm_example_bit)
qed

theorem bitmap_scan_finds_first_witness:
  "\<exists>k. bitmap_scan bm_example 0 3 False [] = Some (k, []) \<and> k \<noteq> BITMAP_ERROR \<and> group_at (bm_abs bm_example) 3 False k"
proof -
  have "0 \<le> bit_cnt bm_example" "bit_cnt bm_example < BITMAP_ERROR"
    by (simp_all add: bm_example_def BITMAP_ERROR_def)
  from bitmap_scan_finds_first [OF bm_example_wf this, of 3 False "[]"] show ?thesis
    using bm_example_wf by (simp add: bitmap_scan_abs bm_example_scan BITMAP_ERROR_def)
qed

lemma bm_example_free_map_wf: "free_map_wf bm_example"
  using bm_example_wf by (simp add: free_map_wf_def bm_example_def BITMAP_ERROR_def)

lemma bm_example_claim:
  "\<exists>b'. bitmap_scan_and_flip bm_example 0 3 False [] = Some (3, b', []) \<and> free_map_wf b' \<and>
        bit_cnt b' = 70 \<and> bm_abs b' = fill 3 3 True (bm_abs bm_example)"
proof -
  have "bm_wf bm_example" "(0::nat) \<le> bit_cnt bm_example" "bit_cnt bm_example < BITMAP_ERROR"
    using bm_example_free_map_wf by (simp_all add: free_map_wf_def)
  from bitmap_scan_and_flip_abs [OF this, of 3 False "[]"] this(3) show ?thesis
    unfolding bm_example_scan free_map_wf_def by auto
qed

text \<open>
  Claiming a group with \<^verbatim>\<open>bitmap_scan_and_flip\<close> and clearing the same group again with
  \<^verbatim>\<open>bitmap_set_multiple\<close> restores the bitmap's bits.
\<close>

theorem bitmap_claim_release:
  assumes "free_map_wf b" "start \<le> bit_cnt b"
    and "bitmap_scan_and_flip b start cnt v con = Some (k, b', con')" "k \<noteq> BITMAP_ERROR"
  shows "\<exists>b''. bitmap_set_multiple b' k cnt v con' = Some (b'', con') \<and> bm_abs b'' = bm_abs b"
  using fm.claim_release [of b start cnt v con k b' con'] assms by auto

theorem bitmap_claim_release_witness:
  "\<exists>b'. bitmap_scan_and_flip bm_example 0 3 False [] = Some (3, b', []) \<and>
        (\<exists>b''. bitmap_set_multiple b' 3 3 False [] = Some (b'', []) \<and> bm_abs b'' = bm_abs bm_example)"
proof -
  from bm_example_claim obtain b' where
    e: "bitmap_scan_and_flip bm_example 0 3 False [] = Some (3, b', [])" by blast
  have "(3::nat) \<noteq> BITMAP_ERROR" by (simp add: BITMAP_ERROR_def)
  from bitmap_claim_release [OF bm_example_free_map_wf _ e this] e show ?thesis by simp
qed

text \<open>
  C13. Two groups claimed one after the other never share a bit, and each claim lowers the number
  of available bits by exactly the size of the group.
\<close>

theorem bitmap_claims_disjoint:
  assumes "free_map_wf b" "s \<le> bit_cnt b" "bitmap_scan_and_flip b s n v con = Some (k, b1, con1)"
    "k \<noteq> BITMAP_ERROR" "t \<le> bit_cnt b" "bitmap_scan_and_flip b1 t m v con1 = Some (l, b2, con2)"
    "l \<noteq> BITMAP_ERROR" "0 < n" "0 < m"
  shows "(k + n \<le> l \<or> l + m \<le> k) \<and> count_list (bm_abs b) v = count_list (bm_abs b1) v + n"
  using fm.claims_disjoint [of b s n v con k b1 con1 t m l b2 con2]
    fm.claim_count [of b s n v con k b1 con1] assms by simp

theorem bitmap_claims_disjoint_witness:
  "\<exists>b1 b2. bitmap_scan_and_flip bm_example 0 3 False [] = Some (3, b1, []) \<and>
     bitmap_scan_and_flip b1 0 2 False [] = Some (6, b2, []) \<and> (3 + 3 \<le> (6::nat) \<or> 6 + 2 \<le> (3::nat)) \<and>
     count_list (bm_abs bm_example) False = count_list (bm_abs b1) False + 3"
proof -
  from bm_example_claim obtain b1 where
    e1: "bitmap_scan_and_flip bm_example 0 3 False [] = Some (3, b1, [])" and w1: "free_map_wf b1"
    and n1: "bit_cnt b1 = 70" and b1: "bm_abs b1 = fill 3 3 True (bm_abs bm_example)" by blast
  have bit: "bm_abs b1 ! j \<longleftrightarrow> j < 6" if "j < 64" for j
    using that by (auto simp: b1 bm_example_bit simp del: nth_bm_abs) (auto simp: bm_example_bit)
  have "scan_spec (bm_abs b1) 0 2 False = Some 6"
    unfolding scan_spec_def
  proof (rule first_from_SomeI)
    fix j :: nat assume "j < 6"
    with bit [of j] show "\<not> group_at (bm_abs b1) 2 False j"
      by (auto simp del: nth_bm_abs simp: group_at_bits intro!: exI [of _ j])
  qed (auto simp: group_at_bits n1 bit simp del: nth_bm_abs)
  with bitmap_scan_and_flip_abs [of b1 0 2 False "[]"] w1 obtain b2 where
    e2: "bitmap_scan_and_flip b1 0 2 False [] = Some (6, b2, [])" by (auto simp: free_map_wf_def)
  have "(3::nat) \<noteq> BITMAP_ERROR" "(6::nat) \<noteq> BITMAP_ERROR" by (simp_all add: BITMAP_ERROR_def)
  from bitmap_claims_disjoint [OF bm_example_free_map_wf _ e1 this(1) _ e2 this(2)] e1 e2
  show ?thesis by simp
qed

text \<open>
  A fresh bitmap of \<open>n\<close> bits is well-formed with every bit false, and storing the words of a
  well-formed bitmap as bytes and building a bitmap from them gives the same bits back.
\<close>

theorem bitmap_create_from_own_bytes:
  assumes "bm_wf b" "mok 16" "mok (byte_cnt (bit_cnt b))"
  shows "(\<exists>c. bitmap_create mok (bit_cnt b) con = Some (Some c, con) \<and>
              bm_wf c \<and> bm_abs c = replicate (bit_cnt b) False) \<and>
         bitmap_create_from_buf mok (bit_cnt b) (bytes_of_words (bitmap_get_bits b)) con = Some (b, con)"
proof -
  have s: "bit_cnt b + 64 \<le> 2 ^ 64" using assms(1) by (simp add: bm_wf_def)
  from bitmap_create_abs [where mok = mok and n = "bit_cnt b" and con = con] assms s obtain c where
    c: "bitmap_create mok (bit_cnt b) con = Some (Some c, con)" "bm_wf c"
       "bm_abs c = replicate (bit_cnt b) False" by blast
  have "bit_cnt c = bit_cnt b" using c(3) by (metis length_bm_abs length_replicate)
  moreover have "length (bits b) = elem_cnt (bit_cnt b)" using assms(1) by (simp add: bm_wf_def)
  moreover from this have "length (bytes_of_words (bits b)) = byte_cnt (bit_cnt b)"
    by (simp add: bytes_of_words_def byte_cnt_def length_concat o_def sum_list_triv)
  ultimately show ?thesis using c assms(3) words_of_bytes_of_words [of "bits b"]
    by (simp add: bitmap_create_from_buf_def bitmap_get_bits_def)
qed

theorem bitmap_create_from_own_bytes_witness:
  "bitmap_create_from_buf (\<lambda>_. True) 70 (bytes_of_words [0x7, 0x20]) [] = Some (bm_example, [])"
  using bitmap_create_from_own_bytes [OF bm_example_wf, of "\<lambda>_. True" "[]"]
  by (simp add: bm_example_def bitmap_get_bits_def)

text \<open>
  The comment of \<^verbatim>\<open>bitmap_scan_and_flip\<close> says that a request for zero bits returns 0. The code
  returns \<open>start\<close>, and leaves the bits as they are.
\<close>

theorem bitmap_scan_zero_returns_start:
  assumes "free_map_wf b" "start \<le> bit_cnt b"
  shows "\<exists>b'. bitmap_scan_and_flip b start 0 v con = Some (start, b', con) \<and> bm_abs b' = bm_abs b"
proof -
  have "scan_spec (bm_abs b) start 0 v = Some start"
    unfolding scan_spec_def using assms(2)
    by (intro first_from_SomeI) (auto simp: group_at_def)
  with bitmap_scan_and_flip_abs [of b start 0 v con] assms show ?thesis
    by (auto simp: free_map_wf_def)
qed

theorem bitmap_scan_zero_returns_start_witness:
  "\<exists>b'. bitmap_scan_and_flip bm_example 5 0 False [] = Some (5, b', []) \<and> bm_abs b' = bm_abs bm_example"
  by (rule bitmap_scan_zero_returns_start [OF bm_example_free_map_wf]) (simp add: bm_example_def)

end
