(* ===== verification/Inode.thy ===== *)
theory Inode
  imports Buffer_Cache Bitmap
begin

text \<open>
  Inodes, the free map and the files they rest on (\<^verbatim>\<open>a3/fs/inode.c\<close>, \<^verbatim>\<open>a3/fs/free-map.c\<close>, the file
  operations \<^verbatim>\<open>bitmap_read\<close> and \<^verbatim>\<open>bitmap_write\<close> of \<^verbatim>\<open>a3/fs/bitmap.c\<close>). An inode maps the bytes of a file to
  sectors through 123 direct blocks, one indirect and one doubly indirect block. The three sources
  call each other in a circle: writing a file may allocate sectors, and allocating sectors writes
  the free map to its file. The operations below therefore take the operation that saves the free map as
  an argument, and \<open>inode_write_at\<close> ties the knot with fuel for the depth of this recursion.
  \<^term>\<open>None\<close> is undefined behaviour (or fuel used up).
\<close>

section \<open>State\<close>

definition INODE_MAGIC :: u32 where
  "INODE_MAGIC = 0x494e4f44"

definition DIRECT_BLOCKS_COUNT :: nat where
  "DIRECT_BLOCKS_COUNT = 123"

definition INDIRECT_BLOCKS_PER_SECTOR :: nat where
  "INDIRECT_BLOCKS_PER_SECTOR = 128"

record inode_disk =
  direct_blocks :: "block_sector_t list"
  indirect_block :: block_sector_t
  doubly_indirect_block :: block_sector_t
  is_dir :: bool
  d_length :: int
  magic :: u32

record inode =
  i_sector :: block_sector_t
  i_open_cnt :: int
  i_removed :: bool
  i_deny_write_cnt :: int
  i_data :: inode_disk

record open_file =
  f_inode :: nat
  f_pos :: int
  f_deny_write :: bool

text \<open>The file system on top of the buffer cache. Inodes and files in memory are addressed by numbers;
  the list of open inodes holds the addresses of its elements. \<open>malloc_ok n\<close> tells whether an allocation of \<open>n\<close>
  bytes succeeds.\<close>

record fstate = cstate +
  malloc_ok :: "nat \<Rightarrow> bool"
  inodes :: "nat \<Rightarrow> inode option"
  open_inodes :: "nat list"
  next_inode :: nat
  open_files :: "nat \<Rightarrow> open_file option"
  next_file :: nat
  free_map :: bitmap
  free_map_file :: "nat option"

section \<open>Sectors that hold structures\<close>

definition block_word :: "sector_data \<Rightarrow> nat \<Rightarrow> u32" where
  "block_word d i = from_le (slice (4 * i) 4 d)"

definition words_bytes :: "u32 list \<Rightarrow> byte list" where
  "words_bytes ws = concat (map (to_le 4) ws)"

definition read_blocks :: "nat \<Rightarrow> sector_data \<Rightarrow> u32 list" where
  "read_blocks n d = map (block_word d) [0..<n]"

text \<open>The layout of \<^verbatim>\<open>struct inode_disk\<close>: 125 block numbers, the flag and three bytes of padding, the
  length, the magic number; 512 bytes in all.\<close>

definition encode_inode :: "inode_disk \<Rightarrow> sector_data" where
  "encode_inode d =
     words_bytes (direct_blocks d @ [indirect_block d, doubly_indirect_block d]) @
     [if is_dir d then 1 else 0, 0, 0, 0] @ words_bytes [word_of_int (d_length d), magic d]"

definition decode_inode :: "sector_data \<Rightarrow> inode_disk" where
  "decode_inode b =
     \<lparr>direct_blocks = read_blocks DIRECT_BLOCKS_COUNT b, indirect_block = block_word b 123,
      doubly_indirect_block = block_word b 124, is_dir = (b ! 500 \<noteq> 0),
      d_length = sint (block_word b 126), magic = block_word b 127\<rparr>"

definition zeros :: sector_data where
  "zeros = replicate 512 0"

section \<open>From byte positions to sectors\<close>

definition bytes_to_sectors :: "int \<Rightarrow> nat option" where
  "bytes_to_sectors sz = do { x \<leftarrow> chk32 (sz + 512); Some (nat ((x - 1) div 512)) }"

definition index_to_sector :: "inode_disk \<Rightarrow> int \<Rightarrow> 'a fstate_scheme \<Rightarrow> (block_sector_t \<times> 'a fstate_scheme) option" where
  "index_to_sector idisk index s =
     (if index < 123 then
        (if 0 \<le> index \<and> nat index < length (direct_blocks idisk) then Some (direct_blocks idisk ! nat index, s) else None)
      else if index < 123 + 128 then
        do { _ \<leftarrow> (if malloc_ok s 512 then Some () else None);
             (d, s1) \<leftarrow> buffer_cache_read (indirect_block idisk) s;
             Some (block_word d (nat (index - 123)), s1) }
      else if index < 123 + 128 + 128 * 128 then
        do { _ \<leftarrow> (if malloc_ok s 512 then Some () else None);
             let index_first = (index - 251) div 128;
             let index_second = (index - 251) mod 128;
             (d, s1) \<leftarrow> buffer_cache_read (doubly_indirect_block idisk) s;
             (d2, s2) \<leftarrow> buffer_cache_read (block_word d (nat index_first)) s1;
             Some (block_word d2 (nat index_second), s2) }
      else Some (- 1, s))"

definition byte_to_sector :: "inode \<Rightarrow> int \<Rightarrow> 'a fstate_scheme \<Rightarrow> (block_sector_t \<times> 'a fstate_scheme) option" where
  "byte_to_sector inode pos s =
     (if 0 \<le> pos \<and> pos < d_length (i_data inode) then index_to_sector (i_data inode) (pos div 512) s
      else Some (- 1, s))"

section \<open>The free map\<close>

type_synonym 'a saver = "'a fstate_scheme \<Rightarrow> (bool \<times> 'a fstate_scheme) option"

definition free_map_allocate :: "'a saver \<Rightarrow> nat \<Rightarrow> 'a fstate_scheme \<Rightarrow> (block_sector_t option \<times> 'a fstate_scheme) option"
  where
  "free_map_allocate save cnt s =
     do { (sector, b, con) \<leftarrow> bitmap_scan_and_flip (free_map s) 0 cnt False (console s);
          let s1 = s\<lparr>free_map := b, console := con\<rparr>;
          if sector \<noteq> BITMAP_ERROR \<and> free_map_file s1 \<noteq> None
          then do { (ok, s2) \<leftarrow> save s1;
                    if ok then Some (Some (of_nat sector), s2)
                    else do { (b', con') \<leftarrow> bitmap_set_multiple (free_map s2) sector cnt False (console s2);
                              Some (None, s2\<lparr>free_map := b', console := con'\<rparr>) } }
          else Some (if sector \<noteq> BITMAP_ERROR then Some (of_nat sector) else None, s1) }"

definition free_map_release :: "'a saver \<Rightarrow> block_sector_t \<Rightarrow> nat \<Rightarrow> 'a fstate_scheme \<Rightarrow> 'a fstate_scheme option" where
  "free_map_release save sector cnt s =
     do { (all, con) \<leftarrow> bitmap_all (free_map s) (unat sector) cnt (console s);
          let s1 = assertion ''free_map_release'' all (s\<lparr>console := con\<rparr>);
          (b, con') \<leftarrow> bitmap_set_multiple (free_map s1) (unat sector) cnt False (console s1);
          (_, s2) \<leftarrow> save (s1\<lparr>free_map := b, console := con'\<rparr>);
          Some s2 }"

definition num_free_sectors :: "'a fstate_scheme \<Rightarrow> (nat \<times> 'a fstate_scheme) option" where
  "num_free_sectors s =
     do { (n, con) \<leftarrow> bitmap_count (free_map s) 0 (bitmap_size (free_map s)) False (console s);
          Some (n, s\<lparr>console := con\<rparr>) }"

section \<open>Reserving sectors\<close>

text \<open>A sector for an entry that has none. The result tells whether the entry has a sector then.\<close>

definition reserve_entry :: "'a saver \<Rightarrow> block_sector_t \<Rightarrow> 'a fstate_scheme \<Rightarrow> (bool \<times> block_sector_t \<times> 'a fstate_scheme) option"
  where
  "reserve_entry save entry s =
     (if entry = 0
      then do { (r, s1) \<leftarrow> free_map_allocate save 1 s;
                (case r of
                   None \<Rightarrow> Some (False, entry, s1)
                 | Some sector \<Rightarrow> do { s2 \<leftarrow> buffer_cache_write sector zeros s1; Some (True, sector, s2) }) }
      else Some (True, entry, s))"

text \<open>The loop over the entries of a block: \<open>f\<close> reserves \<open>subsize\<close> sectors below one entry.\<close>

fun reserve_loop ::
    "(nat \<Rightarrow> block_sector_t \<Rightarrow> 's \<Rightarrow> (bool \<times> block_sector_t \<times> 's) option) \<Rightarrow>
     nat \<Rightarrow> nat \<Rightarrow> nat \<Rightarrow> nat \<Rightarrow> block_sector_t list \<Rightarrow> 's \<Rightarrow> (bool \<times> nat \<times> block_sector_t list \<times> 's) option" where
  "reserve_loop f unit 0 i num blks s = Some (True, num, blks, s)"
| "reserve_loop f unit (Suc l) i num blks s =
     (if i < length blks
      then do { let subsize = min num unit;
                (ok, e, s1) \<leftarrow> f subsize (blks ! i) s;
                if ok then reserve_loop f unit l (Suc i) (num - subsize) (blks[i := e]) s1
                else Some (False, num, blks[i := e], s1) }
      else None)"

primrec inode_reserve_indirect ::
    "'a saver \<Rightarrow> nat \<Rightarrow> nat \<Rightarrow> block_sector_t \<Rightarrow> 'a fstate_scheme \<Rightarrow> (bool \<times> block_sector_t \<times> 'a fstate_scheme) option" where
  "inode_reserve_indirect save 0 num_sectors entry s = reserve_entry save entry s"
| "inode_reserve_indirect save (Suc level) num_sectors entry s =
     do { let s0 = assertion ''inode_reserve_indirect'' (Suc level \<le> 2) s;
          (entry', s1) \<leftarrow>
            (if entry = 0
             then do { (r, s1) \<leftarrow> free_map_allocate save 1 s0;
                       let entry' = (case r of None \<Rightarrow> entry | Some sector \<Rightarrow> sector);
                       s2 \<leftarrow> buffer_cache_write entry' zeros s1;
                       Some (entry', s2) }
             else Some (entry, s0));
          (d, s2) \<leftarrow> buffer_cache_read entry' s1;
          let unit = (if Suc level = 1 then 1 else INDIRECT_BLOCKS_PER_SECTOR);
          (ok, num, blks, s3) \<leftarrow>
            reserve_loop (\<lambda>subsize e t. inode_reserve_indirect save level subsize e t) unit
              (DIV_ROUND_UP num_sectors unit) 0 num_sectors (read_blocks 128 d) s2;
          if ok
          then do { let s4 = assertion ''inode_reserve_indirect'' (num = 0) s3;
                    s5 \<leftarrow> buffer_cache_write entry' (words_bytes blks) s4;
                    Some (True, entry', s5) }
          else Some (False, entry', s3) }"

definition inode_reserve ::
    "'a saver \<Rightarrow> inode_disk \<Rightarrow> int \<Rightarrow> 'a fstate_scheme \<Rightarrow> (bool \<times> inode_disk \<times> 'a fstate_scheme) option" where
  "inode_reserve save disk_inode len s =
     (if len < 0 then Some (False, disk_inode, s)
      else do {
        num_sectors \<leftarrow> bytes_to_sectors len;
        let l = min num_sectors DIRECT_BLOCKS_COUNT;
        (ok, _, blks, s1) \<leftarrow>
          reserve_loop (\<lambda>_ e t. reserve_entry save e t) 1 l 0 l (direct_blocks disk_inode) s;
        let d1 = disk_inode\<lparr>direct_blocks := blks\<rparr>;
        let num1 = num_sectors - l;
        if \<not> ok then Some (False, d1, s1)
        else if num1 = 0 then Some (True, d1, s1)
        else do {
          let l1 = min num1 INDIRECT_BLOCKS_PER_SECTOR;
          (ok1, e1, s2) \<leftarrow> inode_reserve_indirect save 1 l1 (indirect_block d1) s1;
          let d2 = d1\<lparr>indirect_block := e1\<rparr>;
          let num2 = num1 - l1;
          if \<not> ok1 then Some (False, d2, s2)
          else if num2 = 0 then Some (True, d2, s2)
          else do {
            let l2 = min num2 (INDIRECT_BLOCKS_PER_SECTOR * INDIRECT_BLOCKS_PER_SECTOR);
            (ok2, e2, s3) \<leftarrow> inode_reserve_indirect save 2 l2 (doubly_indirect_block d2) s2;
            let d3 = d2\<lparr>doubly_indirect_block := e2\<rparr>;
            let num3 = num2 - l2;
            if \<not> ok2 then Some (False, d3, s3)
            else if num3 = 0 then Some (True, d3, s3)
            else Some (False, d3, assertion ''inode_reserve'' False s3) } } })"

definition inode_allocate :: "'a saver \<Rightarrow> inode_disk \<Rightarrow> 'a fstate_scheme \<Rightarrow> (bool \<times> inode_disk \<times> 'a fstate_scheme) option" where
  "inode_allocate save disk_inode s = inode_reserve save disk_inode (d_length disk_inode) s"


section \<open>Releasing sectors\<close>

fun deallocate_loop :: "(nat \<Rightarrow> block_sector_t \<Rightarrow> 's \<Rightarrow> 's option) \<Rightarrow> nat \<Rightarrow> nat \<Rightarrow> block_sector_t list \<Rightarrow> nat \<Rightarrow> 's \<Rightarrow> (nat \<times> 's) option"
  where
  "deallocate_loop f unit 0 blks num s = Some (num, s)"
| "deallocate_loop f unit (Suc l) [] num s = None"
| "deallocate_loop f unit (Suc l) (b # blks) num s =
     do { let subsize = min num unit;
          s1 \<leftarrow> f subsize b s;
          deallocate_loop f unit l blks (num - subsize) s1 }"

primrec inode_deallocate_indirect ::
    "'a saver \<Rightarrow> nat \<Rightarrow> nat \<Rightarrow> block_sector_t \<Rightarrow> 'a fstate_scheme \<Rightarrow> 'a fstate_scheme option" where
  "inode_deallocate_indirect save 0 num_sectors entry s = free_map_release save entry 1 s"
| "inode_deallocate_indirect save (Suc level) num_sectors entry s =
     do { let s0 = assertion ''inode_deallocate_indirect'' (Suc level \<le> 2) s;
          (d, s1) \<leftarrow> buffer_cache_read entry s0;
          let unit = (if Suc level = 1 then 1 else INDIRECT_BLOCKS_PER_SECTOR);
          (num, s2) \<leftarrow> deallocate_loop (\<lambda>subsize e t. inode_deallocate_indirect save level subsize e t) unit
              (DIV_ROUND_UP num_sectors unit) (read_blocks 128 d) num_sectors s1;
          free_map_release save entry 1 (assertion ''inode_deallocate_indirect'' (num = 0) s2) }"

definition inode_deallocate :: "'a saver \<Rightarrow> inode \<Rightarrow> 'a fstate_scheme \<Rightarrow> (bool \<times> 'a fstate_scheme) option" where
  "inode_deallocate save inode s =
     (if d_length (i_data inode) < 0 then Some (False, s)
      else do {
        num0 \<leftarrow> bytes_to_sectors (d_length (i_data inode));
        let l0 = min num0 DIRECT_BLOCKS_COUNT;
        (_, s1) \<leftarrow> deallocate_loop (\<lambda>_ e t. free_map_release save e 1 t) 1 l0 (direct_blocks (i_data inode)) l0 s;
        let num1 = num0 - l0;
        let l1 = min num1 INDIRECT_BLOCKS_PER_SECTOR;
        s2 \<leftarrow> (if l1 > 0 then inode_deallocate_indirect save 1 l1 (indirect_block (i_data inode)) s1 else Some s1);
        let num2 = num1 - l1;
        let l2 = min num2 (INDIRECT_BLOCKS_PER_SECTOR * INDIRECT_BLOCKS_PER_SECTOR);
        s3 \<leftarrow> (if l2 > 0 then inode_deallocate_indirect save 2 l2 (doubly_indirect_block (i_data inode)) s2 else Some s2);
        Some (True, assertion ''inode_deallocate'' (num2 - l2 = 0) s3) })"

section \<open>Reading and writing\<close>

definition inode_length :: "inode \<Rightarrow> int" where
  "inode_length inode = d_length (i_data inode)"

text \<open>\<^verbatim>\<open>%\<close> of C on signed integers.\<close>

definition c_rem :: "int \<Rightarrow> int \<Rightarrow> int" where
  "c_rem a b = (if a < 0 then - ((- a) mod b) else a mod b)"

definition chunk_size :: "inode \<Rightarrow> int \<Rightarrow> int \<Rightarrow> int option" where
  "chunk_size inode sz offset =
     do { inode_left \<leftarrow> chk32 (inode_length inode - offset);
          let sector_left = 512 - c_rem offset 512;
          let min_left = (if inode_left < sector_left then inode_left else sector_left);
          Some (if sz < min_left then sz else min_left) }"

text \<open>The loop of \<^verbatim>\<open>inode_read_at\<close>; \<open>buf\<close> is what has been stored in the caller's buffer so far. The test
  \<^verbatim>\<open>sector_idx < 0\<close> of the source is never true, because sector numbers are unsigned.\<close>

function read_loop :: "nat \<Rightarrow> int \<Rightarrow> int \<Rightarrow> byte list \<Rightarrow> 'a fstate_scheme \<Rightarrow> (byte list \<times> 'a fstate_scheme) option" where
  "read_loop i sz offset buf s =
     (if sz > 0 then
        do { inode \<leftarrow> inodes s i;
             (sector_idx, s1) \<leftarrow> byte_to_sector inode offset s;
             chunk \<leftarrow> chunk_size inode sz offset;
             if chunk \<le> 0 then Some (buf, s1)
             else if c_rem offset 512 = 0 \<and> chunk = 512
             then do { (d, s2) \<leftarrow> buffer_cache_read sector_idx s1;
                       read_loop i (sz - chunk) (offset + chunk) (buf @ d) s2 }
             else if \<not> malloc_ok s1 512 then Some (buf, s1)
             else do { (bounce, s2) \<leftarrow> buffer_cache_read sector_idx s1;
                       if c_rem offset 512 < 0 then None
                       else read_loop i (sz - chunk) (offset + chunk)
                              (buf @ slice (nat (c_rem offset 512)) (nat chunk) bounce) s2 } }
      else Some (buf, s))"
  by pat_completeness auto

termination read_loop
  by (relation "measure (\<lambda>(i, sz, offset, buf, s). nat sz)") auto

declare read_loop.simps [simp del]

definition inode_read_at :: "nat \<Rightarrow> int \<Rightarrow> int \<Rightarrow> 'a fstate_scheme \<Rightarrow> (byte list \<times> 'a fstate_scheme) option" where
  "inode_read_at i sz offset s = read_loop i sz offset [] s"

text \<open>The loop of \<^verbatim>\<open>inode_write_at\<close>; the result is the number of bytes written.\<close>

function write_loop :: "nat \<Rightarrow> byte list \<Rightarrow> int \<Rightarrow> int \<Rightarrow> int \<Rightarrow> 'a fstate_scheme \<Rightarrow> (int \<times> 'a fstate_scheme) option" where
  "write_loop i buf sz offset bytes_written s =
     (if sz > 0 then
        do { inode \<leftarrow> inodes s i;
             (sector_idx, s1) \<leftarrow> byte_to_sector inode offset s;
             chunk \<leftarrow> chunk_size inode sz offset;
             if chunk \<le> 0 then Some (bytes_written, s1)
             else if length buf < nat (bytes_written + chunk) then None
             else let bytes = slice (nat bytes_written) (nat chunk) buf; sector_ofs = c_rem offset 512
             in if sector_ofs = 0 \<and> chunk = 512
             then do { s2 \<leftarrow> buffer_cache_write sector_idx bytes s1;
                       write_loop i buf (sz - chunk) (offset + chunk) (bytes_written + chunk) s2 }
             else if \<not> malloc_ok s1 512 then Some (bytes_written, s1)
             else do { (bounce, s2) \<leftarrow>
                         (if sector_ofs > 0 \<or> chunk < 512 - sector_ofs then buffer_cache_read sector_idx s1
                          else Some (zeros, s1));
                       if sector_ofs < 0 then None
                       else do { s3 \<leftarrow> buffer_cache_write sector_idx (pwrite bounce (nat sector_ofs) bytes) s2;
                                 write_loop i buf (sz - chunk) (offset + chunk) (bytes_written + chunk) s3 } } }
      else Some (bytes_written, s))"
  by pat_completeness auto

termination write_loop
  by (relation "measure (\<lambda>(i, buf, sz, offset, w, s). nat sz)") auto

declare write_loop.simps [simp del]

definition set_inode :: "nat \<Rightarrow> inode \<Rightarrow> 'a fstate_scheme \<Rightarrow> 'a fstate_scheme" where
  "set_inode i inode s = s\<lparr>inodes := (inodes s)(i \<mapsto> inode)\<rparr>"

text \<open>The body of \<^verbatim>\<open>inode_write_at\<close>. Growing the inode of the free map itself would change the structure that
  saving the free map works on; its file has its full sz from the start, and the case is left undefined.\<close>

definition grows_free_map :: "nat \<Rightarrow> 'a fstate_scheme \<Rightarrow> bool" where
  "grows_free_map i s = (case free_map_file s of None \<Rightarrow> False
     | Some f \<Rightarrow> (case open_files s f of None \<Rightarrow> False | Some fl \<Rightarrow> f_inode fl = i))"

definition inode_extend :: "'a saver \<Rightarrow> nat \<Rightarrow> int \<Rightarrow> 'a fstate_scheme \<Rightarrow> (bool \<times> 'a fstate_scheme) option" where
  "inode_extend save i len s =
     (if grows_free_map i s then None
      else do { inode \<leftarrow> inodes s i;
                (success, data', s1) \<leftarrow> inode_reserve save (i_data inode) len s;
                if \<not> success then Some (False, set_inode i (inode\<lparr>i_data := data'\<rparr>) s1)
                else do { let data'' = data'\<lparr>d_length := len\<rparr>;
                          s2 \<leftarrow> buffer_cache_write (i_sector inode) (encode_inode data'')
                                  (set_inode i (inode\<lparr>i_data := data''\<rparr>) s1);
                          Some (True, s2) } })"

definition inode_write_with ::
    "'a saver \<Rightarrow> nat \<Rightarrow> byte list \<Rightarrow> int \<Rightarrow> int \<Rightarrow> 'a fstate_scheme \<Rightarrow> (int \<times> 'a fstate_scheme) option" where
  "inode_write_with save i buf sz offset s =
     do { inode \<leftarrow> inodes s i;
          if i_deny_write_cnt inode \<noteq> 0 then Some (0, s)
          else do { total \<leftarrow> chk32 (offset + sz);
                    last \<leftarrow> chk32 (total - 1);
                    (sector_idx, s1) \<leftarrow> byte_to_sector inode last s;
                    if sector_idx = - 1
                    then do { (success, s2) \<leftarrow> inode_extend save i total s1;
                              if success then write_loop i buf sz offset 0 s2 else Some (0, s2) }
                    else write_loop i buf sz offset 0 s1 } }"

definition file_write_at_with ::
    "(nat \<Rightarrow> byte list \<Rightarrow> int \<Rightarrow> int \<Rightarrow> 'a fstate_scheme \<Rightarrow> (int \<times> 'a fstate_scheme) option) \<Rightarrow>
     nat \<Rightarrow> byte list \<Rightarrow> int \<Rightarrow> int \<Rightarrow> 'a fstate_scheme \<Rightarrow> (int \<times> 'a fstate_scheme) option" where
  "file_write_at_with write f buf sz file_ofs s =
     do { fl \<leftarrow> open_files s f; write (f_inode fl) buf sz file_ofs s }"

definition bitmap_write_with ::
    "(nat \<Rightarrow> byte list \<Rightarrow> int \<Rightarrow> int \<Rightarrow> 'a fstate_scheme \<Rightarrow> (int \<times> 'a fstate_scheme) option) \<Rightarrow>
     bitmap \<Rightarrow> nat \<Rightarrow> 'a saver" where
  "bitmap_write_with write b f s =
     do { sz \<leftarrow> chk32 (int (byte_cnt (bit_cnt b)));
          (n, s1) \<leftarrow> file_write_at_with write f (bytes_of_words (bits b)) sz 0 s;
          Some (n = sz, s1) }"

text \<open>Saving the free map: a null \<^verbatim>\<open>free_map_file\<close> is dereferenced.\<close>

definition save_with ::
    "(nat \<Rightarrow> byte list \<Rightarrow> int \<Rightarrow> int \<Rightarrow> 'a fstate_scheme \<Rightarrow> (int \<times> 'a fstate_scheme) option) \<Rightarrow> 'a saver" where
  "save_with write s = do { f \<leftarrow> free_map_file s; bitmap_write_with write (free_map s) f s }"

primrec inode_write_at ::
    "nat \<Rightarrow> nat \<Rightarrow> byte list \<Rightarrow> int \<Rightarrow> int \<Rightarrow> 'a fstate_scheme \<Rightarrow> (int \<times> 'a fstate_scheme) option" where
  "inode_write_at 0 i buf sz offset s = None"
| "inode_write_at (Suc fuel) i buf sz offset s =
     inode_write_with (save_with (\<lambda>i buf sz offset t. inode_write_at fuel i buf sz offset t)) i buf sz offset s"


text \<open>The operation that saves the free map, with fuel for the writes it makes.\<close>

definition save_map :: "nat \<Rightarrow> 'a saver" where
  "save_map fuel = save_with (\<lambda>i buf sz offset t. inode_write_at fuel i buf sz offset t)"

section \<open>Opening, closing and creating inodes\<close>

definition inode_init :: "'a fstate_scheme \<Rightarrow> 'a fstate_scheme" where
  "inode_init s = s\<lparr>open_inodes := []\<rparr>"

definition new_inode_disk :: "int \<Rightarrow> bool \<Rightarrow> inode_disk" where
  "new_inode_disk len dir =
     \<lparr>direct_blocks = replicate DIRECT_BLOCKS_COUNT 0, indirect_block = 0, doubly_indirect_block = 0,
      is_dir = dir, d_length = len, magic = INODE_MAGIC\<rparr>"

definition inode_create :: "'a saver \<Rightarrow> block_sector_t \<Rightarrow> int \<Rightarrow> bool \<Rightarrow> 'a fstate_scheme \<Rightarrow> (bool \<times> 'a fstate_scheme) option" where
  "inode_create save sector len dir s =
     do { let s0 = assertion ''inode_create'' (len \<ge> 0) s;
          if malloc_ok s0 512
          then do { (ok, d, s1) \<leftarrow> inode_allocate save (new_inode_disk len dir) s0;
                    if ok then do { s2 \<leftarrow> buffer_cache_write sector (encode_inode d) s1; Some (True, s2) }
                    else Some (False, s1) }
          else Some (False, s0) }"

definition inode_reopen :: "nat \<Rightarrow> nat" where
  "inode_reopen i = i"

primrec find_inode :: "block_sector_t \<Rightarrow> nat list \<Rightarrow> 'a fstate_scheme \<Rightarrow> nat option option" where
  "find_inode sector [] s = Some None"
| "find_inode sector (i # is) s =
     do { inode \<leftarrow> inodes s i; if i_sector inode = sector then Some (Some i) else find_inode sector is s }"

definition inode_open :: "block_sector_t \<Rightarrow> 'a fstate_scheme \<Rightarrow> (nat option \<times> 'a fstate_scheme) option" where
  "inode_open sector s =
     do { r \<leftarrow> find_inode sector (open_inodes s) s;
          case r of
            Some i \<Rightarrow> Some (Some (inode_reopen i), s)
          | None \<Rightarrow>
              if \<not> malloc_ok s 544 then Some (None, s)
              else do { let i = next_inode s;
                        (d, s1) \<leftarrow> buffer_cache_read sector (s\<lparr>open_inodes := i # open_inodes s, next_inode := Suc i\<rparr>);
                        Some (Some i, set_inode i \<lparr>i_sector = sector, i_open_cnt = 1, i_removed = False,
                                                   i_deny_write_cnt = 0, i_data = decode_inode d\<rparr> s1) } }"

definition inode_get_inumber :: "inode \<Rightarrow> block_sector_t" where
  "inode_get_inumber inode = i_sector inode"

definition inode_close :: "'a saver \<Rightarrow> nat option \<Rightarrow> 'a fstate_scheme \<Rightarrow> 'a fstate_scheme option" where
  "inode_close save p s =
     (case p of
        None \<Rightarrow> Some s
      | Some i \<Rightarrow>
          do { inode \<leftarrow> inodes s i;
               cnt \<leftarrow> chk32 (i_open_cnt inode - 1);
               let inode' = inode\<lparr>i_open_cnt := cnt\<rparr>;
               let s1 = set_inode i inode' s;
               if cnt = 0
               then do { let s2 = s1\<lparr>open_inodes := remove1 i (open_inodes s1)\<rparr>;
                         s3 \<leftarrow> (if i_removed inode'
                               then do { s3 \<leftarrow> free_map_release save (i_sector inode') 1 s2;
                                         (_, s4) \<leftarrow> inode_deallocate save inode' s3;
                                         Some s4 }
                               else Some s2);
                         Some (s3\<lparr>inodes := (inodes s3)(i := None)\<rparr>) }
               else Some s1 })"

definition inode_remove :: "nat \<Rightarrow> 'a fstate_scheme \<Rightarrow> 'a fstate_scheme option" where
  "inode_remove i s = do { inode \<leftarrow> inodes s i; Some (set_inode i (inode\<lparr>i_removed := True\<rparr>) s) }"

definition inode_deny_write :: "nat \<Rightarrow> 'a fstate_scheme \<Rightarrow> 'a fstate_scheme option" where
  "inode_deny_write i s =
     do { inode \<leftarrow> inodes s i;
          cnt \<leftarrow> chk32 (i_deny_write_cnt inode + 1);
          Some (assertion ''inode_deny_write'' (cnt \<le> i_open_cnt inode) (set_inode i (inode\<lparr>i_deny_write_cnt := cnt\<rparr>) s)) }"

definition inode_allow_write :: "nat \<Rightarrow> 'a fstate_scheme \<Rightarrow> 'a fstate_scheme option" where
  "inode_allow_write i s =
     do { inode \<leftarrow> inodes s i;
          cnt \<leftarrow> chk32 (i_deny_write_cnt inode - 1);
          let s1 = assertion ''inode_allow_write'' (i_deny_write_cnt inode > 0) s;
          let s2 = assertion ''inode_allow_write'' (i_deny_write_cnt inode \<le> i_open_cnt inode) s1;
          Some (set_inode i (inode\<lparr>i_deny_write_cnt := cnt\<rparr>) s2) }"

definition inode_is_directory :: "inode \<Rightarrow> bool" where
  "inode_is_directory inode = is_dir (i_data inode)"

definition inode_is_removed :: "inode \<Rightarrow> bool" where
  "inode_is_removed inode = i_removed inode"

text \<open>The sectors of a file, in order. A negative length gives a null pointer.\<close>

fun indirect_sectors :: "nat \<Rightarrow> block_sector_t list \<Rightarrow> nat \<Rightarrow> 'a fstate_scheme \<Rightarrow> (block_sector_t list \<times> 'a fstate_scheme) option" where
  "indirect_sectors 0 bs num s = Some ([], s)"
| "indirect_sectors (Suc l) [] num s = None"
| "indirect_sectors (Suc l) (b # bs) num s =
     do { let subsize = min num INDIRECT_BLOCKS_PER_SECTOR;
          (d, s1) \<leftarrow> buffer_cache_read b s;
          (rest, s2) \<leftarrow> indirect_sectors l bs (num - subsize) s1;
          Some (read_blocks (DIV_ROUND_UP subsize 1) d @ rest, s2) }"

definition single_indirect_sectors :: "inode_disk \<Rightarrow> nat \<Rightarrow> 'a fstate_scheme \<Rightarrow> (block_sector_t list \<times> 'a fstate_scheme) option" where
  "single_indirect_sectors idisk l s =
     (if l > 0 then do { (d, s1) \<leftarrow> buffer_cache_read (indirect_block idisk) s; Some (read_blocks (DIV_ROUND_UP l 1) d, s1) }
      else Some ([], s))"

definition double_indirect_sectors :: "inode_disk \<Rightarrow> nat \<Rightarrow> 'a fstate_scheme \<Rightarrow> (block_sector_t list \<times> 'a fstate_scheme) option" where
  "double_indirect_sectors idisk l s =
     (if l > 0 then do { (d, s1) \<leftarrow> buffer_cache_read (doubly_indirect_block idisk) s;
                         indirect_sectors (DIV_ROUND_UP l INDIRECT_BLOCKS_PER_SECTOR) (read_blocks 128 d) l s1 }
      else Some ([], s))"

definition get_inode_data_sectors :: "inode \<Rightarrow> 'a fstate_scheme \<Rightarrow> (block_sector_t list option \<times> 'a fstate_scheme) option" where
  "get_inode_data_sectors inode s =
     (if d_length (i_data inode) < 0 then Some (None, s)
      else do {
        num0 \<leftarrow> bytes_to_sectors (d_length (i_data inode));
        _ \<leftarrow> (if malloc_ok s (4 * num0) \<or> num0 = 0 then Some () else None);
        let l0 = min num0 DIRECT_BLOCKS_COUNT;
        _ \<leftarrow> (if l0 \<le> length (direct_blocks (i_data inode)) then Some () else None);
        let num1 = num0 - l0;
        let l1 = min num1 INDIRECT_BLOCKS_PER_SECTOR;
        (xs1, s1) \<leftarrow> single_indirect_sectors (i_data inode) l1 s;
        let num2 = num1 - l1;
        let l2 = min num2 (INDIRECT_BLOCKS_PER_SECTOR * INDIRECT_BLOCKS_PER_SECTOR);
        (xs2, s2) \<leftarrow> double_indirect_sectors (i_data inode) l2 s1;
        Some (Some (take l0 (direct_blocks (i_data inode)) @ xs1 @ xs2),
              assertion ''get_inode_data_sectors'' (num2 - l2 = 0) s2) })"

section \<open>The free map file\<close>

text \<open>\<^verbatim>\<open>file_open\<close> and \<^verbatim>\<open>file_close\<close>, which the free map uses, are given here; the other file operations have
  a theory of their own.\<close>

definition file_open :: "'a saver \<Rightarrow> nat option \<Rightarrow> 'a fstate_scheme \<Rightarrow> (nat option \<times> 'a fstate_scheme) option" where
  "file_open save p s =
     (case p of
        Some i \<Rightarrow>
          if malloc_ok s 16
          then Some (Some (next_file s),
                     s\<lparr>open_files := (open_files s)(next_file s \<mapsto> \<lparr>f_inode = i, f_pos = 0, f_deny_write = False\<rparr>),
                       next_file := Suc (next_file s)\<rparr>)
          else do { s1 \<leftarrow> inode_close save p s; Some (None, s1) }
      | None \<Rightarrow> do { s1 \<leftarrow> inode_close save p s; Some (None, s1) })"

definition file_allow_write :: "nat \<Rightarrow> 'a fstate_scheme \<Rightarrow> 'a fstate_scheme option" where
  "file_allow_write f s =
     do { fl \<leftarrow> open_files s f;
          if f_deny_write fl
          then inode_allow_write (f_inode fl) (s\<lparr>open_files := (open_files s)(f \<mapsto> fl\<lparr>f_deny_write := False\<rparr>)\<rparr>)
          else Some s }"

definition file_close :: "'a saver \<Rightarrow> nat option \<Rightarrow> 'a fstate_scheme \<Rightarrow> 'a fstate_scheme option" where
  "file_close save p s =
     (case p of
        None \<Rightarrow> Some s
      | Some f \<Rightarrow>
          do { s1 \<leftarrow> file_allow_write f s;
               fl \<leftarrow> open_files s1 f;
               s2 \<leftarrow> inode_close save (Some (f_inode fl)) s1;
               Some (s2\<lparr>open_files := (open_files s2)(f := None)\<rparr>) })"

definition file_read_at :: "nat \<Rightarrow> int \<Rightarrow> int \<Rightarrow> 'a fstate_scheme \<Rightarrow> (byte list \<times> 'a fstate_scheme) option" where
  "file_read_at f sz file_ofs s = do { fl \<leftarrow> open_files s f; inode_read_at (f_inode fl) sz file_ofs s }"

definition bitmap_read :: "bitmap \<Rightarrow> nat \<Rightarrow> 'a fstate_scheme \<Rightarrow> (bool \<times> bitmap \<times> 'a fstate_scheme) option" where
  "bitmap_read b f s =
     (if bit_cnt b > 0
      then do { sz \<leftarrow> chk32 (int (byte_cnt (bit_cnt b)));
                (bytes, s1) \<leftarrow> file_read_at f sz 0 s;
                let ws = words_of_bytes (length (bits b)) (bytes @ drop (length bytes) (bytes_of_words (bits b)));
                b' \<leftarrow> update_elem (\<lambda>w. w AND last_mask b) (b\<lparr>bits := ws\<rparr>) (elem_cnt (bit_cnt b) - 1);
                Some (int (length bytes) = sz, b', s1) }
      else Some (True, b, s))"

definition FREE_MAP_SECTOR :: block_sector_t where
  "FREE_MAP_SECTOR = 0"

definition ROOT_DIR_SECTOR :: block_sector_t where
  "ROOT_DIR_SECTOR = 1"

text \<open>After a failed creation the source goes on with a null bitmap, which \<^verbatim>\<open>bitmap_mark\<close> dereferences.\<close>

definition free_map_init :: "'a fstate_scheme \<Rightarrow> 'a fstate_scheme option" where
  "free_map_init s =
     do { n \<leftarrow> block_size s (fs_device s);
          (r, con) \<leftarrow> bitmap_create (malloc_ok s) (unat (n - 1)) (console s);
          b \<leftarrow> r;
          b1 \<leftarrow> bitmap_mark b (unat FREE_MAP_SECTOR);
          b2 \<leftarrow> bitmap_mark b1 (unat ROOT_DIR_SECTOR);
          Some (s\<lparr>free_map := b2, console := con\<rparr>) }"

definition free_map_open :: "'a saver \<Rightarrow> 'a fstate_scheme \<Rightarrow> 'a fstate_scheme option" where
  "free_map_open save s =
     do { (i, s1) \<leftarrow> inode_open FREE_MAP_SECTOR s;
          (p, s2) \<leftarrow> file_open save i s1;
          let s3 = s2\<lparr>free_map_file := p\<rparr>;
          f \<leftarrow> p;
          (ok, b, s4) \<leftarrow> bitmap_read (free_map s3) f s3;
          let s5 = s4\<lparr>free_map := b\<rparr>;
          Some (if ok then s5 else panic ''free_map_open'' ''can't read free map'' s5) }"

definition free_map_close :: "'a saver \<Rightarrow> 'a fstate_scheme \<Rightarrow> 'a fstate_scheme option" where
  "free_map_close save s = file_close save (free_map_file s) s"

definition free_map_create :: "nat \<Rightarrow> 'a fstate_scheme \<Rightarrow> 'a fstate_scheme option" where
  "free_map_create fuel s =
     do { sz \<leftarrow> chk32 (int (bitmap_file_size (free_map s)));
          (ok, s1) \<leftarrow> inode_create (save_map fuel) FREE_MAP_SECTOR sz False s;
          let s2 = (if ok then s1 else panic ''free_map_create'' ''free map creation failed'' s1);
          (i, s3) \<leftarrow> inode_open FREE_MAP_SECTOR s2;
          (p, s4) \<leftarrow> file_open (save_map fuel) i s3;
          let s5 = s4\<lparr>free_map_file := p\<rparr>;
          (saved, s6) \<leftarrow> save_map fuel s5;
          Some (if saved then s6 else panic ''free_map_create'' ''can't write free map'' s6) }"

end
