(* ===== verification/Inode_Data.thy ===== *)
theory Inode_Data
  imports Inode
begin

text \<open>
  What the operations on inodes do, seen from above: an inode denotes the list of bytes of its file.
  The block map of an inode (direct, indirect, doubly indirect) is read as the function \<open>sector_at\<close> from
  indices to sectors; reading returns a slice of the bytes of the file, and writing inside the file replaces one.
\<close>

section \<open>The block map\<close>

definition sector_at :: "(block_sector_t \<Rightarrow> sector_data) \<Rightarrow> inode_disk \<Rightarrow> nat \<Rightarrow> block_sector_t" where
  "sector_at C d i =
     (if i < 123 then direct_blocks d ! i
      else if i < 251 then block_word (C (indirect_block d)) (i - 123)
      else block_word (C (block_word (C (doubly_indirect_block d)) ((i - 251) div 128))) ((i - 251) mod 128))"

text \<open>The sectors that hold the block map of the first \<open>k\<close> indices.\<close>

definition map_sectors :: "(block_sector_t \<Rightarrow> sector_data) \<Rightarrow> inode_disk \<Rightarrow> nat \<Rightarrow> block_sector_t set" where
  "map_sectors C d k =
     (if 123 < k then {indirect_block d} else {}) \<union>
     (if 251 < k then insert (doubly_indirect_block d) {block_word (C (doubly_indirect_block d)) j | j. 251 + 128 * j < k} else {})"

definition mapped :: "nat \<Rightarrow> (block_sector_t \<Rightarrow> sector_data) \<Rightarrow> inode_disk \<Rightarrow> nat \<Rightarrow> bool" where
  "mapped n C d k \<longleftrightarrow> length (direct_blocks d) = 123 \<and> k \<le> 251 + 128 * 128 \<and>
     (\<forall>q\<in>map_sectors C d k. valid_sector n q) \<and> (\<forall>i<k. valid_sector n (sector_at C d i))"

definition agree :: "block_sector_t set \<Rightarrow> (block_sector_t \<Rightarrow> sector_data) \<Rightarrow> (block_sector_t \<Rightarrow> sector_data) \<Rightarrow> bool" where
  "agree S C C' \<longleftrightarrow> (\<forall>q\<in>S. C' q = C q)"

lemma map_sectorsI:
  "123 < k \<Longrightarrow> indirect_block d \<in> map_sectors C d k"
  "251 < k \<Longrightarrow> doubly_indirect_block d \<in> map_sectors C d k"
  "251 + 128 * j < k \<Longrightarrow> block_word (C (doubly_indirect_block d)) j \<in> map_sectors C d k"
  by (auto simp: map_sectors_def)

lemma second_level: "251 \<le> i \<Longrightarrow> i < k \<Longrightarrow> 251 + 128 * ((i - 251) div 128) < (k::nat)"
  using times_div_less_eq_dividend [of 128 "i - 251"] by linarith

lemma sector_at_agree:
  assumes "agree (map_sectors C d k) C C'" "i < k"
  shows "sector_at C' d i = sector_at C d i"
proof -
  have *: "q \<in> map_sectors C d k \<Longrightarrow> C' q = C q" for q using assms(1) by (simp add: agree_def)
  consider "i < 123" | "123 \<le> i" "i < 251" | "251 \<le> i" by linarith
  then show ?thesis
  proof cases
    case 2
    then have "C' (indirect_block d) = C (indirect_block d)" using assms(2) by (intro * map_sectorsI) auto
    with 2 show ?thesis by (simp add: sector_at_def)
  next
    case 3
    then have "C' (doubly_indirect_block d) = C (doubly_indirect_block d)" using assms(2) by (intro * map_sectorsI) auto
    moreover have "C' (block_word (C (doubly_indirect_block d)) ((i - 251) div 128)) =
        C (block_word (C (doubly_indirect_block d)) ((i - 251) div 128))"
      using second_level [OF 3 assms(2)] by (intro * map_sectorsI)
    ultimately show ?thesis using 3 by (simp add: sector_at_def)
  qed (simp add: sector_at_def)
qed

lemma map_sectors_agree:
  assumes "agree (map_sectors C d k) C C'"
  shows "map_sectors C' d k = map_sectors C d k"
proof -
  have "251 < k \<Longrightarrow> C' (doubly_indirect_block d) = C (doubly_indirect_block d)"
    using assms map_sectorsI(2) by (auto simp: agree_def)
  then show ?thesis by (auto simp: map_sectors_def)
qed

lemma mapped_agree:
  assumes "mapped n C d k" "agree (map_sectors C d k) C C'"
  shows "mapped n C' d k"
  using assms(1) map_sectors_agree [OF assms(2)] sector_at_agree [OF assms(2)] by (simp add: mapped_def)

lemma map_sectors_mono: "j \<le> k \<Longrightarrow> map_sectors C d j \<subseteq> map_sectors C d k"
  by (auto simp: map_sectors_def dest: order_less_le_trans)

lemma mapped_less: "mapped n C d k \<Longrightarrow> j \<le> k \<Longrightarrow> mapped n C d j"
  using map_sectors_mono [of j k C d] by (auto simp: mapped_def)

lemma index_to_sector_keeps:
  assumes "cache_inv n s" "mapped n (cache_content s) d k" "i < k" "malloc_ok s 512"
  shows "\<exists>s'. index_to_sector d (int i) s = Some (sector_at (cache_content s) d i, s') \<and> cache_keeps n s s'"
proof -
  let ?C = "cache_content s"
  have v: "q \<in> map_sectors ?C d k \<Longrightarrow> valid_sector n q" for q using assms(2) by (simp add: mapped_def)
  consider "i < 123" | "123 \<le> i" "i < 251" | "251 \<le> i" by linarith
  then show ?thesis
  proof cases
    case 1
    with assms cache_keeps_refl [OF assms(1)] show ?thesis by (simp add: index_to_sector_def sector_at_def mapped_def)
  next
    case 2
    with assms(3) have "valid_sector n (indirect_block d)" by (intro v map_sectorsI) auto
    from read_keeps [OF assms(1) this] obtain s1 where
      "buffer_cache_read (indirect_block d) s = Some (?C (indirect_block d), s1)" "cache_keeps n s s1" by blast
    with 2 assms(4) show ?thesis by (simp add: index_to_sector_def sector_at_def nat_diff_distrib)
  next
    case 3
    let ?e = "block_word (?C (doubly_indirect_block d)) ((i - 251) div 128)"
    have vd: "valid_sector n (doubly_indirect_block d)" using 3 assms(3) by (intro v map_sectorsI) auto
    have ve: "valid_sector n ?e" using second_level [OF 3 assms(3)] by (intro v map_sectorsI)
    from read_keeps [OF assms(1) vd] obtain s1 where
      s1: "buffer_cache_read (doubly_indirect_block d) s = Some (?C (doubly_indirect_block d), s1)" "cache_keeps n s s1" by blast
    then have "cache_inv n s1" by (simp add: cache_keeps_def)
    from read_keeps [OF this ve] obtain s2 where
      s2: "buffer_cache_read ?e s1 = Some (cache_content s1 ?e, s2)" "cache_keeps n s1 s2" by blast
    have "cache_content s1 ?e = ?C ?e" using s1(2) ve by (simp add: cache_keeps_def)
    moreover have "nat ((int i - 251) div 128) = (i - 251) div 128" "nat ((int i - 251) mod 128) = (i - 251) mod 128"
      using 3 by (auto simp: nat_div_distrib nat_mod_distrib nat_diff_distrib)
    moreover have "int i < 16635" using assms(2,3) by (simp add: mapped_def)
    ultimately show ?thesis using 3 s1 s2 assms(4) cache_keeps_trans [OF s1(2) s2(2)]
      by (simp add: index_to_sector_def sector_at_def)
  qed
qed

section \<open>The bytes of a file\<close>

definition byte_at :: "(block_sector_t \<Rightarrow> sector_data) \<Rightarrow> inode_disk \<Rightarrow> nat \<Rightarrow> byte" where
  "byte_at C d p = C (sector_at C d (p div 512)) ! (p mod 512)"

definition sectors :: "inode_disk \<Rightarrow> nat" where
  "sectors d = (nat (d_length d) + 511) div 512"

definition inode_bytes :: "(block_sector_t \<Rightarrow> sector_data) \<Rightarrow> inode_disk \<Rightarrow> byte list" where
  "inode_bytes C d = map (byte_at C d) [0..<nat (d_length d)]"

definition disk_ok :: "nat \<Rightarrow> (block_sector_t \<Rightarrow> sector_data) \<Rightarrow> inode_disk \<Rightarrow> bool" where
  "disk_ok n C d \<longleftrightarrow> 0 \<le> d_length d \<and> d_length d + 512 < 2 ^ 31 \<and> mapped n C d (sectors d)"

lemma length_inode_bytes [simp]: "length (inode_bytes C d) = nat (d_length d)"
  by (simp add: inode_bytes_def)

lemma slice_inode_bytes:
  "slice p c (inode_bytes C d) = map (byte_at C d) [p..<min (p + c) (nat (d_length d))]"
  by (simp add: slice_def inode_bytes_def take_map drop_map min_def add.commute)

lemma sector_of_pos: "p < nat (d_length d) \<Longrightarrow> p div 512 < sectors d"
  using div_le_mono [of "p + 512" "nat (d_length d) + 511" 512] by (simp add: sectors_def)

lemma chunk_bytes:
  assumes "p mod 512 + c \<le> 512" "length (C (sector_at C d (p div 512))) = 512"
  shows "slice (p mod 512) c (C (sector_at C d (p div 512))) = map (byte_at C d) [p..<p + c]"
proof (rule nth_equalityI)
  show "length (slice (p mod 512) c (C (sector_at C d (p div 512)))) = length (map (byte_at C d) [p..<p + c])"
    using assms by simp
  fix j assume "j < length (slice (p mod 512) c (C (sector_at C d (p div 512))))"
  with assms have j: "j < c" by simp
  have "p = 512 * (p div 512) + p mod 512" by simp
  then have "p + j = 512 * (p div 512) + (p mod 512 + j)" by linarith
  moreover have "p mod 512 + j < 512" using j assms(1) by simp
  ultimately have "(p + j) div 512 = p div 512" "(p + j) mod 512 = p mod 512 + j"
    by (metis add.right_neutral div_less div_mult_self4 zero_neq_numeral) (metis \<open>p + j = 512 * (p div 512) + (p mod 512 + j)\<close> \<open>p mod 512 + j < 512\<close> mod_less mod_mult_self4)
  with j assms show "slice (p mod 512) c (C (sector_at C d (p div 512))) ! j = map (byte_at C d) [p..<p + c] ! j"
    by (simp add: byte_at_def)
qed

section \<open>Reading\<close>

lemma cache_keeps_more:
  fixes s s' :: "'a fstate_scheme"
  assumes "cstate.more s' = cstate.more s"
  shows "malloc_ok s' = malloc_ok s" "inodes s' = inodes s" "open_inodes s' = open_inodes s" "next_inode s' = next_inode s"
    "open_files s' = open_files s" "next_file s' = next_file s" "free_map s' = free_map s"
    "free_map_file s' = free_map_file s" "fstate.more s' = fstate.more s"
  using assms by (cases s; cases s'; simp)+

lemma agree_keeps:
  assumes "cache_keeps n s s'" "mapped n (cache_content s) d k"
  shows "agree (map_sectors (cache_content s) d k) (cache_content s) (cache_content s')"
  using assms by (auto simp: agree_def cache_keeps_def mapped_def)

lemma byte_at_keeps:
  assumes "cache_keeps n s s'" "disk_ok n (cache_content s) d" "p < nat (d_length d)"
  shows "byte_at (cache_content s') d p = byte_at (cache_content s) d p"
proof -
  have m: "mapped n (cache_content s) d (sectors d)" using assms(2) by (simp add: disk_ok_def)
  note sec = sector_of_pos [OF assms(3)]
  have "valid_sector n (sector_at (cache_content s) d (p div 512))" using m sec by (simp add: mapped_def)
  with sector_at_agree [OF agree_keeps [OF assms(1) m] sec] assms(1) show ?thesis
    by (simp add: byte_at_def cache_keeps_def)
qed

lemma disk_ok_keeps:
  assumes "cache_keeps n s s'" "disk_ok n (cache_content s) d"
  shows "disk_ok n (cache_content s') d" "inode_bytes (cache_content s') d = inode_bytes (cache_content s) d"
proof -
  show "disk_ok n (cache_content s') d"
    using assms mapped_agree agree_keeps [OF assms(1)] by (auto simp: disk_ok_def)
  show "inode_bytes (cache_content s') d = inode_bytes (cache_content s) d"
    using byte_at_keeps [OF assms] by (simp add: inode_bytes_def)
qed

lemma byte_to_sector_keeps:
  assumes "cache_inv n s" "disk_ok n (cache_content s) (i_data inode)" "0 \<le> p" "p < d_length (i_data inode)" "malloc_ok s 512"
  shows "\<exists>s'. byte_to_sector inode p s = Some (sector_at (cache_content s) (i_data inode) (nat p div 512), s') \<and>
              cache_keeps n s s'"
proof -
  have "p div 512 = int (nat p div 512)" using assms(3) by (simp add: zdiv_int)
  moreover have "nat p div 512 < sectors (i_data inode)" using assms(3,4) by (intro sector_of_pos) auto
  ultimately show ?thesis using assms index_to_sector_keeps [OF assms(1), of "i_data inode" "sectors (i_data inode)" "nat p div 512"]
    by (simp add: byte_to_sector_def disk_ok_def)
qed

lemma chunk_size_eq:
  assumes "0 \<le> p" "0 \<le> inode_length inode" "int32 p" "int32 (inode_length inode)"
  shows "chunk_size inode sz p = Some (min sz (min (inode_length inode - p) (512 - p mod 512)))"
proof -
  have "int32 (inode_length inode - p)" using assms by (auto simp: int32_def)
  with assms(1) show ?thesis by (auto simp: chunk_size_def c_rem_def min_def Let_def)
qed

definition inode_ok :: "nat \<Rightarrow> nat \<Rightarrow> inode \<Rightarrow> 'a fstate_scheme \<Rightarrow> bool" where
  "inode_ok n i inode s \<longleftrightarrow> cache_inv n s \<and> malloc_ok s 512 \<and> inodes s i = Some inode \<and> disk_ok n (cache_content s) (i_data inode)"

definition inode_content :: "inode \<Rightarrow> 'a fstate_scheme \<Rightarrow> byte list" where
  "inode_content inode s = inode_bytes (cache_content s) (i_data inode)"

lemma inode_ok_keeps:
  assumes "inode_ok n i inode s" "cache_keeps n s s'"
  shows "inode_ok n i inode s'" "inode_content inode s' = inode_content inode s"
proof -
  have "cstate.more s' = cstate.more s" using assms(2) by (simp add: cache_keeps_def)
  note m = cache_keeps_more [OF this]
  show "inode_ok n i inode s'" "inode_content inode s' = inode_content inode s"
    using assms m disk_ok_keeps [OF assms(2), of "i_data inode"]
    by (auto simp: inode_ok_def inode_content_def cache_keeps_def)
qed

lemma upt_split: "p \<le> q \<Longrightarrow> q \<le> r \<Longrightarrow> [p..<r] = [p..<q] @ [q..<r]"
  using upt_add_eq_append [of p q "r - q"] by simp

lemma slice_append:
  "a + b = c \<Longrightarrow> slice p a xs @ slice (p + a) b xs = slice p c xs"
  by (auto simp: slice_def take_add add.commute)

lemma read_loop_reads:
  "inode_ok n i inode s \<Longrightarrow> 0 \<le> p \<Longrightarrow> int32 p \<Longrightarrow>
   \<exists>s'. read_loop i sz p buf s = Some (buf @ slice (nat p) (nat sz) (inode_content inode s), s') \<and> cache_keeps n s s'"
proof (induction "nat sz" arbitrary: sz p buf s rule: less_induct)
  case less
  note ok = less.prems(1)
  have inv: "cache_inv n s" and i: "inodes s i = Some inode" and m: "malloc_ok s 512"
    and d: "disk_ok n (cache_content s) (i_data inode)" using ok by (simp_all add: inode_ok_def)
  let ?L = "inode_length inode"
  have L: "0 \<le> ?L" "int32 ?L" using d by (auto simp: disk_ok_def inode_length_def int32_def)
  define c where "c = min sz (min (?L - p) (512 - p mod 512))"
  have cs: "chunk_size inode sz p = Some c" using chunk_size_eq [OF less.prems(2) L(1) less.prems(3) L(2)] by (simp add: c_def)
  show ?case
  proof (cases "sz > 0 \<and> p < ?L")
    case False
    show ?thesis
    proof (cases "sz > 0")
      case True
      with False have "c \<le> 0" "byte_to_sector inode p s = Some (- 1, s)"
        by (auto simp: c_def byte_to_sector_def inode_length_def)
      moreover have "slice (nat p) (nat sz) (inode_content inode s) = []"
        using False True by (simp add: slice_def inode_content_def inode_length_def)
      ultimately show ?thesis using True i cs cache_keeps_refl [OF inv] by (simp add: read_loop.simps)
    qed (use cache_keeps_refl [OF inv] in \<open>simp add: read_loop.simps\<close>)
  next
    case True
    have c: "0 < c" "c \<le> sz" "c \<le> ?L - p" "p mod 512 + c \<le> 512" using True by (auto simp: c_def)
    let ?q = "sector_at (cache_content s) (i_data inode) (nat p div 512)"
    from byte_to_sector_keeps [OF inv d less.prems(2) _ m] True obtain s1 where
      s1: "byte_to_sector inode p s = Some (?q, s1)" "cache_keeps n s s1" by (auto simp: inode_length_def)
    have sec: "nat p div 512 < sectors (i_data inode)" using True less.prems(2) by (intro sector_of_pos) (simp add: inode_length_def)
    then have vq: "valid_sector n ?q" using d by (simp add: disk_ok_def mapped_def)
    have inv1: "cache_inv n s1" using s1(2) by (simp add: cache_keeps_def)
    from read_keeps [OF inv1 vq] obtain s2 where
      s2: "buffer_cache_read ?q s1 = Some (cache_content s1 ?q, s2)" "cache_keeps n s1 s2" by blast
    have C1: "cache_content s1 ?q = cache_content s ?q" using s1(2) vq by (simp add: cache_keeps_def)
    have len: "length (cache_content s ?q) = 512" using bc.content_length [OF inv vq] .
    have k2: "cache_keeps n s s2" using cache_keeps_trans [OF s1(2) s2(2)] .
    note ok2 = inode_ok_keeps [OF ok k2]
    have pm: "nat (p mod 512) = nat p mod 512" using less.prems(2) by (simp add: nat_mod_distrib)
    have fit: "nat p mod 512 + nat c \<le> 512" using c(1,4) pm less.prems(2) by linarith
    have inside: "min (nat p + nat c) (nat ?L) = nat p + nat c" using c(1,3) less.prems(2) by linarith
    have chunk: "slice (nat p mod 512) (nat c) (cache_content s ?q) = slice (nat p) (nat c) (inode_content inode s)"
      using chunk_bytes [of "nat p" "nat c" "cache_content s" "i_data inode", OF fit len] inside by (simp add: slice_inode_bytes inode_content_def inode_length_def)
    have ps: "nat (p + c) = nat p + nat c" using c(1) less.prems(2) by (simp add: nat_add_distrib)
    have "int32 (p + c)" using c less.prems(2) L by (auto simp: int32_def)
    moreover have "nat (sz - c) < nat sz" "0 \<le> p + c" using c less.prems(2) by auto
    ultimately obtain s' where IH: "read_loop i (sz - c) (p + c) (buf @ slice (nat p) (nat c) (inode_content inode s)) s2 =
        Some ((buf @ slice (nat p) (nat c) (inode_content inode s)) @ slice (nat (p + c)) (nat (sz - c)) (inode_content inode s), s')"
      "cache_keeps n s2 s'"
      using less.hyps [OF _ ok2(1), of "sz - c" "p + c" "buf @ slice (nat p) (nat c) (inode_content inode s)"]
      by (auto simp: ok2(2))
    have whole: "slice (nat p) (nat c) (inode_content inode s) @ slice (nat (p + c)) (nat (sz - c)) (inode_content inode s) =
        slice (nat p) (nat sz) (inode_content inode s)"
      unfolding ps using c(1,2) by (intro slice_append) linarith
    have full: "cache_content s ?q = slice (nat p) (nat c) (inode_content inode s)" if "p mod 512 = 0" "c = 512"
      using chunk that len pm by (simp add: slice_def)
    have rem: "c_rem p 512 = p mod 512" "0 \<le> p mod 512" using less.prems(2) by (simp_all add: c_rem_def)
    have m1: "malloc_ok s1 512" using cache_keeps_more(1) s1(2) m by (metis cache_keeps_def)
    have "read_loop i sz p buf s = read_loop i (sz - c) (p + c) (buf @ slice (nat p) (nat c) (inode_content inode s)) s2"
      using True i s1 s2 cs c(1) m1 rem chunk full pm C1
      by (subst read_loop.simps) (cases "p mod 512 = 0 \<and> c = 512", auto)
    with IH whole cache_keeps_trans [OF k2 IH(2)] show ?thesis by simp
  qed
qed

lemma inode_read_at_reads:
  assumes "inode_ok n i inode s" "0 \<le> p" "int32 p"
  shows "\<exists>s'. inode_read_at i sz p s = Some (slice (nat p) (nat sz) (inode_content inode s), s') \<and> cache_keeps n s s'"
  using read_loop_reads [OF assms, of sz "[]"] by (simp add: inode_read_at_def)


section \<open>Writing inside the file\<close>

definition data_sectors :: "(block_sector_t \<Rightarrow> sector_data) \<Rightarrow> inode_disk \<Rightarrow> block_sector_t set" where
  "data_sectors C d = sector_at C d ` {..<sectors d}"

text \<open>No sector is used twice: neither by two parts of the file nor by the file and its block map.\<close>

definition disk_inj :: "(block_sector_t \<Rightarrow> sector_data) \<Rightarrow> inode_disk \<Rightarrow> bool" where
  "disk_inj C d \<longleftrightarrow> inj_on (sector_at C d) {..<sectors d} \<and> data_sectors C d \<inter> map_sectors C d (sectors d) = {}"

lemma agree_data:
  assumes "disk_inj C d" "\<And>q. q \<notin> data_sectors C d \<Longrightarrow> q \<in> map_sectors C d (sectors d) \<Longrightarrow> C' q = C q"
  shows "agree (map_sectors C d (sectors d)) C C'"
  using assms by (auto simp: agree_def disk_inj_def)

lemma write_sector_bytes:
  assumes inj: "disk_inj C d" and ok: "disk_ok n C d"
    and fit: "p mod 512 + length bs \<le> 512" and inside: "p + length bs \<le> nat (d_length d)" and ne: "bs \<noteq> []"
    and len: "length (C (sector_at C d (p div 512))) = 512"
    and C': "\<And>q. valid_sector n q \<Longrightarrow>
        C' q = (if q = sector_at C d (p div 512) then pwrite (C q) (p mod 512) bs else C q)"
  shows "disk_ok n C' d" "disk_inj C' d" "data_sectors C' d = data_sectors C d"
    "map_sectors C' d (sectors d) = map_sectors C d (sectors d)"
    "inode_bytes C' d = pwrite (inode_bytes C d) p bs"
proof -
  have "p < nat (d_length d)" using inside ne by (cases bs) auto
  note sec = sector_of_pos [OF this]
  have m: "mapped n C d (sectors d)" using ok by (simp add: disk_ok_def)
  have ag: "agree (map_sectors C d (sectors d)) C C'"
  proof (rule agree_data [OF inj])
    fix q assume "q \<notin> data_sectors C d" "q \<in> map_sectors C d (sectors d)"
    then have "q \<noteq> sector_at C d (p div 512)" "valid_sector n q" using sec m by (auto simp: data_sectors_def mapped_def)
    then show "C' q = C q" using C' by simp
  qed
  note sa = sector_at_agree [OF ag] and ms = map_sectors_agree [OF ag]
  show "map_sectors C' d (sectors d) = map_sectors C d (sectors d)" by (rule ms)
  show ds: "data_sectors C' d = data_sectors C d" using sa by (auto simp: data_sectors_def)
  show "disk_ok n C' d" using ok mapped_agree [OF m ag] by (simp add: disk_ok_def)
  show "disk_inj C' d" using inj ds ms sa by (simp add: disk_inj_def inj_on_def)
  show "inode_bytes C' d = pwrite (inode_bytes C d) p bs"
  proof (rule nth_equalityI)
    show "length (inode_bytes C' d) = length (pwrite (inode_bytes C d) p bs)" using inside by simp
    fix x assume "x < length (inode_bytes C' d)"
    then have x: "x < nat (d_length d)" by simp
    note secx = sector_of_pos [OF x]
    have vx: "valid_sector n (sector_at C d (x div 512))" using m secx by (simp add: mapped_def)
    have xp: "x = 512 * (x div 512) + x mod 512" "p = 512 * (p div 512) + p mod 512" by simp_all
    have "byte_at C' d x = (if p \<le> x \<and> x < p + length bs then bs ! (x - p) else byte_at C d x)"
    proof (cases "x div 512 = p div 512")
      case True
      have eq: "p \<le> x \<longleftrightarrow> p mod 512 \<le> x mod 512" "x < p + length bs \<longleftrightarrow> x mod 512 < p mod 512 + length bs"
        "x - p = x mod 512 - p mod 512" using xp True by linarith+
      have "byte_at C' d x = pwrite (C (sector_at C d (p div 512))) (p mod 512) bs ! (x mod 512)"
        using C' [OF vx] sa [OF secx] True by (simp add: byte_at_def)
      also have "\<dots> = (if p mod 512 \<le> x mod 512 \<and> x mod 512 < p mod 512 + length bs then bs ! (x mod 512 - p mod 512)
          else C (sector_at C d (p div 512)) ! (x mod 512))" using fit len by (intro nth_pwrite) simp_all
      finally show ?thesis using eq True by (simp add: byte_at_def)
    next
      case False
      then have "sector_at C d (x div 512) \<noteq> sector_at C d (p div 512)"
        using inj sec secx by (auto simp: disk_inj_def inj_on_def)
      then have "byte_at C' d x = byte_at C d x" using C' [OF vx] sa [OF secx] by (simp add: byte_at_def)
      moreover have "\<not> (p \<le> x \<and> x < p + length bs)"
      proof
        assume *: "p \<le> x \<and> x < p + length bs"
        then have "x < 512 * (p div 512) + 512" using fit xp(2) by linarith
        moreover have "512 * (p div 512) \<le> x" using * xp(2) by linarith
        ultimately have "x div 512 = p div 512" by (simp add: div_nat_eqI)
        with False show False ..
      qed
      ultimately show ?thesis by auto
    qed
    with x inside show "inode_bytes C' d ! x = pwrite (inode_bytes C d) p bs ! x"
      by (simp add: nth_pwrite inode_bytes_def)
  qed
qed


text \<open>What writing into the file of an inode keeps: everything but the content of its data sectors.\<close>

definition data_write :: "nat \<Rightarrow> nat \<Rightarrow> inode \<Rightarrow> 'a fstate_scheme \<Rightarrow> 'a fstate_scheme \<Rightarrow> bool" where
  "data_write n i inode s s' \<longleftrightarrow>
     inode_ok n i inode s' \<and> disk_inj (cache_content s') (i_data inode) \<and>
     fs_device s' = fs_device s \<and> cstate.more s' = cstate.more s \<and>
     data_sectors (cache_content s') (i_data inode) = data_sectors (cache_content s) (i_data inode) \<and>
     (\<forall>q. valid_sector n q \<longrightarrow> q \<notin> data_sectors (cache_content s) (i_data inode) \<longrightarrow> cache_content s' q = cache_content s q)"

lemma data_write_trans: "data_write n i inode s t \<Longrightarrow> data_write n i inode t u \<Longrightarrow> data_write n i inode s u"
  by (auto simp: data_write_def)

lemma keeps_disk:
  assumes "inode_ok n i inode s" "cache_keeps n s s'"
  shows "data_sectors (cache_content s') (i_data inode) = data_sectors (cache_content s) (i_data inode)"
    "disk_inj (cache_content s') (i_data inode) = disk_inj (cache_content s) (i_data inode)"
proof -
  have m: "mapped n (cache_content s) (i_data inode) (sectors (i_data inode))" using assms(1) by (simp add: inode_ok_def disk_ok_def)
  note ag = agree_keeps [OF assms(2) m]
  show ds: "data_sectors (cache_content s') (i_data inode) = data_sectors (cache_content s) (i_data inode)"
    using sector_at_agree [OF ag] by (auto simp: data_sectors_def)
  show "disk_inj (cache_content s') (i_data inode) = disk_inj (cache_content s) (i_data inode)"
    using sector_at_agree [OF ag] map_sectors_agree [OF ag] ds by (simp add: disk_inj_def inj_on_def)
qed

lemma data_write_keeps:
  assumes "inode_ok n i inode s" "disk_inj (cache_content s) (i_data inode)" "cache_keeps n s s'"
  shows "data_write n i inode s s'"
  using inode_ok_keeps [OF assms(1,3)] keeps_disk [OF assms(1,3)] assms by (auto simp: data_write_def cache_keeps_def)

text \<open>One sector of the loop.\<close>

lemma write_chunk:
  assumes ok: "inode_ok n i inode s" and inj: "disk_inj (cache_content s) (i_data inode)"
    and fit: "p mod 512 + length bs \<le> 512" and inside: "p + length bs \<le> nat (d_length (i_data inode))" and ne: "bs \<noteq> []"
    and q: "q = sector_at (cache_content s) (i_data inode) (p div 512)"
  shows "\<exists>s'. buffer_cache_write q (pwrite (cache_content s q) (p mod 512) bs) s = Some s' \<and>
     data_write n i inode s s' \<and> inode_content inode s' = pwrite (inode_content inode s) p bs"
proof -
  let ?C = "cache_content s" and ?d = "i_data inode"
  have d: "disk_ok n ?C ?d" and inv: "cache_inv n s" using ok by (simp_all add: inode_ok_def)
  have "p < nat (d_length ?d)" using inside ne by (cases bs) auto
  from sector_of_pos [OF this] have sec: "p div 512 < sectors ?d" .
  then have vq: "valid_sector n q" using d q by (simp add: disk_ok_def mapped_def)
  have len: "length (?C q) = 512" using bc.content_length [OF inv vq] .
  have "length (pwrite (?C q) (p mod 512) bs) = 512" using fit len by simp
  from write_stores [OF inv vq this] obtain s' where
    s': "buffer_cache_write q (pwrite (?C q) (p mod 512) bs) s = Some s'" "cache_inv n s'" "fs_device s' = fs_device s"
      "cstate.more s' = cstate.more s"
      "\<forall>k. valid_sector n k \<longrightarrow> cache_content s' k = (if k = q then pwrite (?C q) (p mod 512) bs else ?C k)" by blast
  have C': "cache_content s' k = (if k = sector_at ?C ?d (p div 512) then pwrite (?C k) (p mod 512) bs else ?C k)"
    if "valid_sector n k" for k using s'(5) that q by simp
  note w = write_sector_bytes [OF inj d fit inside ne len [unfolded q] C']
  have "q \<in> data_sectors ?C ?d" using sec q by (auto simp: data_sectors_def)
  then have "\<forall>k. valid_sector n k \<longrightarrow> k \<notin> data_sectors ?C ?d \<longrightarrow> cache_content s' k = ?C k" using s'(5) by auto
  with w s' cache_keeps_more [OF s'(4)] ok show ?thesis
    by (auto simp: data_write_def inode_ok_def inode_content_def)
qed

lemma write_loop_step:
  assumes ok: "inode_ok n i inode s" and inj: "disk_inj (cache_content s) (i_data inode)" and sz: "0 < sz"
    and prems: "0 \<le> p" "0 \<le> w" "0 \<le> sz" "p + sz \<le> inode_length inode" "nat (w + sz) \<le> length buf"
  defines "c \<equiv> min sz (min (inode_length inode - p) (512 - p mod 512))"
  shows "\<exists>s2. write_loop i buf sz p w s = write_loop i buf (sz - c) (p + c) (w + c) s2 \<and> data_write n i inode s s2 \<and>
        inode_content inode s2 = pwrite (inode_content inode s) (nat p) (slice (nat w) (nat c) buf)"
proof -
  have inv: "cache_inv n s" and i: "inodes s i = Some inode" and m: "malloc_ok s 512"
    and d: "disk_ok n (cache_content s) (i_data inode)" using ok by (simp_all add: inode_ok_def)
  let ?L = "inode_length inode"
  have L: "0 \<le> ?L" "int32 ?L" "int32 p" using d prems(1,4) sz by (auto simp: disk_ok_def inode_length_def int32_def)
  have cs: "chunk_size inode sz p = Some c" using chunk_size_eq [OF prems(1) L(1,3,2)] by (simp add: c_def)
  have c: "0 < c" "c \<le> sz" "p mod 512 + c \<le> 512" using sz prems(1,4) by (auto simp: c_def)
  let ?q = "sector_at (cache_content s) (i_data inode) (nat p div 512)"
  have "p < d_length (i_data inode)" using sz prems(4) by (simp add: inode_length_def)
  from byte_to_sector_keeps [OF inv d prems(1) this m] obtain s1 where
    s1: "byte_to_sector inode p s = Some (?q, s1)" "cache_keeps n s s1" by blast
  have inv1: "cache_inv n s1" using s1(2) by (simp add: cache_keeps_def)
  have m1: "malloc_ok s1 512" using cache_keeps_more(1) s1(2) m by (metis cache_keeps_def)
  note ok1 = inode_ok_keeps [OF ok s1(2)] and kd1 = keeps_disk [OF ok s1(2)]
  have sec: "nat p div 512 < sectors (i_data inode)" using sz prems(1,4) by (intro sector_of_pos) (simp add: inode_length_def)
  then have vq: "valid_sector n ?q" using d by (simp add: disk_ok_def mapped_def)
  let ?bs = "slice (nat w) (nat c) buf"
  have wc: "nat (w + c) = nat w + nat c" "nat (p + c) = nat p + nat c" using prems(1,2) c by (simp_all add: nat_add_distrib)
  have lbs: "length ?bs = nat c" using wc prems(5) c(2) by (intro length_slice) linarith
  have pm: "nat (p mod 512) = nat p mod 512" using prems(1) by (simp add: nat_mod_distrib)
  have fit: "nat p mod 512 + length ?bs \<le> 512" using c(1,3) pm lbs prems(1) by linarith
  have inside: "nat p + length ?bs \<le> nat (d_length (i_data inode))"
    using prems(1,4) c lbs by (simp add: inode_length_def)
  have ne: "?bs \<noteq> []" using lbs c(1) by force
  have rem: "c_rem p 512 = p mod 512" "0 \<le> p mod 512" using prems(1) by (simp_all add: c_rem_def)
  have big: "\<not> length buf < nat (w + c)" using prems(5) c(2) by linarith
  show "\<exists>s2. write_loop i buf sz p w s = write_loop i buf (sz - c) (p + c) (w + c) s2 \<and>
      data_write n i inode s s2 \<and> inode_content inode s2 = pwrite (inode_content inode s) (nat p) ?bs"
  proof (cases "p mod 512 = 0 \<and> c = 512")
    case True
    have q1: "?q = sector_at (cache_content s1) (i_data inode) (nat p div 512)"
      using sector_at_agree [OF agree_keeps [OF s1(2)] sec] d by (simp add: disk_ok_def)
    have len1: "length (cache_content s1 ?q) = 512" using bc.content_length [OF inv1 vq] .
    have "nat p mod 512 = 0" using True pm by simp
    then have whole: "pwrite (cache_content s1 ?q) (nat p mod 512) ?bs = ?bs" using True lbs len1 by (simp add: pwrite_def)
    from write_chunk [OF ok1(1) _ fit inside ne q1] inj kd1 obtain s2 where
      s2: "buffer_cache_write ?q ?bs s1 = Some s2" "data_write n i inode s1 s2"
        "inode_content inode s2 = pwrite (inode_content inode s) (nat p) ?bs" by (auto simp: whole ok1(2))
    have "write_loop i buf sz p w s = write_loop i buf (sz - c) (p + c) (w + c) s2"
      using sz i s1(1) cs c(1) big True rem s2(1) by (subst write_loop.simps) (simp add: Let_def)
    moreover have "data_write n i inode s s2"
      using data_write_trans data_write_keeps [OF ok inj s1(2)] s2(2) by blast
    ultimately show ?thesis using s2(3) by blast
  next
    case False
    from read_keeps [OF inv1 vq] obtain t where
      t: "buffer_cache_read ?q s1 = Some (cache_content s1 ?q, t)" "cache_keeps n s1 t" by blast
    have kt: "cache_keeps n s t" using cache_keeps_trans [OF s1(2) t(2)] .
    note okt = inode_ok_keeps [OF ok kt] and kdt = keeps_disk [OF ok kt]
    have qt: "?q = sector_at (cache_content t) (i_data inode) (nat p div 512)"
      using sector_at_agree [OF agree_keeps [OF kt] sec] d by (simp add: disk_ok_def)
    have Ct: "cache_content t ?q = cache_content s1 ?q" using t(2) vq by (simp add: cache_keeps_def)
    from write_chunk [OF okt(1) _ fit inside ne qt] inj kdt obtain s2 where
      s2: "buffer_cache_write ?q (pwrite (cache_content s1 ?q) (nat p mod 512) ?bs) t = Some s2" "data_write n i inode t s2"
        "inode_content inode s2 = pwrite (inode_content inode s) (nat p) ?bs" by (auto simp: Ct okt(2))
    have "0 < p mod 512 \<or> c < 512 - p mod 512" using False c(3) rem(2) by linarith
    then have "write_loop i buf sz p w s = write_loop i buf (sz - c) (p + c) (w + c) s2"
      using sz i s1(1) cs c(1) big False rem s2(1) t(1) m1 pm by (subst write_loop.simps) (auto simp: Let_def not_less)
    moreover have "data_write n i inode s s2"
      using data_write_trans data_write_keeps [OF ok inj kt] s2(2) by blast
    ultimately show ?thesis using s2(3) by blast
  qed
qed

lemma write_loop_writes:
  "inode_ok n i inode s \<Longrightarrow> disk_inj (cache_content s) (i_data inode) \<Longrightarrow> 0 \<le> p \<Longrightarrow> 0 \<le> w \<Longrightarrow> 0 \<le> sz \<Longrightarrow>
   p + sz \<le> inode_length inode \<Longrightarrow> nat (w + sz) \<le> length buf \<Longrightarrow>
   \<exists>s'. write_loop i buf sz p w s = Some (w + sz, s') \<and> data_write n i inode s s' \<and>
        inode_content inode s' = pwrite (inode_content inode s) (nat p) (slice (nat w) (nat sz) buf)"
proof (induction "nat sz" arbitrary: sz p w s rule: less_induct)
  case less
  note ok = less.prems(1)
  have inv: "cache_inv n s" and i: "inodes s i = Some inode" and m: "malloc_ok s 512"
    and d: "disk_ok n (cache_content s) (i_data inode)" using ok by (simp_all add: inode_ok_def)
  let ?L = "inode_length inode"
  show ?case
  proof (cases "sz = 0")
    case True
    have "pwrite (inode_content inode s) (nat p) [] = inode_content inode s"
      using less.prems(6) True by (simp add: pwrite_def inode_content_def inode_length_def)
    with True data_write_keeps [OF ok less.prems(2) cache_keeps_refl [OF inv]] show ?thesis by (simp add: write_loop.simps)
  next
    case False
    with less.prems(5) have sz: "sz > 0" by simp
    define c where "c = min sz (min (?L - p) (512 - p mod 512))"
    have c: "0 < c" "c \<le> sz" using sz less.prems(3,6) by (auto simp: c_def)
    let ?bs = "slice (nat w) (nat c) buf"
    have wc: "nat (w + c) = nat w + nat c" "nat (p + c) = nat p + nat c" using less.prems(3,4) c by (simp_all add: nat_add_distrib)
    have lbs: "length ?bs = nat c" using wc less.prems(7) c(2) by (intro length_slice) linarith
    from write_loop_step [OF ok less.prems(2) sz less.prems(3-7), folded c_def] obtain s2 where
      s2: "write_loop i buf sz p w s = write_loop i buf (sz - c) (p + c) (w + c) s2"
        "data_write n i inode s s2" "inode_content inode s2 = pwrite (inode_content inode s) (nat p) ?bs" by blast
    have ok2: "inode_ok n i inode s2" "disk_inj (cache_content s2) (i_data inode)" using s2(2) by (simp_all add: data_write_def)
    have pre: "nat (sz - c) < nat sz" "0 \<le> p + c" "0 \<le> w + c" "0 \<le> sz - c" "p + c + (sz - c) \<le> ?L"
      "nat (w + c + (sz - c)) \<le> length buf" using c less.prems by auto
    from less.hyps [OF pre(1) ok2 pre(2-6)] obtain s' where
      s': "write_loop i buf (sz - c) (p + c) (w + c) s2 = Some (w + c + (sz - c), s')" "data_write n i inode s2 s'"
        "inode_content inode s' = pwrite (inode_content inode s2) (nat (p + c)) (slice (nat (w + c)) (nat (sz - c)) buf)" by blast
    have "slice (nat w) (nat sz) buf = ?bs @ slice (nat (w + c)) (nat (sz - c)) buf"
      unfolding wc using c by (intro slice_append [symmetric]) linarith
    moreover have "length (slice (nat (w + c)) (nat (sz - c)) buf) = nat (sz - c)"
      using less.prems(4,7) c by (intro length_slice) linarith
    then have "nat p + length ?bs + length (slice (nat (w + c)) (nat (sz - c)) buf) \<le> length (inode_content inode s)"
      using less.prems(3,6) c lbs by (simp add: inode_content_def inode_length_def) linarith
    ultimately have "inode_content inode s' = pwrite (inode_content inode s) (nat p) (slice (nat w) (nat sz) buf)"
      using s'(3) s2(3) pwrite_pwrite [of "nat p" ?bs "slice (nat (w + c)) (nat (sz - c)) buf" "inode_content inode s"]
      by (simp add: lbs wc(2))
    with s' s2 data_write_trans [OF s2(2) s'(2)] show ?thesis by simp
  qed
qed


lemma valid_not_minus1: "cache_inv n s \<Longrightarrow> valid_sector n q \<Longrightarrow> q \<noteq> - 1"
proof -
  assume "cache_inv n s" "valid_sector n q"
  then have "unat q < 2 ^ 23" by (auto simp: cache_inv_def dev_ok_def valid_sector_def split: option.splits)
  then show "q \<noteq> - 1" by (auto simp: unsigned_minus_1_eq_mask mask_eq_exp_minus_1)
qed

lemma inode_write_inside:
  assumes ok: "inode_ok n i inode s" and inj: "disk_inj (cache_content s) (i_data inode)"
    and p: "0 \<le> p" and sz: "0 < sz" and fits: "p + sz \<le> inode_length inode" and buf: "nat sz \<le> length buf"
    and allowed: "i_deny_write_cnt inode = 0"
  shows "\<exists>s'. inode_write_with save i buf sz p s = Some (sz, s') \<and> data_write n i inode s s' \<and>
              inode_content inode s' = pwrite (inode_content inode s) (nat p) (take (nat sz) buf)"
proof -
  have inv: "cache_inv n s" and i: "inodes s i = Some inode" and m: "malloc_ok s 512"
    and d: "disk_ok n (cache_content s) (i_data inode)" using ok by (simp_all add: inode_ok_def)
  have len: "0 \<le> p + sz - 1" "p + sz - 1 < d_length (i_data inode)" "int32 (p + sz)" "int32 (p + sz - 1)"
    using p sz fits d by (auto simp: inode_length_def disk_ok_def int32_def)
  let ?q = "sector_at (cache_content s) (i_data inode) (nat (p + sz - 1) div 512)"
  from byte_to_sector_keeps [OF inv d len(1,2) m] obtain s1 where
    s1: "byte_to_sector inode (p + sz - 1) s = Some (?q, s1)" "cache_keeps n s s1" by blast
  have "nat (p + sz - 1) div 512 < sectors (i_data inode)" using len(1,2) by (intro sector_of_pos) auto
  then have "valid_sector n ?q" using d by (simp add: disk_ok_def mapped_def)
  then have q: "?q \<noteq> - 1" by (rule valid_not_minus1 [OF inv])
  note ok1 = inode_ok_keeps [OF ok s1(2)] and kd1 = keeps_disk [OF ok s1(2)]
  from write_loop_writes [OF ok1(1), of p 0 sz buf] inj kd1 p sz fits buf obtain s' where
    s': "write_loop i buf sz p 0 s1 = Some (sz, s')" "data_write n i inode s1 s'"
      "inode_content inode s' = pwrite (inode_content inode s) (nat p) (slice 0 (nat sz) buf)" by (auto simp: ok1(2))
  have "inode_write_with save i buf sz p s = Some (sz, s')"
    using i allowed len s1(1) q s'(1) by (simp add: inode_write_with_def)
  with s' data_write_trans [OF data_write_keeps [OF ok inj s1(2)] s'(2)] show ?thesis by (simp add: slice_def)
qed


text \<open>A file whose sectors the write does not touch is unchanged.\<close>

definition all_sectors :: "(block_sector_t \<Rightarrow> sector_data) \<Rightarrow> inode_disk \<Rightarrow> block_sector_t set" where
  "all_sectors C d = data_sectors C d \<union> map_sectors C d (sectors d)"

lemma untouched_bytes:
  assumes "agree (all_sectors C d) C C'"
  shows "inode_bytes C' d = inode_bytes C d" "all_sectors C' d = all_sectors C d"
proof -
  have ag: "agree (map_sectors C d (sectors d)) C C'" using assms by (simp add: agree_def all_sectors_def)
  note sa = sector_at_agree [OF ag]
  have "byte_at C' d p = byte_at C d p" if "p < nat (d_length d)" for p
    using assms sa [OF sector_of_pos [OF that]] sector_of_pos [OF that]
    by (auto simp: byte_at_def agree_def all_sectors_def data_sectors_def)
  then show "inode_bytes C' d = inode_bytes C d" by (simp add: inode_bytes_def)
  show "all_sectors C' d = all_sectors C d"
    using sa map_sectors_agree [OF ag] by (auto simp: all_sectors_def data_sectors_def)
qed

lemma data_write_others:
  assumes "data_write n i inode s s'" "disk_ok n (cache_content s) d"
    and "all_sectors (cache_content s) d \<inter> data_sectors (cache_content s) (i_data inode) = {}"
  shows "inode_bytes (cache_content s') d = inode_bytes (cache_content s) d"
proof (rule untouched_bytes)
  have "valid_sector n q" if "q \<in> all_sectors (cache_content s) d" for q
    using that assms(2) by (auto simp: all_sectors_def data_sectors_def disk_ok_def mapped_def)
  with assms(1,3) show "agree (all_sectors (cache_content s) d) (cache_content s) (cache_content s')"
    by (auto simp: agree_def data_write_def)
qed

section \<open>The list of data sectors\<close>

lemma nth_read_blocks [simp]: "i < k \<Longrightarrow> read_blocks k d ! i = block_word d i"
  by (simp add: read_blocks_def)

lemma length_read_blocks [simp]: "length (read_blocks k d) = k"
  by (simp add: read_blocks_def)

lemma DIV_ROUND_UP_small: "x + step < 2 ^ 64 \<Longrightarrow> DIV_ROUND_UP x step = (x + step - 1) div step"
  by (simp add: DIV_ROUND_UP_def)

lemma block_list_split:
  assumes "m = num - min num 128" "\<And>i. i < m \<Longrightarrow> C' (bs ! (i div 128)) = C (bs ! (i div 128))"
  shows "read_blocks (min num 128) (C b) @ map (\<lambda>j. block_word (C' (bs ! (j div 128))) (j mod 128)) [0..<m] =
    map (\<lambda>j. block_word (C ((b # bs) ! (j div 128))) (j mod 128)) [0..<num]"
    (is "?xs = ?ys")
proof (rule nth_equalityI)
  fix j assume "j < length ?xs"
  then have j: "j < num" using assms(1) by auto
  show "?xs ! j = ?ys ! j"
  proof (cases "j < 128")
    case True
    with j show ?thesis by (simp add: nth_append)
  next
    case False
    then obtain i where i: "j = 128 + i" using le_Suc_ex not_less by blast
    with j have "i < m" using assms(1) by simp
    moreover have "(128 + i) div 128 = Suc (i div 128)" by simp
    ultimately show ?thesis using i j assms by (simp add: nth_append del: div_add_self1)
  qed
qed (use assms(1) in simp)

lemma indirect_sectors_list:
  "cache_inv n s \<Longrightarrow> \<forall>b\<in>set (take ((num + 127) div 128) bs). valid_sector n b \<Longrightarrow> (num + 127) div 128 \<le> length bs \<Longrightarrow>
   \<exists>s'. indirect_sectors ((num + 127) div 128) bs num s =
        Some (map (\<lambda>j. block_word (cache_content s (bs ! (j div 128))) (j mod 128)) [0..<num], s') \<and> cache_keeps n s s'"
proof (induction bs arbitrary: num s)
  case Nil
  then show ?case using cache_keeps_refl [OF Nil(1)] by simp
next
  case (Cons b bs)
  show ?case
  proof (cases "num = 0")
    case True
    then show ?thesis using cache_keeps_refl [OF Cons.prems(1)] by simp
  next
    case False
    define m where "m = num - min num 128"
    have l: "(num + 127) div 128 = Suc ((m + 127) div 128)"
    proof (cases "num \<le> 128")
      case True
      then have "(num + 127) div 128 = 1" using False by (intro div_nat_eqI) auto
      with True show ?thesis by (simp add: m_def)
    next
      case False
      then have "num + 127 = (m + 127) + 128" by (simp add: m_def)
      then show ?thesis by simp
    qed
    have vb: "valid_sector n b" using Cons.prems(2) by (simp add: l)
    from read_keeps [OF Cons.prems(1) vb] obtain s1 where
      s1: "buffer_cache_read b s = Some (cache_content s b, s1)" "cache_keeps n s s1" by blast
    have "cache_inv n s1" using s1(2) by (simp add: cache_keeps_def)
    with Cons.IH [of s1 m] Cons.prems(2,3) obtain s2 where
      s2: "indirect_sectors ((m + 127) div 128) bs m s1 =
        Some (map (\<lambda>j. block_word (cache_content s1 (bs ! (j div 128))) (j mod 128)) [0..<m], s2)" "cache_keeps n s1 s2"
      by (auto simp: l)
    have "DIV_ROUND_UP (min num 128) 1 = min num 128" by (simp add: DIV_ROUND_UP_def)
    then have "indirect_sectors ((num + 127) div 128) (b # bs) num s =
        Some (read_blocks (min num 128) (cache_content s b) @
              map (\<lambda>j. block_word (cache_content s1 (bs ! (j div 128))) (j mod 128)) [0..<m], s2)"
      using s1 s2 by (simp add: l INDIRECT_BLOCKS_PER_SECTOR_def m_def Let_def)
    also have "read_blocks (min num 128) (cache_content s b) @
        map (\<lambda>j. block_word (cache_content s1 (bs ! (j div 128))) (j mod 128)) [0..<m] =
      map (\<lambda>j. block_word (cache_content s ((b # bs) ! (j div 128))) (j mod 128)) [0..<num]"
    proof (rule block_list_split)
      fix i assume "i < m"
      then have "i div 128 < (m + 127) div 128" using div_le_mono [of "i + 128" "m + 127" 128] by simp
      then have "valid_sector n (bs ! (i div 128))" using Cons.prems(2,3) nth_mem [of "i div 128" "take ((m + 127) div 128) bs"] by (simp add: l)
      then show "cache_content s1 (bs ! (i div 128)) = cache_content s (bs ! (i div 128))"
        using s1(2) by (simp add: cache_keeps_def)
    qed (rule m_def)
    finally show ?thesis using cache_keeps_trans [OF s1(2) s2(2)] by blast
  qed
qed


lemma bytes_to_sectors_eq: "0 \<le> d_length d \<Longrightarrow> d_length d + 512 < 2 ^ 31 \<Longrightarrow> bytes_to_sectors (d_length d) = Some (sectors d)"
proof -
  assume "0 \<le> d_length d" "d_length d + 512 < 2 ^ 31"
  then have "int32 (d_length d + 512)" "nat (d_length d + 512 - 1) = nat (d_length d) + 511" by (auto simp: int32_def)
  then show ?thesis by (simp add: bytes_to_sectors_def sectors_def nat_div_distrib)
qed


lemma indirect_part:
  assumes "cache_inv n s" "mapped n (cache_content s) d k" "l = min k 251 - min k 123"
  shows "\<exists>s'. single_indirect_sectors d l s = Some (map (sector_at (cache_content s) d) [min k 123..<min k 251], s') \<and> cache_keeps n s s'"
proof (cases "l > 0")
  case True
  then have k: "123 < k" using assms(3) by auto
  then have "valid_sector n (indirect_block d)" using assms(2) map_sectorsI(1) [OF k] by (simp add: mapped_def)
  from read_keeps [OF assms(1) this] obtain s1 where
    "buffer_cache_read (indirect_block d) s = Some (cache_content s (indirect_block d), s1)" "cache_keeps n s s1" by blast
  moreover have "DIV_ROUND_UP l (Suc 0) = l" using assms(3) by (simp add: DIV_ROUND_UP_def)
  moreover have "read_blocks l (cache_content s (indirect_block d)) = map (sector_at (cache_content s) d) [min k 123..<min k 251]"
  proof (rule nth_equalityI)
    fix i assume "i < length (read_blocks l (cache_content s (indirect_block d)))"
    then have "i < l" by simp
    moreover from this have "[min k 123..<min k 251] ! i = 123 + i"
      using k assms(3) by (subst nth_upt) auto
    ultimately show "read_blocks l (cache_content s (indirect_block d)) ! i = map (sector_at (cache_content s) d) [min k 123..<min k 251] ! i"
      using k assms(3) by (auto simp: sector_at_def)
  qed (use k assms(3) in simp)
  ultimately show ?thesis using True by (simp add: single_indirect_sectors_def)
next
  case False
  then have "k \<le> 123" using assms(3) by auto
  with False cache_keeps_refl [OF assms(1)] show ?thesis by (simp add: single_indirect_sectors_def)
qed

lemma round_up_128: "j < (l + 127) div 128 \<Longrightarrow> 128 * j < (l::nat)"
  using times_div_less_eq_dividend [of 128 "l + 127"] by linarith

lemma doubly_part:
  assumes "cache_inv n s" "mapped n (cache_content s) d k" "l = k - 251"
  shows "\<exists>s'. double_indirect_sectors d l s = Some (map (sector_at (cache_content s) d) [min k 251..<k], s') \<and> cache_keeps n s s'"
proof (cases "l > 0")
  case True
  then have k: "251 < k" using assms(3) by simp
  have v: "q \<in> map_sectors (cache_content s) d k \<Longrightarrow> valid_sector n q" for q using assms(2) by (simp add: mapped_def)
  have vd: "valid_sector n (doubly_indirect_block d)" by (rule v [OF map_sectorsI(2) [OF k]])
  let ?D = "cache_content s (doubly_indirect_block d)"
  from read_keeps [OF assms(1) vd] obtain s1 where
    s1: "buffer_cache_read (doubly_indirect_block d) s = Some (?D, s1)" "cache_keeps n s s1" by blast
  have small: "l \<le> 16384" using assms(2,3) by (auto simp: mapped_def)
  then have fits: "(l + 127) div 128 \<le> 128" using div_le_mono [of "l + 127" "16384 + 127" 128] by simp
  have vj: "valid_sector n (block_word ?D j)" if "128 * j < l" for j using that assms(3) by (intro v map_sectorsI) simp
  have blocks: "\<forall>b\<in>set (take ((l + 127) div 128) (read_blocks 128 ?D)). valid_sector n b"
    using vj round_up_128 fits by (auto simp: in_set_conv_nth)
  have inv1: "cache_inv n s1" using s1(2) by (simp add: cache_keeps_def)
  from indirect_sectors_list [OF inv1 blocks] fits obtain s2 where
    s2: "indirect_sectors ((l + 127) div 128) (read_blocks 128 ?D) l s1 =
      Some (map (\<lambda>j. block_word (cache_content s1 (read_blocks 128 ?D ! (j div 128))) (j mod 128)) [0..<l], s2)"
      "cache_keeps n s1 s2" by auto
  have "map (\<lambda>j. block_word (cache_content s1 (read_blocks 128 ?D ! (j div 128))) (j mod 128)) [0..<l] =
      map (sector_at (cache_content s) d) [min k 251..<k]"
  proof (rule nth_equalityI)
    fix j assume "j < length (map (\<lambda>j. block_word (cache_content s1 (read_blocks 128 ?D ! (j div 128))) (j mod 128)) [0..<l])"
    then have j: "j < l" by simp
    have "128 * (j div 128) < l" using j times_div_less_eq_dividend [of 128 j] by linarith
    then have "cache_content s1 (block_word ?D (j div 128)) = cache_content s (block_word ?D (j div 128))"
      using s1(2) vj by (simp add: cache_keeps_def)
    moreover have "j div 128 < 128" using j small by (intro less_mult_imp_div_less) simp
    ultimately show "map (\<lambda>j. block_word (cache_content s1 (read_blocks 128 ?D ! (j div 128))) (j mod 128)) [0..<l] ! j =
        map (sector_at (cache_content s) d) [min k 251..<k] ! j" using j k assms(3) by (simp add: sector_at_def)
  qed (use k assms(3) in simp)
  moreover have "DIV_ROUND_UP l 128 = (l + 127) div 128" using small by (simp add: DIV_ROUND_UP_def)
  ultimately show ?thesis using True s1(1) s2 cache_keeps_trans [OF s1(2) s2(2)]
    by (simp add: double_indirect_sectors_def INDIRECT_BLOCKS_PER_SECTOR_def)
next
  case False
  then show ?thesis using assms(3) cache_keeps_refl [OF assms(1)] by (simp add: double_indirect_sectors_def)
qed

lemma cache_keeps_assertion: "cache_keeps n s t \<Longrightarrow> cache_keeps n s (assertion fn b t)"
  by (auto simp: cache_keeps_def cache_inv_def cache_content_def)

lemma get_inode_data_sectors_list:
  assumes "inode_ok n i inode s" "malloc_ok s (4 * sectors (i_data inode))"
  shows "\<exists>s'. get_inode_data_sectors inode s =
      Some (Some (map (sector_at (cache_content s) (i_data inode)) [0..<sectors (i_data inode)]), s') \<and> cache_keeps n s s'"
proof -
  let ?d = "i_data inode" and ?C = "cache_content s"
  have inv: "cache_inv n s" and d: "disk_ok n ?C ?d" using assms(1) by (simp_all add: inode_ok_def)
  define k where "k = sectors ?d"
  have m: "mapped n ?C ?d k" and len: "length (direct_blocks ?d) = 123" "k \<le> 16635" and bs: "bytes_to_sectors (d_length ?d) = Some k"
    using d bytes_to_sectors_eq by (auto simp: disk_ok_def mapped_def k_def)
  have arith: "min (k - min k 123) 128 = min k 251 - min k 123" "k - min k 123 - (min k 251 - min k 123) = k - 251"
    "min (k - 251) 16384 = k - 251" "k - min k 251 = k - 251" "k - 251 \<le> 16384" using len(2) by auto
  from indirect_part [OF inv m refl] obtain s1 where
    s1: "single_indirect_sectors ?d (min k 251 - min k 123) s = Some (map (sector_at ?C ?d) [min k 123..<min k 251], s1)"
      "cache_keeps n s s1" by blast
  have inv1: "cache_inv n s1" using s1(2) by (simp add: cache_keeps_def)
  note ag = agree_keeps [OF s1(2) m]
  from doubly_part [OF inv1 mapped_agree [OF m ag] refl] obtain s2 where
    s2: "double_indirect_sectors ?d (k - 251) s1 = Some (map (sector_at (cache_content s1) ?d) [min k 251..<k], s2)"
      "cache_keeps n s1 s2" by blast
  have "map (sector_at (cache_content s1) ?d) [min k 251..<k] = map (sector_at ?C ?d) [min k 251..<k]"
    using sector_at_agree [OF ag] by simp
  moreover have "take (min k 123) (direct_blocks ?d) = map (sector_at ?C ?d) [0..<min k 123]"
    using len(1) by (intro nth_equalityI) (auto simp: sector_at_def)
  moreover have "[0..<k] = [0..<min k 123] @ [min k 123..<min k 251] @ [min k 251..<k]"
    using upt_split [of 0 "min k 123" k] upt_split [of "min k 123" "min k 251" k] by auto
  moreover have "0 \<le> d_length ?d" "malloc_ok s (4 * k)" using d assms(2) by (simp_all add: disk_ok_def k_def)
  ultimately have "get_inode_data_sectors inode s =
      Some (Some (map (sector_at ?C ?d) [0..<k]), assertion ''get_inode_data_sectors'' True s2)"
    using bs s1(1) s2(1) len(1)
    by (simp add: get_inode_data_sectors_def Let_def DIRECT_BLOCKS_COUNT_def INDIRECT_BLOCKS_PER_SECTOR_def arith)
  moreover have "cache_keeps n s (assertion ''get_inode_data_sectors'' True s2)"
    by (rule cache_keeps_assertion [OF cache_keeps_trans [OF s1(2) s2(2)]])
  ultimately show ?thesis by (simp add: k_def)
qed


section \<open>Inodes on disk\<close>

lemma length_words_bytes [simp]: "length (words_bytes ws) = 4 * length ws"
  by (induction ws) (auto simp: words_bytes_def)

lemma block_word_words_bytes:
  "i < length ws \<Longrightarrow> block_word (words_bytes ws @ r) i = ws ! i"
proof (induction ws arbitrary: i)
  case (Cons w ws)
  have wb: "words_bytes (w # ws) = to_le 4 w @ words_bytes ws" by (simp add: words_bytes_def)
  show ?case
  proof (cases i)
    case 0
    then show ?thesis by (simp add: block_word_def wb slice_def from_to_le)
  next
    case (Suc j)
    have "slice (4 * Suc j) 4 (to_le 4 w @ (words_bytes ws @ r)) = slice (4 * j) 4 (words_bytes ws @ r)"
      by (simp add: slice_def)
    with Suc Cons show ?thesis by (simp add: block_word_def wb)
  qed
qed simp

lemma block_word_shift: "length a = 4 * k \<Longrightarrow> k \<le> i \<Longrightarrow> block_word (a @ b) i = block_word b (i - k)"
  by (simp add: block_word_def slice_def diff_mult_distrib2)

lemma read_blocks_words_bytes: "k = length ws \<Longrightarrow> read_blocks k (words_bytes ws @ r) = ws"
  by (rule nth_equalityI) (auto simp: block_word_words_bytes)

lemma encode_inode_words:
  assumes "length (direct_blocks d) = 123"
  shows "length (encode_inode d) = 512"
    "\<And>i. i < 123 \<Longrightarrow> block_word (encode_inode d) i = direct_blocks d ! i"
    "block_word (encode_inode d) 123 = indirect_block d" "block_word (encode_inode d) 124 = doubly_indirect_block d"
    "encode_inode d ! 500 = (if is_dir d then 1 else 0)"
    "block_word (encode_inode d) 126 = word_of_int (d_length d)" "block_word (encode_inode d) 127 = magic d"
proof -
  let ?ws = "direct_blocks d @ [indirect_block d, doubly_indirect_block d]"
  let ?flag = "[if is_dir d then 1 else 0, 0, 0, 0] :: byte list"
  let ?tl = "words_bytes [word_of_int (d_length d), magic d]"
  have e: "encode_inode d = words_bytes ?ws @ (?flag @ ?tl)" by (simp add: encode_inode_def)
  have bw: "block_word (encode_inode d) i = ?ws ! i" if "i < 125" for i
    unfolding e using that assms by (intro block_word_words_bytes) simp
  have bw2: "block_word (encode_inode d) (126 + i) = [word_of_int (d_length d), magic d] ! i" if "i < 2" for i
  proof -
    have "block_word (encode_inode d) (126 + i) = block_word ((words_bytes ?ws @ ?flag) @ ?tl) (126 + i)" unfolding e by simp
    also have "\<dots> = block_word ?tl i" using assms by (subst block_word_shift [where k = 126]) simp_all
    finally show ?thesis using that block_word_words_bytes [of i "[word_of_int (d_length d), magic d]" "[]"] by simp
  qed
  show "length (encode_inode d) = 512" using assms by (simp add: e)
  show "\<And>i. i < 123 \<Longrightarrow> block_word (encode_inode d) i = direct_blocks d ! i" using bw assms by (simp add: nth_append)
  show "block_word (encode_inode d) 123 = indirect_block d" "block_word (encode_inode d) 124 = doubly_indirect_block d"
    using bw [of 123] bw [of 124] assms by (simp_all add: nth_append)
  show "encode_inode d ! 500 = (if is_dir d then 1 else 0)" unfolding e using assms by (simp add: nth_append)
  show "block_word (encode_inode d) 126 = word_of_int (d_length d)" "block_word (encode_inode d) 127 = magic d"
    using bw2 [of 0] bw2 [of 1] by simp_all
qed

lemma sint_int32: "int32 i \<Longrightarrow> sint (word_of_int i :: 32 word) = i"
  by (simp add: int32_def sint_sbintrunc' signed_take_bit_int_eq_self)

lemma decode_encode_inode:
  assumes "length (direct_blocks d) = 123" "int32 (d_length d)"
  shows "decode_inode (encode_inode d) = d"
proof -
  have "read_blocks 123 (encode_inode d) = direct_blocks d"
    using encode_inode_words(2) [OF assms(1)] assms(1) by (intro nth_equalityI) auto
  then show ?thesis
    using encode_inode_words [OF assms(1)] assms(2) by (simp add: decode_inode_def DIRECT_BLOCKS_COUNT_def sint_int32)
qed


lemma open_upd:
  "cache_inv n s \<Longrightarrow> cache_inv n (s\<lparr>open_inodes := is, next_inode := k\<rparr>)"
  by (simp add: cache_inv_def dev_ok_def dev_sector_def [abs_def] cong: option.case_cong)

lemma set_inode_upd: "cache_inv n (set_inode i inode s) = cache_inv n s"
  by (simp add: set_inode_def cache_inv_def dev_ok_def dev_sector_def [abs_def] cong: option.case_cong)

section \<open>An example\<close>

text \<open>A disk of eight sectors: the inode of the free map in sector 0 with its file in sector 2, a file of 100 bytes
  with its inode in sector 1 and its data in sector 3.\<close>

definition disk8 :: cstate where
  "disk8 = dev.extend \<lparr>console = [], image = replicate 4096 0,
       blocks = [\<lparr>block_nm = ''hda'', block_fname = ''d'', block_sz = 8, block_drv = ide_operations, read_cnt = 0, write_cnt = 0\<rparr>],
       hard_drive = Some 0\<rparr> \<lparr>fs_device = 0, cache = replicate 64 entry0, clock = 0\<rparr>"

definition direct_inode :: "block_sector_t \<Rightarrow> block_sector_t \<Rightarrow> int \<Rightarrow> inode" where
  "direct_inode sector q len = \<lparr>i_sector = sector, i_open_cnt = 1, i_removed = False, i_deny_write_cnt = 0,
     i_data = (new_inode_disk len False)\<lparr>direct_blocks := q # replicate 122 0\<rparr>\<rparr>"

definition fs8 :: fstate where
  "fs8 = cstate.extend disk8
     \<lparr>malloc_ok = (\<lambda>_. True), inodes = [0 \<mapsto> direct_inode 0 2 8, 1 \<mapsto> direct_inode 1 3 100], open_inodes = [1, 0],
      next_inode = 2, open_files = [0 \<mapsto> \<lparr>f_inode = 0, f_pos = 0, f_deny_write = False\<rparr>], next_file = 1,
      free_map = \<lparr>bit_cnt = 7, bits = [0xF]\<rparr>, free_map_file = Some 0\<rparr>"

lemma fs8_sel [simp]:
  "inodes fs8 = [0 \<mapsto> direct_inode 0 2 8, 1 \<mapsto> direct_inode 1 3 100]" "malloc_ok fs8 = (\<lambda>_. True)"
  "open_files fs8 = [0 \<mapsto> \<lparr>f_inode = 0, f_pos = 0, f_deny_write = False\<rparr>]" "free_map fs8 = \<lparr>bit_cnt = 7, bits = [0xF]\<rparr>"
  "free_map_file fs8 = Some 0" "open_inodes fs8 = [1, 0]" "next_inode fs8 = 2"
  by (simp_all add: fs8_def disk8_def cstate.defs dev.defs)

lemma fs8_inv: "cache_inv 8 fs8"
proof -
  have "dev_ok 8 0 fs8" by (simp add: dev_ok_def fs8_def disk8_def cstate.defs dev.defs dev_base.simps)
  moreover have "cache fs8 = replicate 64 entry0" "fs_device fs8 = 0" "clock fs8 = 0"
    by (simp_all add: fs8_def disk8_def cstate.defs dev.defs)
  moreover have "cache_ok 8 dsk (replicate 64 entry0)" for dsk
    by (auto simp: cache_ok_def cached_def BUFFER_CACHE_SIZE_def entry0_def)
  ultimately show ?thesis by (simp add: cache_inv_def BUFFER_CACHE_SIZE_def)
qed

lemma direct_inode_sel [simp]:
  "i_sector (direct_inode sector q len) = sector" "i_deny_write_cnt (direct_inode sector q len) = 0"
  "inode_length (direct_inode sector q len) = len" "d_length (i_data (direct_inode sector q len)) = len"
  "direct_blocks (i_data (direct_inode sector q len)) = q # replicate 122 0"
  by (simp_all add: direct_inode_def new_inode_disk_def inode_length_def)

lemma direct_inode_ok:
  assumes "0 < len" "len \<le> 512"
  shows "sectors (i_data (direct_inode sector q len)) = 1" "all_sectors C (i_data (direct_inode sector q len)) = {q}"
    "data_sectors C (i_data (direct_inode sector q len)) = {q}"
    "disk_inj C (i_data (direct_inode sector q len))" "unat q < n \<Longrightarrow> disk_ok n C (i_data (direct_inode sector q len))"
proof -
  have "(nat len + 511) div 512 = 1" using assms by (intro div_nat_eqI) auto
  then show s: "sectors (i_data (direct_inode sector q len)) = 1" by (simp add: sectors_def)
  show ds: "data_sectors C (i_data (direct_inode sector q len)) = {q}" by (simp add: data_sectors_def s sector_at_def lessThan_Suc)
  show "all_sectors C (i_data (direct_inode sector q len)) = {q}" by (simp add: all_sectors_def ds s map_sectors_def)
  show "disk_inj C (i_data (direct_inode sector q len))" by (simp add: disk_inj_def s map_sectors_def lessThan_Suc)
  show "unat q < n \<Longrightarrow> disk_ok n C (i_data (direct_inode sector q len))"
    using assms by (simp add: disk_ok_def s mapped_def map_sectors_def sector_at_def valid_sector_def)
qed

section \<open>Properties\<close>

text \<open>
  C4. What is written into a file is read back: a write inside the file, of any size and at any position, returns the number of
  bytes it was asked to write; reading any range afterwards, across sectors and past the end of the file, returns the
  bytes of the file with exactly the written range replaced; and no file that shares no sector with it changes.
\<close>

theorem inode_write_then_read:
  assumes "inode_ok n i inode s" "disk_inj (cache_content s) (i_data inode)" "i_deny_write_cnt inode = 0"
    and "0 \<le> p" "0 < length buf" "p + int (length buf) \<le> inode_length inode" "0 \<le> r" "int32 r"
  shows "\<exists>s1 s2. inode_write_at (Suc fuel) i buf (int (length buf)) p s = Some (int (length buf), s1) \<and>
           inode_read_at i sz r s1 = Some (slice (nat r) (nat sz) (pwrite (inode_content inode s) (nat p) buf), s2) \<and>
           (\<forall>d. disk_ok n (cache_content s) d \<longrightarrow>
                all_sectors (cache_content s) d \<inter> data_sectors (cache_content s) (i_data inode) = {} \<longrightarrow>
                inode_bytes (cache_content s1) d = inode_bytes (cache_content s) d)"
proof -
  from inode_write_inside [OF assms(1,2,4) _ assms(6) _ assms(3), where buf = buf and save = "save_with (\<lambda>i buf sz offset t. inode_write_at fuel i buf sz offset t)"]
    assms(5) obtain s1 where
    s1: "inode_write_at (Suc fuel) i buf (int (length buf)) p s = Some (int (length buf), s1)" "data_write n i inode s s1"
      "inode_content inode s1 = pwrite (inode_content inode s) (nat p) buf" by auto
  have "inode_ok n i inode s1" using s1(2) by (simp add: data_write_def)
  from inode_read_at_reads [OF this assms(7,8), of sz] s1 data_write_others [OF s1(2)] show ?thesis by auto
qed

theorem inode_write_then_read_witness:
  "\<exists>s1 s2. inode_write_at 1 1 [7, 8] 2 40 fs8 = Some (2, s1) \<and>
     inode_read_at 1 2 40 s1 = Some (slice 40 2 (pwrite (inode_content (direct_inode 1 3 100) fs8) 40 [7, 8]), s2)"
proof -
  have "inode_ok 8 1 (direct_inode 1 3 100) fs8" using fs8_inv direct_inode_ok(5) [of 100 3 8] by (simp add: inode_ok_def)
  from inode_write_then_read [OF this direct_inode_ok(4), of 40 "[7, 8]" 40 0 2] show ?thesis by (auto simp: int32_def)
qed

text \<open>
  C25. An inode survives the disk: the 512 bytes written for an inode, read back, give the same inode.
\<close>

theorem inode_disk_roundtrip:
  assumes "length (direct_blocks d) = DIRECT_BLOCKS_COUNT" "int32 (d_length d)"
  shows "length (encode_inode d) = BLOCK_SECTOR_SIZE \<and> decode_inode (encode_inode d) = d"
  using assms encode_inode_words(1) decode_encode_inode by (simp add: DIRECT_BLOCKS_COUNT_def BLOCK_SECTOR_SIZE_def)

theorem inode_disk_roundtrip_witness:
  "decode_inode (encode_inode (new_inode_disk 100 True)) = new_inode_disk 100 True"
  using inode_disk_roundtrip [of "new_inode_disk 100 True"] by (simp add: new_inode_disk_def DIRECT_BLOCKS_COUNT_def int32_def)

text \<open>
  C24. The two ways from an inode to its sectors agree: the list that \<^verbatim>\<open>get_inode_data_sectors\<close> builds has, for each index, the
  sector that \<^verbatim>\<open>index_to_sector\<close> finds for it, through direct, indirect and doubly indirect blocks, and one
  entry for each sector of the file.
\<close>

theorem data_sectors_agree_with_index:
  assumes "inode_ok n i inode s" "malloc_ok s (4 * sectors (i_data inode))"
  shows "\<exists>xs s'. get_inode_data_sectors inode s = Some (Some xs, s') \<and>
           bytes_to_sectors (d_length (i_data inode)) = Some (length xs) \<and>
           (\<forall>k<length xs. \<exists>s''. index_to_sector (i_data inode) (int k) s = Some (xs ! k, s''))"
proof -
  have d: "cache_inv n s" "mapped n (cache_content s) (i_data inode) (sectors (i_data inode))" "malloc_ok s 512"
    "bytes_to_sectors (d_length (i_data inode)) = Some (sectors (i_data inode))"
    using assms(1) bytes_to_sectors_eq by (auto simp: inode_ok_def disk_ok_def)
  have "\<exists>s''. index_to_sector (i_data inode) (int k) s = Some (sector_at (cache_content s) (i_data inode) k, s'')"
    if "k < sectors (i_data inode)" for k using index_to_sector_keeps [OF d(1,2) that d(3)] by blast
  with get_inode_data_sectors_list [OF assms] d(4) show ?thesis by force
qed

theorem data_sectors_agree_with_index_witness:
  "\<exists>xs s'. get_inode_data_sectors (direct_inode 1 3 100) fs8 = Some (Some xs, s') \<and> length xs = 1 \<and>
     (\<exists>s''. index_to_sector (i_data (direct_inode 1 3 100)) 0 fs8 = Some (xs ! 0, s''))"
proof -
  have "inode_ok 8 1 (direct_inode 1 3 100) fs8" using fs8_inv direct_inode_ok(5) [of 100 3 8] by (simp add: inode_ok_def)
  from data_sectors_agree_with_index [OF this] show ?thesis
    using bytes_to_sectors_eq [of "i_data (direct_inode 1 3 100)"] direct_inode_ok(1) [of 100 1 3] by fastforce
qed

text \<open>
  Opening an inode twice and closing it once frees it under the second opener: \<^verbatim>\<open>inode_reopen\<close> does not count, so the first
  \<^verbatim>\<open>inode_close\<close> releases the inode, and the next access through the other pointer is undefined.
\<close>

theorem second_opener_dangles:
  assumes "cache_inv n s" "valid_sector n q" "malloc_ok s 544" "find_inode q (open_inodes s) s = Some None"
    and "0 < sz"
  shows "\<exists>i s1 s2. inode_open q s = Some (Some i, s1) \<and> inode_open q s1 = Some (Some i, s1) \<and>
           inode_close save (Some i) s1 = Some s2 \<and> open_inodes s2 = open_inodes s \<and> inode_read_at i sz ofs s2 = None"
proof -
  let ?i = "next_inode s" and ?t = "s\<lparr>open_inodes := next_inode s # open_inodes s, next_inode := Suc (next_inode s)\<rparr>"
  have inv: "cache_inv n ?t" using assms(1) by (rule open_upd)
  from read_keeps [OF inv assms(2)] obtain d t where
    t: "buffer_cache_read q ?t = Some (d, t)" "cache_keeps n ?t t" by blast
  then have "cstate.more t = cstate.more ?t" by (simp add: cache_keeps_def)
  note m = cache_keeps_more [OF this]
  let ?inode = "\<lparr>i_sector = q, i_open_cnt = 1, i_removed = False, i_deny_write_cnt = 0, i_data = decode_inode d\<rparr>"
  let ?s1 = "set_inode ?i ?inode t"
  have "inode_open q s = Some (Some ?i, ?s1)" using assms(3,4) t(1) by (simp add: inode_open_def Let_def)
  moreover have "inode_open q ?s1 = Some (Some ?i, ?s1)" using m by (simp add: inode_open_def set_inode_def inode_reopen_def)
  moreover define s2 where "s2 = (set_inode ?i (?inode\<lparr>i_open_cnt := 0\<rparr>) ?s1)\<lparr>open_inodes := open_inodes s,
      inodes := (inodes (set_inode ?i (?inode\<lparr>i_open_cnt := 0\<rparr>) ?s1))(?i := None)\<rparr>"
  moreover have "inode_close save (Some ?i) ?s1 = Some s2"
    using m by (simp add: inode_close_def set_inode_def s2_def int32_def)
  moreover have "inode_read_at ?i sz ofs s2 = None"
    using assms(5) by (simp add: inode_read_at_def s2_def read_loop.simps)
  moreover have "open_inodes s2 = open_inodes s" by (simp add: s2_def)
  ultimately show ?thesis by blast
qed


theorem second_opener_dangles_witness:
  "\<exists>i s1 s2. inode_open 5 fs8 = Some (Some i, s1) \<and> inode_open 5 s1 = Some (Some i, s1) \<and>
     inode_close (save_map 1) (Some i) s1 = Some s2 \<and> open_inodes s2 = [1, 0] \<and> inode_read_at i 1 0 s2 = None"
  using second_opener_dangles [OF fs8_inv, of 5 1 "save_map 1" 0] by (simp add: valid_sector_def)

text \<open>
  A write of no bytes at the start of a file truncates it: the position of the last byte is then -1, which counts as
  beyond the end, and the file is ``extended'' to length 0.
\<close>

theorem empty_write_truncates:
  assumes "cache_inv n s" "inodes s i = Some inode" "i_deny_write_cnt inode = 0" "valid_sector n (i_sector inode)"
    and "length (direct_blocks (i_data inode)) = 123" "\<not> grows_free_map i s"
  shows "\<exists>s'. inode_write_at (Suc fuel) i buf 0 0 s = Some (0, s') \<and>
           inodes s' i = Some (inode\<lparr>i_data := (i_data inode)\<lparr>d_length := 0\<rparr>\<rparr>) \<and>
           d_length (decode_inode (cache_content s' (i_sector inode))) = 0"
proof -
  let ?d = "(i_data inode)\<lparr>d_length := 0\<rparr>" and ?inode = "inode\<lparr>i_data := (i_data inode)\<lparr>d_length := 0\<rparr>\<rparr>"
  have d: "length (encode_inode ?d) = 512" "decode_inode (encode_inode ?d) = ?d"
    using assms(5) encode_inode_words(1) [of ?d] decode_encode_inode [of ?d] by (auto simp: int32_def)
  have "cache_inv n (set_inode i ?inode s)" using assms(1) by (simp add: set_inode_upd)
  from write_stores [OF this assms(4) d(1)] obtain s' where
    s': "buffer_cache_write (i_sector inode) (encode_inode ?d) (set_inode i ?inode s) = Some s'"
      "cstate.more s' = cstate.more (set_inode i ?inode s)"
      "\<forall>k. valid_sector n k \<longrightarrow> cache_content s' k = (if k = i_sector inode then encode_inode ?d else cache_content (set_inode i ?inode s) k)"
    by blast
  have "inode_write_at (Suc fuel) i buf 0 0 s = Some (0, s')"
    using assms s'(1) by (simp add: inode_write_with_def byte_to_sector_def inode_extend_def inode_reserve_def bytes_to_sectors_def
        int32_def DIRECT_BLOCKS_COUNT_def write_loop.simps)
  with s' d(2) assms(4) cache_keeps_more(2) [OF s'(2)] show ?thesis by (simp add: set_inode_def)
qed

theorem empty_write_truncates_witness:
  "\<exists>s'. inode_write_at 1 1 [] 0 0 fs8 = Some (0, s') \<and> d_length (decode_inode (cache_content s' 1)) = 0"
  using empty_write_truncates [OF fs8_inv, of 1 "direct_inode 1 3 100" 0 "[]"] by (auto simp: valid_sector_def grows_free_map_def)

end
