(* ===== verification/Allocation.thy ===== *)
theory Allocation
  imports Inode_Data
begin

text \<open>
  Allocation of sectors (\<^verbatim>\<open>a3/fs/free-map.c\<close> and the reserving half of \<^verbatim>\<open>a3/fs/inode.c\<close>). The free map
  is a bitmap in memory and a file on the same disk; each allocation changes the one and rewrites the other.
  The contract of the operation that saves the map is the locale \<open>map_saver\<close>; the lemmas on allocation are
  proved from it, and the code's own saving operation, which writes the file through its inode, is shown to meet it.
\<close>

section \<open>The state of the free map\<close>

definition used :: "'a fstate_scheme \<Rightarrow> block_sector_t \<Rightarrow> bool" where
  "used s q \<longleftrightarrow> unat q < bit_cnt (free_map s) \<and> bm_bit (free_map s) (unat q)"

definition free_sectors :: "'a fstate_scheme \<Rightarrow> block_sector_t set" where
  "free_sectors s = {q. unat q < bit_cnt (free_map s) \<and> \<not> bm_bit (free_map s) (unat q)}"

definition map_inode :: "'a fstate_scheme \<Rightarrow> inode option" where
  "map_inode s = do { f \<leftarrow> free_map_file s; fl \<leftarrow> open_files s f; inodes s (f_inode fl) }"

text \<open>The sectors of the free map file.\<close>

definition map_area :: "'a fstate_scheme \<Rightarrow> block_sector_t set" where
  "map_area s = (case map_inode s of None \<Rightarrow> {} | Some inode \<Rightarrow> all_sectors (cache_content s) (i_data inode))"

definition map_file_ok :: "nat \<Rightarrow> 'a fstate_scheme \<Rightarrow> bool" where
  "map_file_ok n s \<longleftrightarrow> (free_map_file s \<noteq> None \<longrightarrow>
     (\<exists>inode. map_inode s = Some inode \<and> i_deny_write_cnt inode = 0 \<and> disk_ok n (cache_content s) (i_data inode) \<and>
        disk_inj (cache_content s) (i_data inode) \<and> d_length (i_data inode) = int (byte_cnt (bit_cnt (free_map s)))))"

text \<open>The invariant: the map covers sectors of the device, the sectors of its own file and the sector of its inode are in use.\<close>

definition fm_inv :: "nat \<Rightarrow> 'a fstate_scheme \<Rightarrow> bool" where
  "fm_inv n s \<longleftrightarrow> cache_inv n s \<and> malloc_ok s 512 \<and> free_map_wf (free_map s) \<and> bit_cnt (free_map s) \<le> n \<and>
     used s 0 \<and> map_file_ok n s \<and> (\<forall>q\<in>map_area s. used s q)"

text \<open>The file holds the map that is in memory.\<close>

definition synced :: "'a fstate_scheme \<Rightarrow> bool" where
  "synced s \<longleftrightarrow> (\<forall>inode. map_inode s = Some inode \<longrightarrow> inode_content inode s = bytes_of_words (bits (free_map s)))"

definition same_tables :: "'a fstate_scheme \<Rightarrow> 'a fstate_scheme \<Rightarrow> bool" where
  "same_tables s s' \<longleftrightarrow> fs_device s' = fs_device s \<and> malloc_ok s' = malloc_ok s \<and> inodes s' = inodes s \<and>
     open_inodes s' = open_inodes s \<and> next_inode s' = next_inode s \<and> open_files s' = open_files s \<and>
     next_file s' = next_file s \<and> free_map_file s' = free_map_file s \<and> fstate.more s' = fstate.more s"

text \<open>\<open>grow n K s s'\<close>: exactly the sectors \<open>K\<close>, which were free, have been taken, and nothing else but the free
  map file has changed on the disk.\<close>

definition grow :: "nat \<Rightarrow> block_sector_t set \<Rightarrow> 'a fstate_scheme \<Rightarrow> 'a fstate_scheme \<Rightarrow> bool" where
  "grow n K s s' \<longleftrightarrow> fm_inv n s' \<and> same_tables s s' \<and> bit_cnt (free_map s') = bit_cnt (free_map s) \<and>
     map_area s' = map_area s \<and> K \<subseteq> free_sectors s \<and> free_sectors s' = free_sectors s - K \<and>
     (\<forall>q. valid_sector n q \<longrightarrow> q \<notin> map_area s \<longrightarrow> q \<notin> K \<longrightarrow> cache_content s' q = cache_content s q)"

lemma same_tables_refl: "same_tables s s"
  by (simp add: same_tables_def)

lemma same_tables_trans: "same_tables s t \<Longrightarrow> same_tables t u \<Longrightarrow> same_tables s u"
  by (simp add: same_tables_def)

lemma grow_refl: "fm_inv n s \<Longrightarrow> grow n {} s s"
  by (simp add: grow_def same_tables_refl)

lemma grow_trans:
  assumes "grow n K s t" "grow n L t u"
  shows "grow n (K \<union> L) s u" "K \<inter> L = {}"
  using assms by (auto simp: grow_def intro: same_tables_trans)

lemma console_upd [simp]:
  fixes s :: "'a cstate_scheme"
  shows "dev_sector d (s\<lparr>console := con\<rparr>) = dev_sector d s" "dev_ok m d (s\<lparr>console := con\<rparr>) = dev_ok m d s"
    "cache_content (s\<lparr>console := con\<rparr>) = cache_content s" "cache_inv n (s\<lparr>console := con\<rparr>) = cache_inv n s"
proof -
  show *: "dev_sector d (s\<lparr>console := con\<rparr>) = dev_sector d s" for d by (simp add: dev_sector_def fun_eq_iff)
  show **: "dev_ok m d (s\<lparr>console := con\<rparr>) = dev_ok m d s" for m d by (simp add: dev_ok_def cong: option.case_cong)
  show "cache_content (s\<lparr>console := con\<rparr>) = cache_content s" "cache_inv n (s\<lparr>console := con\<rparr>) = cache_inv n s"
    by (simp_all add: cache_content_def cache_inv_def * **)
qed

lemma fm_upd [simp]:
  fixes s :: "'a fstate_scheme"
  shows "dev_sector d (s\<lparr>free_map := b\<rparr>) = dev_sector d s" "dev_ok m d (s\<lparr>free_map := b\<rparr>) = dev_ok m d s"
    "cache_content (s\<lparr>free_map := b\<rparr>) = cache_content s" "cache_inv n (s\<lparr>free_map := b\<rparr>) = cache_inv n s"
proof -
  show *: "dev_sector d (s\<lparr>free_map := b\<rparr>) = dev_sector d s" for d by (simp add: dev_sector_def fun_eq_iff)
  show **: "dev_ok m d (s\<lparr>free_map := b\<rparr>) = dev_ok m d s" for m d by (simp add: dev_ok_def cong: option.case_cong)
  show "cache_content (s\<lparr>free_map := b\<rparr>) = cache_content s" "cache_inv n (s\<lparr>free_map := b\<rparr>) = cache_inv n s"
    by (simp_all add: cache_content_def cache_inv_def * **)
qed

lemma map_inode_upd [simp]:
  "map_inode (s\<lparr>free_map := b\<rparr>) = map_inode s" "map_area (s\<lparr>free_map := b\<rparr>) = map_area s"
  "map_inode (s\<lparr>console := con\<rparr>) = map_inode s" "map_area (s\<lparr>console := con\<rparr>) = map_area s"
  by (simp_all add: map_inode_def map_area_def cong: option.case_cong)

lemma map_inode_same: "same_tables s s' \<Longrightarrow> map_inode s' = map_inode s"
  by (simp add: map_inode_def same_tables_def)

lemma same_tables_more: "fs_device s' = fs_device s \<Longrightarrow> cstate.more s' = cstate.more s \<Longrightarrow> same_tables s s' \<and> free_map s' = free_map s"
  using cache_keeps_more [of s' s] by (simp add: same_tables_def)

lemma map_area_agree:
  assumes "map_inode s' = map_inode s" "agree (map_area s) (cache_content s) (cache_content s')"
  shows "map_area s' = map_area s"
  using assms untouched_bytes(2) by (auto simp: map_area_def split: option.splits)

lemma disk_agree:
  assumes "agree (all_sectors C d) C C'"
  shows "disk_ok n C d \<Longrightarrow> disk_ok n C' d" "disk_inj C d \<Longrightarrow> disk_inj C' d"
proof -
  have ag: "agree (map_sectors C d (sectors d)) C C'" using assms by (simp add: agree_def all_sectors_def)
  note sa = sector_at_agree [OF ag] and ms = map_sectors_agree [OF ag]
  show "disk_ok n C d \<Longrightarrow> disk_ok n C' d" using mapped_agree ag by (auto simp: disk_ok_def)
  have "data_sectors C' d = data_sectors C d" using sa by (auto simp: data_sectors_def)
  then show "disk_inj C d \<Longrightarrow> disk_inj C' d" using sa ms by (simp add: disk_inj_def inj_on_def)
qed

lemma map_file_agree:
  assumes "map_file_ok n s" "same_tables s s' \<and> free_map s' = free_map s" "agree (map_area s) (cache_content s) (cache_content s')"
  shows "map_file_ok n s'"
  unfolding map_file_ok_def
proof
  assume "free_map_file s' \<noteq> None"
  then have "free_map_file s \<noteq> None" using assms(2) by (simp add: same_tables_def)
  with assms(1) obtain inode where
    inode: "map_inode s = Some inode" "i_deny_write_cnt inode = 0" "disk_ok n (cache_content s) (i_data inode)"
      "disk_inj (cache_content s) (i_data inode)" "d_length (i_data inode) = int (byte_cnt (bit_cnt (free_map s)))"
    by (auto simp: map_file_ok_def)
  have "agree (all_sectors (cache_content s) (i_data inode)) (cache_content s) (cache_content s')"
    using assms(3) inode(1) by (simp add: map_area_def)
  note disk_agree [OF this]
  with inode assms(2) map_inode_same [of s s'] show
    "\<exists>inode. map_inode s' = Some inode \<and> i_deny_write_cnt inode = 0 \<and> disk_ok n (cache_content s') (i_data inode) \<and>
        disk_inj (cache_content s') (i_data inode) \<and> d_length (i_data inode) = int (byte_cnt (bit_cnt (free_map s')))"
    by auto
qed

lemma group_at_one: "group_at bs (Suc 0) v k \<longleftrightarrow> k < length bs \<and> bs ! k = v"
  by (auto simp: group_at_def slice_Suc)

lemma marked_one:
  assumes "bm_abs b' = fill k 1 True (bm_abs b)" "k < bit_cnt b"
  shows "bit_cnt b' = bit_cnt b" "\<And>j. j < bit_cnt b \<Longrightarrow> bm_bit b' j \<longleftrightarrow> j = k \<or> bm_bit b j"
proof -
  show n: "bit_cnt b' = bit_cnt b" using arg_cong [OF assms(1), of length] by simp
  fix j assume j: "j < bit_cnt b"
  with arg_cong [OF assms(1), of "\<lambda>xs. xs ! j"] n show "bm_bit b' j \<longleftrightarrow> j = k \<or> bm_bit b j" by auto
qed

lemma unat_of_nat_small: "k < 2 ^ 32 \<Longrightarrow> unat (of_nat k :: 32 word) = k"
  by (simp add: unat_of_nat)

section \<open>The contract of saving\<close>

locale map_saver =
  fixes n :: nat and save :: "'a saver"
  assumes saves: "fm_inv n s \<Longrightarrow> free_map_file s \<noteq> None \<Longrightarrow>
      \<exists>s'. save s = Some (True, s') \<and> fm_inv n s' \<and> same_tables s s' \<and> free_map s' = free_map s \<and> map_area s' = map_area s \<and>
           (\<forall>q. valid_sector n q \<longrightarrow> q \<notin> map_area s \<longrightarrow> cache_content s' q = cache_content s q) \<and> synced s'"
begin

lemma allocate_one:
  assumes inv: "fm_inv n s" and free: "free_sectors s \<noteq> {}"
  shows "\<exists>q s'. free_map_allocate save 1 s = Some (Some q, s') \<and> grow n {q} s s' \<and> (\<forall>r\<in>free_sectors s. unat q \<le> unat r) \<and> synced s'"
proof -
  let ?b = "free_map s"
  have wf: "free_map_wf ?b" using inv by (simp add: fm_inv_def)
  from fm.claim_law [OF wf, of 0 1 False "console s"] obtain k b' where
    e: "bitmap_scan_and_flip ?b 0 1 False (console s) = Some (k, b', console s)" by auto
  from free obtain r :: block_sector_t where r: "unat r < bit_cnt ?b" "\<not> bm_bit ?b (unat r)" by (auto simp: free_sectors_def)
  have z: "0 \<le> length (bm_abs ?b)" by simp
  from wf z e show ?thesis
  proof (cases rule: fm.claim_cases)
    case none
    have "\<not> group_at (bm_abs ?b) 1 False (unat r)" using none(5) by simp
    with r show ?thesis by (simp add: group_at_one)
  next
    case found
    then have k: "k < bit_cnt ?b" "\<not> bm_bit ?b k" by (simp_all add: group_at_one)
    let ?q = "of_nat k :: block_sector_t" and ?s1 = "s\<lparr>free_map := b', console := console s\<rparr>"
    have q: "unat ?q = k" using k(1) wf by (intro unat_of_nat_small) (simp add: free_map_wf_def BITMAP_ERROR_def)
    have "bm_abs b' = fill k 1 True (bm_abs ?b)" using found(7) by simp
    note b' = marked_one [OF this k(1)]
    have bits: "bit_cnt b' = bit_cnt ?b" by (fact b'(1))
    have inv1: "fm_inv n ?s1" using inv b' found(3) by (auto simp: fm_inv_def used_def map_file_ok_def)
    have f1: "free_sectors ?s1 = free_sectors s - {?q}"
      using b' q by (auto simp: free_sectors_def)
    have first: "\<forall>r\<in>free_sectors s. unat ?q \<le> unat r"
    proof
      fix r :: block_sector_t assume "r \<in> free_sectors s"
      then have "group_at (bm_abs ?b) 1 False (unat r)" by (simp add: free_sectors_def group_at_one)
      with found(8) show "unat ?q \<le> unat r" unfolding q by (meson leI le0)
    qed
    have qf: "?q \<in> free_sectors s" using k q by (simp add: free_sectors_def)
    show ?thesis
    proof (cases "free_map_file s")
      case None
      have "grow n {?q} s ?s1" using inv1 f1 qf bits by (simp add: grow_def same_tables_def)
      moreover have "synced ?s1" using None by (simp add: synced_def map_inode_def)
      ultimately show ?thesis using e found(1) None first by (auto simp: free_map_allocate_def)
    next
      case (Some f)
      with saves [OF inv1] obtain s' where
        s': "save ?s1 = Some (True, s')" "fm_inv n s'" "same_tables ?s1 s'" "free_map s' = b'" "map_area s' = map_area s"
          "\<forall>q. valid_sector n q \<longrightarrow> q \<notin> map_area s \<longrightarrow> cache_content s' q = cache_content s q" "synced s'" by auto
      have "free_sectors s' = free_sectors ?s1" using s'(4) by (simp add: free_sectors_def)
      then have "grow n {?q} s s'" using s' f1 qf bits by (simp add: grow_def same_tables_def)
      with e found(1) Some first s'(1,7) show ?thesis by (auto simp: free_map_allocate_def)
    qed
  qed
qed

lemma allocate_none:
  assumes "fm_inv n s" "free_sectors s = {}"
  shows "\<exists>s'. free_map_allocate save 1 s = Some (None, s') \<and> grow n {} s s' \<and> (\<forall>q. cache_content s' q = cache_content s q)"
proof -
  let ?b = "free_map s"
  have wf: "free_map_wf ?b" using assms(1) by (simp add: fm_inv_def)
  from fm.claim_law [OF wf, of 0 1 False "console s"] obtain k b' where
    e: "bitmap_scan_and_flip ?b 0 1 False (console s) = Some (k, b', console s)" by auto
  have z: "0 \<le> length (bm_abs ?b)" by simp
  from wf z e show ?thesis
  proof (cases rule: fm.claim_cases)
    case none
    have b': "bit_cnt b' = bit_cnt ?b" "\<And>j. j < bit_cnt ?b \<Longrightarrow> bm_bit b' j = bm_bit ?b j"
      using none(4) length_bm_abs nth_bm_abs by metis+
    let ?s1 = "s\<lparr>free_map := b', console := console s\<rparr>"
    have "fm_inv n ?s1" using assms(1) b' none(3) by (auto simp: fm_inv_def used_def map_file_ok_def)
    moreover have "free_sectors ?s1 = free_sectors s" using b' by (auto simp: free_sectors_def)
    ultimately have "grow n {} s ?s1" using b'(1) by (simp add: grow_def same_tables_def)
    with e none(1) show ?thesis by (auto simp: free_map_allocate_def)
  next
    case found
    then have "k < bit_cnt ?b" "\<not> bm_bit ?b k" by (simp_all add: group_at_one)
    moreover from this have "unat (of_nat k :: block_sector_t) = k"
      using wf by (intro unat_of_nat_small) (simp add: free_map_wf_def BITMAP_ERROR_def)
    ultimately have "of_nat k \<in> free_sectors s" by (simp add: free_sectors_def)
    with assms(2) show ?thesis by simp
  qed
qed

text \<open>Writing a sector that is not part of the free map file.\<close>

lemma write_outside:
  assumes "grow n K s t" "valid_sector n q" "q \<notin> map_area s" "length d = 512"
  shows "\<exists>u. buffer_cache_write q d t = Some u \<and> fm_inv n u \<and> same_tables s u \<and> free_map u = free_map t \<and>
     map_area u = map_area s \<and> (\<forall>r. valid_sector n r \<longrightarrow> cache_content u r = (if r = q then d else cache_content t r))"
proof -
  have t: "fm_inv n t" "same_tables s t" "map_area t = map_area s" using assms(1) by (simp_all add: grow_def)
  then have "cache_inv n t" by (simp add: fm_inv_def)
  from write_stores [OF this assms(2,4)] obtain u where
    u: "buffer_cache_write q d t = Some u" "cache_inv n u" "fs_device u = fs_device t" "cstate.more u = cstate.more t"
      "\<forall>r. valid_sector n r \<longrightarrow> cache_content u r = (if r = q then d else cache_content t r)" by blast
  note st = same_tables_more [OF u(3,4)]
  then have mi: "map_inode u = map_inode t" using map_inode_same by blast
  have valid: "valid_sector n r" if "r \<in> map_area t" for r
    using t(1) that by (auto simp: fm_inv_def used_def valid_sector_def)
  have ag: "agree (map_area t) (cache_content t) (cache_content u)"
    using valid u(5) assms(3) t(3) by (auto simp: agree_def)
  note ma = map_area_agree [OF mi ag]
  have "map_file_ok n u"
    using t(1) st mi map_file_agree [OF _ _ ag] by (simp add: fm_inv_def)
  with t u st ma same_tables_trans show ?thesis
    by (auto simp: fm_inv_def used_def same_tables_def)
qed

lemma free_valid: "fm_inv n s \<Longrightarrow> q \<in> free_sectors s \<Longrightarrow> valid_sector n q \<and> q \<notin> map_area s \<and> q \<noteq> 0"
  by (auto simp: fm_inv_def free_sectors_def used_def valid_sector_def)

lemma reserve_entry_takes:
  assumes "fm_inv n s" "free_sectors s \<noteq> {}"
  shows "\<exists>q s'. reserve_entry save 0 s = Some (True, q, s') \<and> grow n {q} s s' \<and> cache_content s' q = zeros"
proof -
  from allocate_one [OF assms] obtain q t where
    t: "free_map_allocate save 1 s = Some (Some q, t)" "grow n {q} s t" by blast
  then have "q \<in> free_sectors s" by (simp add: grow_def)
  note q = free_valid [OF assms(1) this]
  from write_outside [OF t(2), of q zeros] q obtain u where
    u: "buffer_cache_write q zeros t = Some u" "fm_inv n u" "same_tables s u" "free_map u = free_map t" "map_area u = map_area s"
      "\<forall>r. valid_sector n r \<longrightarrow> cache_content u r = (if r = q then zeros else cache_content t r)" by (auto simp: zeros_def)
  have "grow n {q} s u" using t(2) u by (auto simp: grow_def free_sectors_def)
  with t(1) u q show ?thesis by (auto simp: reserve_entry_def)
qed

lemma reserve_loop_takes:
  "fm_inv n s \<Longrightarrow> l \<le> card (free_sectors s) \<Longrightarrow> i + l \<le> length blks \<Longrightarrow> (\<forall>j. i \<le> j \<and> j < i + l \<longrightarrow> blks ! j = 0) \<Longrightarrow>
   \<exists>qs s'. reserve_loop (\<lambda>_ e t. reserve_entry save e t) 1 l i l blks s =
       Some (True, 0, take i blks @ qs @ drop (i + l) blks, s') \<and> length qs = l \<and> distinct qs \<and>
     grow n (set qs) s s' \<and> (\<forall>q\<in>set qs. cache_content s' q = zeros)"
proof (induction l arbitrary: i blks s)
  case 0
  then show ?case using grow_refl [of n s] by auto
next
  case (Suc l)
  have "free_sectors s \<noteq> {}" using Suc.prems(2) by auto
  from reserve_entry_takes [OF Suc.prems(1) this] obtain q t where
    t: "reserve_entry save 0 s = Some (True, q, t)" "grow n {q} s t" "cache_content t q = zeros" by blast
  have q: "q \<in> free_sectors s" "free_sectors t = free_sectors s - {q}" "fm_inv n t" "map_area t = map_area s"
    using t(2) by (simp_all add: grow_def)
  then have "l \<le> card (free_sectors t)" using Suc.prems(2) by simp
  moreover have "\<forall>j. Suc i \<le> j \<and> j < Suc i + l \<longrightarrow> blks[i := q] ! j = 0" using Suc.prems(4) by simp
  ultimately obtain qs u where
    u: "reserve_loop (\<lambda>_ e t. reserve_entry save e t) 1 l (Suc i) l (blks[i := q]) t =
       Some (True, 0, take (Suc i) (blks[i := q]) @ qs @ drop (Suc i + l) (blks[i := q]), u)" "length qs = l" "distinct qs"
      "grow n (set qs) t u" "\<forall>r\<in>set qs. cache_content u r = zeros"
    using Suc.IH [of t "Suc i" "blks[i := q]"] q(3) Suc.prems(3) by auto
  note g = grow_trans [OF t(2) u(4)]
  have "cache_content u q = cache_content t q"
    using u(4) g(2) free_valid [OF Suc.prems(1) q(1)] q(4) by (auto simp: grow_def)
  moreover have "take (Suc i) (blks[i := q]) @ qs @ drop (Suc i + l) (blks[i := q]) = take i blks @ (q # qs) @ drop (i + Suc l) blks"
    using Suc.prems(3) by (simp add: take_Suc_conv_app_nth)
  ultimately show ?case
    using Suc.prems(3,4) t u g by (intro exI [of _ "q # qs"] exI [of _ u]) auto
qed

text \<open>When the disk is full, reserving an indirect block goes on with the block number 0 that it has not replaced.\<close>

lemma reserve_indirect_full:
  assumes "fm_inv n s" "free_sectors s = {}" "0 \<notin> map_area s" "0 < num" "num \<le> 128"
  shows "\<exists>s'. inode_reserve_indirect save 1 num 0 s = Some (False, 0, s') \<and> cache_content s' 0 = zeros"
proof -
  have a: "assertion fn True s = s" for fn by (simp add: assertion_def c_assert_def)
  have v0: "valid_sector n 0" using assms(1) by (auto simp: fm_inv_def used_def valid_sector_def)
  from allocate_none [OF assms(1,2)] obtain t where
    t: "free_map_allocate save 1 s = Some (None, t)" "grow n {} s t" by blast
  from write_outside [OF t(2) v0 assms(3), of zeros] obtain u where
    u: "buffer_cache_write 0 zeros t = Some u" "fm_inv n u" "free_map u = free_map t"
      "\<forall>r. valid_sector n r \<longrightarrow> cache_content u r = (if r = 0 then zeros else cache_content t r)" by (auto simp: zeros_def)
  have "cache_inv n u" using u(2) by (simp add: fm_inv_def)
  from read_keeps [OF this v0] u(4) v0 obtain v where
    v: "buffer_cache_read 0 u = Some (zeros, v)" "cache_keeps n u v" by auto
  then have keep: "cache_inv n v" "fs_device v = fs_device u" "cstate.more v = cstate.more u" by (simp_all add: cache_keeps_def)
  note st = same_tables_more [OF keep(2,3)]
  have valid: "valid_sector n r" if "r \<in> map_area u" for r
    using u(2) that by (auto simp: fm_inv_def used_def valid_sector_def)
  have ag: "agree (map_area u) (cache_content u) (cache_content v)" using valid v(2) by (auto simp: agree_def cache_keeps_def)
  have "map_area v = map_area u" using map_area_agree [OF _ ag] map_inode_same st by blast
  moreover have "map_file_ok n v" using map_file_agree [OF _ st ag] u(2) by (simp add: fm_inv_def)
  ultimately have inv: "fm_inv n v" using u(2) keep(1) st by (auto simp: fm_inv_def used_def same_tables_def)
  have "free_sectors v = {}" using st u(3) t(2) assms(2) by (auto simp: grow_def free_sectors_def)
  from allocate_none [OF inv this] obtain w where
    w: "free_map_allocate save 1 v = Some (None, w)" "\<forall>q. cache_content w q = cache_content v q" by blast
  have b0: "read_blocks 128 zeros ! 0 = 0" by (simp add: block_word_def zeros_def slice_def numeral_eq_Suc)
  obtain l where "DIV_ROUND_UP num 1 = Suc l" using assms(4,5) by (cases num) (auto simp: DIV_ROUND_UP_def)
  then have "inode_reserve_indirect save 1 num 0 s = Some (False, 0, w)"
    using t(1) u(1) v(1) w(1) b0 by (simp add: a reserve_entry_def Let_def)
  moreover have "cache_content w 0 = zeros" using w(2) v(2) u(4) v0 by (simp add: cache_keeps_def)
  ultimately show ?thesis by blast
qed

text \<open>Creating a file that fits in the direct blocks.\<close>

lemma reserve_direct:
  assumes inv: "fm_inv n s" and len: "0 \<le> len" "len \<le> 123 * 512" and room: "(nat len + 511) div 512 \<le> card (free_sectors s)"
  shows "\<exists>qs s'. inode_allocate save (new_inode_disk len dir) s =
      Some (True, (new_inode_disk len dir)\<lparr>direct_blocks := qs @ replicate (123 - length qs) 0\<rparr>, s') \<and>
    length qs = (nat len + 511) div 512 \<and> distinct qs \<and> grow n (set qs) s s' \<and> (\<forall>q\<in>set qs. cache_content s' q = zeros)"
proof -
  define k where "k = (nat len + 511) div 512"
  have k: "k \<le> 123" "bytes_to_sectors len = Some k"
    using len div_le_mono [of "nat len + 511" "123 * 512 + 511" 512] bytes_to_sectors_eq [of "new_inode_disk len dir"]
    by (auto simp: k_def new_inode_disk_def sectors_def)
  from reserve_loop_takes [OF inv, of k 0 "replicate 123 0"] room k(1) obtain qs s' where
    qs: "reserve_loop (\<lambda>_ e t. reserve_entry save e t) 1 k 0 k (replicate 123 0) s =
       Some (True, 0, qs @ replicate (123 - k) 0, s')" "length qs = k" "distinct qs" "grow n (set qs) s s'"
      "\<forall>q\<in>set qs. cache_content s' q = zeros" by (auto simp: k_def)
  then have "inode_allocate save (new_inode_disk len dir) s =
      Some (True, (new_inode_disk len dir)\<lparr>direct_blocks := qs @ replicate (123 - length qs) 0\<rparr>, s')"
    using len(1) k by (simp add: inode_allocate_def inode_reserve_def new_inode_disk_def DIRECT_BLOCKS_COUNT_def Let_def min_absorb1)
  with qs show ?thesis by (intro exI [of _ qs] exI [of _ s']) (simp add: k_def)
qed

lemma create_direct:
  assumes inv: "fm_inv n s" and len: "0 \<le> len" "len \<le> 123 * 512" and room: "(nat len + 511) div 512 \<le> card (free_sectors s)"
    and sector: "used s sector" "sector \<notin> map_area s"
  shows "\<exists>d s'. inode_create save sector len dir s = Some (True, s') \<and> fm_inv n s' \<and> same_tables s s' \<and>
      map_area s' = map_area s \<and> bit_cnt (free_map s') = bit_cnt (free_map s) \<and>
      decode_inode (cache_content s' sector) = d \<and> d_length d = len \<and> is_dir d = dir \<and>
      disk_ok n (cache_content s') d \<and> disk_inj (cache_content s') d \<and> inode_bytes (cache_content s') d = replicate (nat len) 0 \<and>
      all_sectors (cache_content s') d \<subseteq> free_sectors s \<and> free_sectors s' = free_sectors s - all_sectors (cache_content s') d \<and>
      (\<forall>q. valid_sector n q \<longrightarrow> q \<notin> map_area s \<longrightarrow> q \<notin> all_sectors (cache_content s') d \<longrightarrow> q \<noteq> sector \<longrightarrow>
           cache_content s' q = cache_content s q)"
proof -
  let ?s0 = "assertion ''inode_create'' (len \<ge> 0) s"
  have s0: "?s0 = s" using len(1) by (simp add: assertion_def c_assert_def)
  from reserve_direct [OF inv len room, of dir] obtain qs t where
    t: "inode_allocate save (new_inode_disk len dir) s =
        Some (True, (new_inode_disk len dir)\<lparr>direct_blocks := qs @ replicate (123 - length qs) 0\<rparr>, t)"
      "length qs = (nat len + 511) div 512" "distinct qs" "grow n (set qs) s t" "\<forall>q\<in>set qs. cache_content t q = zeros" by blast
  define d where "d = (new_inode_disk len dir)\<lparr>direct_blocks := qs @ replicate (123 - length qs) 0\<rparr>"
  have k: "length qs \<le> 123" using t(2) len div_le_mono [of "nat len + 511" "123 * 512 + 511" 512] by simp
  have sel: "length (direct_blocks d) = 123" "d_length d = len" "is_dir d = dir" "sectors d = length qs" "int32 (d_length d)"
    using k t(2) len by (auto simp: d_def new_inode_disk_def sectors_def int32_def)
  have vs: "valid_sector n sector" using sector(1) inv by (simp add: used_def fm_inv_def valid_sector_def)
  from write_outside [OF t(4) vs sector(2), of "encode_inode d"] sel(1) encode_inode_words(1) obtain u where
    u: "buffer_cache_write sector (encode_inode d) t = Some u" "fm_inv n u" "same_tables s u" "free_map u = free_map t" "map_area u = map_area s"
      "\<forall>r. valid_sector n r \<longrightarrow> cache_content u r = (if r = sector then encode_inode d else cache_content t r)" by blast
  have at: "sector_at C d i = qs ! i" if "i < length qs" for C i
    using that k by (simp add: sector_at_def d_def nth_append)
  have all: "all_sectors C d = set qs" for C
    using at k by (auto simp: all_sectors_def data_sectors_def map_sectors_def sel(4) in_set_conv_nth image_iff)
  have qs: "q \<in> set qs \<Longrightarrow> q \<in> free_sectors s \<and> valid_sector n q \<and> q \<noteq> sector" for q
    using t(4) free_valid [OF inv] sector(1) by (auto simp: grow_def used_def free_sectors_def)
  have zero: "cache_content u q = zeros" if "q \<in> set qs" for q using qs [OF that] u(6) t(5) that by simp
  have "disk_ok n (cache_content u) d"
    using len sel k qs at by (auto simp: disk_ok_def mapped_def map_sectors_def)
  moreover have "disk_inj (cache_content u) d"
    using t(3) at k by (auto simp: disk_inj_def inj_on_def sel(4) map_sectors_def nth_eq_iff_index_eq)
  moreover have "inode_bytes (cache_content u) d = replicate (nat len) 0"
  proof (rule nth_equalityI)
    fix p assume "p < length (inode_bytes (cache_content u) d)"
    then have "p < nat (d_length d)" by simp
    from sector_of_pos [OF this] this show "inode_bytes (cache_content u) d ! p = replicate (nat len) 0 ! p"
      by (simp add: inode_bytes_def byte_at_def sel at zero zeros_def)
  qed (simp add: sel)
  moreover have "decode_inode (cache_content u sector) = d"
    using u(6) vs decode_encode_inode [OF sel(1,5)] by simp
  moreover have "free_sectors u = free_sectors t" using u(4) by (simp add: free_sectors_def)
  then have "free_sectors u = free_sectors s - set qs" using t(4) by (simp add: grow_def)
  moreover have "\<forall>q. valid_sector n q \<longrightarrow> q \<notin> map_area s \<longrightarrow> q \<notin> set qs \<longrightarrow> q \<noteq> sector \<longrightarrow> cache_content u q = cache_content s q"
    using u(6) t(4) by (simp add: grow_def)
  moreover have "inode_create save sector len dir s = Some (True, u)"
    using s0 t(1) u(1) inv by (simp add: inode_create_def fm_inv_def flip: d_def)
  ultimately show ?thesis using u(2-5) t(4) sel qs all by (intro exI [of _ d] exI [of _ u]) (auto simp: grow_def)
qed

end

section \<open>Saving through the inode of the free map\<close>

lemma byte_cnt_pos: "bm_wf b \<Longrightarrow> 0 < bit_cnt b \<Longrightarrow> 0 < byte_cnt (bit_cnt b) \<and> length (bytes_of_words (bits b)) = byte_cnt (bit_cnt b)"
proof -
  assume "bm_wf b" "0 < bit_cnt b"
  then have "elem_cnt (bit_cnt b) = (bit_cnt b + 63) div 64" "length (bits b) = elem_cnt (bit_cnt b)" "0 < (bit_cnt b + 63) div 64"
    by (auto simp: bm_wf_def elem_cnt_exact div_greater_zero_iff)
  moreover have "length (bytes_of_words ws) = 8 * length ws" for ws by (induction ws) (auto simp: bytes_of_words_def)
  ultimately show ?thesis by (simp add: byte_cnt_def)
qed

lemma save_map_saves:
  assumes inv: "fm_inv n s" and opened: "free_map_file s \<noteq> None"
  shows "\<exists>s'. save_map (Suc fuel) s = Some (True, s') \<and> fm_inv n s' \<and> same_tables s s' \<and> free_map s' = free_map s \<and>
     map_area s' = map_area s \<and> (\<forall>q. valid_sector n q \<longrightarrow> q \<notin> map_area s \<longrightarrow> cache_content s' q = cache_content s q) \<and> synced s'"
proof -
  from inv opened obtain inode where
    inode: "map_inode s = Some inode" "i_deny_write_cnt inode = 0" "disk_ok n (cache_content s) (i_data inode)"
      "disk_inj (cache_content s) (i_data inode)" "d_length (i_data inode) = int (byte_cnt (bit_cnt (free_map s)))"
    by (auto simp: fm_inv_def map_file_ok_def)
  from inode(1) opened obtain f fl where
    f: "free_map_file s = Some f" "open_files s f = Some fl" "inodes s (f_inode fl) = Some inode"
    by (auto simp: map_inode_def bind_eq_Some_conv)
  have ok: "inode_ok n (f_inode fl) inode s" using inv f inode by (simp add: inode_ok_def fm_inv_def)
  have "bm_wf (free_map s)" "0 < bit_cnt (free_map s)" using inv by (auto simp: fm_inv_def free_map_wf_def used_def)
  note bytes = byte_cnt_pos [OF this]
  let ?sz = "int (byte_cnt (bit_cnt (free_map s)))"
  have sz: "int32 ?sz" using inode(3,5) by (simp add: disk_ok_def int32_def)
  from inode_write_inside [OF ok inode(4), of 0 ?sz "bytes_of_words (bits (free_map s))"
      "save_with (\<lambda>i buf sz offset t. inode_write_at fuel i buf sz offset t)"] bytes inode(2,5) obtain s' where
    s': "inode_write_at (Suc fuel) (f_inode fl) (bytes_of_words (bits (free_map s))) ?sz 0 s = Some (?sz, s')"
      "data_write n (f_inode fl) inode s s'"
      "inode_content inode s' = pwrite (inode_content inode s) 0 (bytes_of_words (bits (free_map s)))"
    by (auto simp: inode_length_def)
  have save: "save_map (Suc fuel) s = Some (True, s')"
    using f s'(1) sz by (simp add: save_map_def save_with_def bitmap_write_with_def file_write_at_with_def)
  have dw: "inode_ok n (f_inode fl) inode s'" "disk_inj (cache_content s') (i_data inode)" "fs_device s' = fs_device s"
    "cstate.more s' = cstate.more s" using s'(2) by (simp_all add: data_write_def)
  note st = same_tables_more [OF dw(3,4)]
  have mi: "map_inode s' = Some inode" using map_inode_same st inode(1) by metis
  have ms: "map_sectors (cache_content s') (i_data inode) (sectors (i_data inode)) =
      map_sectors (cache_content s) (i_data inode) (sectors (i_data inode))"
  proof (rule map_sectors_agree)
    have "mapped n (cache_content s) (i_data inode) (sectors (i_data inode))" using inode(3) by (simp add: disk_ok_def)
    with s'(2) inode(4) show "agree (map_sectors (cache_content s) (i_data inode) (sectors (i_data inode))) (cache_content s) (cache_content s')"
      by (auto simp: agree_def data_write_def disk_inj_def mapped_def)
  qed
  then have area: "map_area s' = map_area s" using mi inode(1) s'(2) by (simp add: map_area_def all_sectors_def data_write_def)
  have "fm_inv n s'"
    using inv st dw mi inode area by (auto simp: fm_inv_def inode_ok_def used_def map_file_ok_def)
  moreover have "\<forall>q. valid_sector n q \<longrightarrow> q \<notin> map_area s \<longrightarrow> cache_content s' q = cache_content s q"
    using s'(2) inode(1) by (auto simp: data_write_def map_area_def all_sectors_def)
  moreover have "synced s'"
    using s'(3) bytes inode(5) mi st by (simp add: synced_def pwrite_def inode_content_def)
  ultimately show ?thesis using save st area by blast
qed

interpretation ms: map_saver n "save_map (Suc fuel)" for n fuel
  by unfold_locales (use save_map_saves in blast)


section \<open>The example\<close>

lemma fs8_bits: "j < 7 \<Longrightarrow> bm_bit \<lparr>bit_cnt = 7, bits = [0xF]\<rparr> j \<longleftrightarrow> j < 4"
proof -
  assume "j < 7"
  then have "j = 0 \<or> j = 1 \<or> j = 2 \<or> j = 3 \<or> j = 4 \<or> j = 5 \<or> j = 6" by linarith
  then show ?thesis by (elim disjE) (simp_all add: bm_bit_def)
qed

lemma fs8_map: "map_inode fs8 = Some (direct_inode 0 2 8)" "map_area fs8 = {2}"
  by (simp_all add: map_inode_def map_area_def direct_inode_ok)

lemma fs8_fm_inv: "fm_inv 8 fs8"
proof -
  have "free_map_wf (free_map fs8)" by (simp add: free_map_wf_def bm_wf_def elem_cnt_def DIV_ROUND_UP_def ELEM_BITS_def BITMAP_ERROR_def)
  moreover have "used fs8 0" "used fs8 2" by (simp_all add: used_def fs8_bits)
  moreover have "byte_cnt 7 = 8" by (simp add: byte_cnt_def elem_cnt_def DIV_ROUND_UP_def ELEM_BITS_def)
  then have "map_file_ok 8 fs8"
    using direct_inode_ok(4) [of 8 "cache_content fs8" 0 2] direct_inode_ok(5) [of 8 2 8 "cache_content fs8" 0]
    by (simp add: map_file_ok_def fs8_map)
  ultimately show ?thesis using fs8_inv by (simp add: fm_inv_def fs8_map)
qed

lemma fs8_free: "4 \<in> free_sectors fs8" "free_sectors fs8 \<noteq> {}" "0 < card (free_sectors fs8)"
proof -
  show "4 \<in> free_sectors fs8" by (simp add: free_sectors_def fs8_bits)
  then show "free_sectors fs8 \<noteq> {}" by blast
  then show "0 < card (free_sectors fs8)" by (simp add: card_gt_0_iff)
qed

section \<open>Properties\<close>

text \<open>
  C9. \<^verbatim>\<open>free_map_allocate\<close> keeps the free map in memory and its file on disk in step: while a sector is free it takes the free sector
  with the least number, marks exactly that one, changes no sector outside the free map file, and afterwards the file
  holds the map that is in memory.
\<close>

theorem allocate_keeps_map_and_file:
  assumes "fm_inv n s" "free_sectors s \<noteq> {}"
  shows "\<exists>q s'. free_map_allocate (save_map (Suc fuel)) 1 s = Some (Some q, s') \<and> fm_inv n s' \<and> synced s' \<and>
           q \<in> free_sectors s \<and> (\<forall>r\<in>free_sectors s. unat q \<le> unat r) \<and> free_sectors s' = free_sectors s - {q} \<and>
           (\<forall>k. valid_sector n k \<longrightarrow> k \<notin> map_area s \<longrightarrow> k \<noteq> q \<longrightarrow> cache_content s' k = cache_content s k)"
proof -
  from ms.allocate_one [OF assms, of fuel] obtain q s' where
    "free_map_allocate (save_map (Suc fuel)) 1 s = Some (Some q, s')" "grow n {q} s s'" "\<forall>r\<in>free_sectors s. unat q \<le> unat r"
    "synced s'" by blast
  then show ?thesis by (intro exI [of _ q] exI [of _ s']) (auto simp: grow_def)
qed

theorem allocate_keeps_map_and_file_witness:
  "\<exists>q s'. free_map_allocate (save_map 1) 1 fs8 = Some (Some q, s') \<and> synced s' \<and> q \<in> free_sectors fs8"
  using allocate_keeps_map_and_file [OF fs8_fm_inv fs8_free(2), of 0] by auto



text \<open>
  C26. On a full disk, a file that outgrows its direct blocks destroys the file system: \<^verbatim>\<open>inode_reserve_indirect\<close> ignores that
  no sector could be allocated for the indirect block and writes zeros to sector 0, where the inode of the free map is.
\<close>

theorem full_disk_erases_free_map_inode:
  assumes "fm_inv n s" "free_sectors s = {}" "FREE_MAP_SECTOR \<notin> map_area s" "0 < num" "num \<le> INDIRECT_BLOCKS_PER_SECTOR"
  shows "\<exists>s'. inode_reserve_indirect (save_map (Suc fuel)) 1 num 0 s = Some (False, 0, s') \<and>
              cache_content s' FREE_MAP_SECTOR = zeros"
  using ms.reserve_indirect_full [of n s num fuel] assms by (simp add: FREE_MAP_SECTOR_def INDIRECT_BLOCKS_PER_SECTOR_def)

theorem full_disk_erases_free_map_inode_witness:
  "\<exists>s'. inode_reserve_indirect (save_map 1) 1 5 0 (fs8\<lparr>free_map := \<lparr>bit_cnt = 7, bits = [0x7F]\<rparr>\<rparr>) = Some (False, 0, s') \<and>
        cache_content s' 0 = zeros"
proof -
  let ?s = "fs8\<lparr>free_map := \<lparr>bit_cnt = 7, bits = [0x7F]\<rparr>\<rparr>"
  have b: "bm_bit \<lparr>bit_cnt = 7, bits = [0x7F]\<rparr> j" if "j < 7" for j
  proof -
    from that have "j = 0 \<or> j = 1 \<or> j = 2 \<or> j = 3 \<or> j = 4 \<or> j = 5 \<or> j = 6" by linarith
    then show ?thesis by (elim disjE) (simp_all add: bm_bit_def)
  qed
  have "map_file_ok 8 ?s" using fs8_fm_inv by (simp add: fm_inv_def map_file_ok_def)
  moreover have "free_map_wf (free_map ?s)" by (simp add: free_map_wf_def bm_wf_def elem_cnt_def DIV_ROUND_UP_def ELEM_BITS_def BITMAP_ERROR_def)
  ultimately have "fm_inv 8 ?s" using fs8_fm_inv b by (simp add: fm_inv_def fs8_map used_def)
  moreover have "free_sectors ?s = {}" using b by (auto simp: free_sectors_def)
  ultimately show ?thesis
    using full_disk_erases_free_map_inode [of 8 ?s 5 0] by (simp add: fs8_map FREE_MAP_SECTOR_def INDIRECT_BLOCKS_PER_SECTOR_def)
qed

end
