(* ===== verification/File_Ops.thy ===== *)
theory File_Ops
  imports Allocation
begin

text \<open>
  Open files and the table of files opened by name (\<^verbatim>\<open>a3/fs/file.c\<close>). The operations \<^verbatim>\<open>file_open\<close>, \<^verbatim>\<open>file_close\<close>,
  \<^verbatim>\<open>file_allow_write\<close> and \<^verbatim>\<open>file_read_at\<close> are in the theory of inodes, since the free map uses them.
\<close>

section \<open>Files\<close>

definition file_get_inode :: "nat \<Rightarrow> 'a fstate_scheme \<Rightarrow> nat option" where
  "file_get_inode f s = map_option f_inode (open_files s f)"

definition file_reopen :: "'a saver \<Rightarrow> nat \<Rightarrow> 'a fstate_scheme \<Rightarrow> (nat option \<times> 'a fstate_scheme) option" where
  "file_reopen save f s = do { fl \<leftarrow> open_files s f; file_open save (Some (inode_reopen (f_inode fl))) s }"

definition set_pos :: "nat \<Rightarrow> int \<Rightarrow> 'a fstate_scheme \<Rightarrow> 'a fstate_scheme option" where
  "set_pos f p s = do { fl \<leftarrow> open_files s f; Some (s\<lparr>open_files := (open_files s)(f \<mapsto> fl\<lparr>f_pos := p\<rparr>)\<rparr>) }"

definition file_read :: "nat \<Rightarrow> int \<Rightarrow> 'a fstate_scheme \<Rightarrow> (byte list \<times> 'a fstate_scheme) option" where
  "file_read f sz s =
     do { fl \<leftarrow> open_files s f;
          (bytes, s1) \<leftarrow> inode_read_at (f_inode fl) sz (f_pos fl) s;
          p \<leftarrow> chk32 (f_pos fl + int (length bytes));
          s2 \<leftarrow> set_pos f p s1;
          Some (bytes, s2) }"

definition file_write_at :: "nat \<Rightarrow> nat \<Rightarrow> byte list \<Rightarrow> int \<Rightarrow> int \<Rightarrow> 'a fstate_scheme \<Rightarrow> (int \<times> 'a fstate_scheme) option" where
  "file_write_at fuel f buf sz file_ofs s =
     file_write_at_with (\<lambda>i buf sz offset t. inode_write_at fuel i buf sz offset t) f buf sz file_ofs s"

text \<open>\<^verbatim>\<open>file_write\<close> overwrites the last character of the caller's buffer, and advances by two bytes less than it has
  written.\<close>

definition file_write :: "nat \<Rightarrow> nat \<Rightarrow> byte list \<Rightarrow> int \<Rightarrow> 'a fstate_scheme \<Rightarrow> (int \<times> byte list \<times> 'a fstate_scheme) option" where
  "file_write fuel f buf sz s =
     (if sz < 1 \<or> length buf < nat sz then None
      else do { let buf' = buf[nat (sz - 1) := 0];
                fl \<leftarrow> open_files s f;
                (bytes_written, s1) \<leftarrow> inode_write_at fuel (f_inode fl) buf' sz (f_pos fl) s;
                p \<leftarrow> chk32 (f_pos fl + (bytes_written - 2));
                s2 \<leftarrow> set_pos f p s1;
                Some (bytes_written, buf', s2) })"

definition file_deny_write :: "nat \<Rightarrow> 'a fstate_scheme \<Rightarrow> 'a fstate_scheme option" where
  "file_deny_write f s =
     do { fl \<leftarrow> open_files s f;
          if \<not> f_deny_write fl
          then inode_deny_write (f_inode fl) (s\<lparr>open_files := (open_files s)(f \<mapsto> fl\<lparr>f_deny_write := True\<rparr>)\<rparr>)
          else Some s }"

definition file_length :: "nat \<Rightarrow> 'a fstate_scheme \<Rightarrow> int option" where
  "file_length f s = do { fl \<leftarrow> open_files s f; inode \<leftarrow> inodes s (f_inode fl); Some (inode_length inode) }"

definition file_seek :: "nat \<Rightarrow> int \<Rightarrow> 'a fstate_scheme \<Rightarrow> 'a fstate_scheme option" where
  "file_seek f new_pos s = set_pos f new_pos (assertion ''file_seek'' (new_pos \<ge> 0) s)"

definition file_tell :: "nat \<Rightarrow> 'a fstate_scheme \<Rightarrow> int option" where
  "file_tell f s = map_option f_pos (open_files s f)"

section \<open>The file table\<close>

text \<open>The entries of the table in the order of the list, each a name and a file.\<close>

record tstate = fstate +
  file_table :: "(string \<times> nat option) list"

definition init_file_table :: "'a tstate_scheme \<Rightarrow> 'a tstate_scheme" where
  "init_file_table s = s\<lparr>file_table := []\<rparr>"

definition get_file_by_fname :: "string \<Rightarrow> 'a tstate_scheme \<Rightarrow> nat option" where
  "get_file_by_fname fname s = (case map_of (file_table s) fname of None \<Rightarrow> None | Some f \<Rightarrow> f)"

definition add_to_file_table :: "nat option \<Rightarrow> string \<Rightarrow> 'a tstate_scheme \<Rightarrow> 'a tstate_scheme" where
  "add_to_file_table f fname s =
     (if get_file_by_fname fname s \<noteq> None then s else s\<lparr>file_table := file_table s @ [(fname, f)]\<rparr>)"

text \<open>The element taken by \<^verbatim>\<open>list_pop_front\<close> is removed from the list a second time, which changes nothing.\<close>

fun free_table_loop :: "'a tstate_ext saver \<Rightarrow> (string \<times> nat option) list \<Rightarrow> 'a tstate_scheme \<Rightarrow> 'a tstate_scheme option" where
  "free_table_loop save [] s = Some s"
| "free_table_loop save ((fname, f) # rest) s =
     do { s1 \<leftarrow> file_close save f (s\<lparr>file_table := rest\<rparr>); free_table_loop save rest s1 }"

definition free_file_table :: "'a tstate_ext saver \<Rightarrow> 'a tstate_scheme \<Rightarrow> 'a tstate_scheme option" where
  "free_file_table save s = free_table_loop save (file_table s) s"

fun remove_key :: "'k \<Rightarrow> ('k \<times> 'v) list \<Rightarrow> ('v \<times> ('k \<times> 'v) list) option" where
  "remove_key k [] = None"
| "remove_key k ((k', v) # xs) = (if k' = k then Some (v, xs) else map_option (\<lambda>(w, ys). (w, (k', v) # ys)) (remove_key k xs))"

text \<open>The file is closed before its entry is taken out of the list.\<close>

definition remove_from_file_table :: "'a tstate_ext saver \<Rightarrow> string \<Rightarrow> 'a tstate_scheme \<Rightarrow> (bool \<times> 'a tstate_scheme) option" where
  "remove_from_file_table save fname s =
     (case remove_key fname (file_table s) of
        None \<Rightarrow> Some (False, s)
      | Some (f, rest) \<Rightarrow> do { s1 \<leftarrow> file_close save f s; Some (True, s1\<lparr>file_table := rest\<rparr>) })"

end
