(* ===== verification/Directory.thy ===== *)
theory Directory
  imports File_Ops
begin

text \<open>
  Directories (\<^verbatim>\<open>a3/fs/directory.c\<close>): a directory is a file of entries of 36 bytes, each with an inode
  sector, a name of at most 30 characters and a flag; the first entry is the parent directory.
\<close>

section \<open>Entries\<close>

definition NAME_MAX :: nat where
  "NAME_MAX = 30"

record dir_entry =
  e_inode_sector :: block_sector_t
  e_name :: "byte list"
  e_in_use :: bool

text \<open>The layout of \<^verbatim>\<open>struct dir_entry\<close>: the sector, 31 bytes for the name, the flag.\<close>

definition encode_entry :: "dir_entry \<Rightarrow> byte list" where
  "encode_entry e = to_le 4 (e_inode_sector e) @ e_name e @ [if e_in_use e then 1 else 0]"

definition decode_entry :: "byte list \<Rightarrow> dir_entry" where
  "decode_entry b = \<lparr>e_inode_sector = from_le (slice 0 4 b), e_name = slice 4 31 b, e_in_use = (b ! 35 \<noteq> 0)\<rparr>"

definition char_byte :: "char \<Rightarrow> byte" where
  "char_byte c = of_char c"

definition byte_char :: "byte \<Rightarrow> char" where
  "byte_char b = char_of (unat b)"

text \<open>\<^verbatim>\<open>strncpy\<close> into an array of \<open>n\<close> bytes, and the string that an array holds.\<close>

definition strncpy_bytes :: "nat \<Rightarrow> string \<Rightarrow> byte list" where
  "strncpy_bytes n str = take n (map char_byte str @ replicate n 0)"

definition bytes_string :: "byte list \<Rightarrow> string" where
  "bytes_string bs = map byte_char (takeWhile (\<lambda>b. b \<noteq> 0) bs)"

record dir =
  dir_inode :: nat
  dir_pos :: int
  dir_open_cnt :: int

record dstate = tstate +
  dirs :: "nat \<Rightarrow> dir option"
  next_dir :: nat
  cwd :: "nat option"

section \<open>Paths\<close>

fun split_slash :: "string \<Rightarrow> string \<Rightarrow> string list" where
  "split_slash w [] = [w]"
| "split_slash w (c # cs) = (if c = CHR ''/'' then w # split_slash [] cs else split_slash (w @ [c]) cs)"

text \<open>The tokens that \<^verbatim>\<open>strtok_r\<close> finds between slashes.\<close>

definition tokens :: "string \<Rightarrow> string list" where
  "tokens path = filter (\<lambda>w. w \<noteq> []) (split_slash [] path)"

definition split_path_filename :: "string \<Rightarrow> string \<times> string" where
  "split_path_filename path =
     (let ts = tokens path; root = (if path \<noteq> [] \<and> hd path = CHR ''/'' then ''/'' else [])
      in if ts = [] then (root, []) else (root @ concat (map (\<lambda>t. t @ ''/'') (butlast ts)), last ts))"

section \<open>Opening and closing\<close>

definition dir_open :: "'a dstate_ext tstate_ext saver \<Rightarrow> nat option \<Rightarrow> 'a dstate_scheme \<Rightarrow> (nat option \<times> 'a dstate_scheme) option" where
  "dir_open save p s =
     (case p of
        Some i \<Rightarrow>
          if malloc_ok s 16
          then Some (Some (next_dir s),
                     s\<lparr>dirs := (dirs s)(next_dir s \<mapsto> \<lparr>dir_inode = i, dir_pos = 36, dir_open_cnt = 1\<rparr>), next_dir := Suc (next_dir s)\<rparr>)
          else do { s1 \<leftarrow> inode_close save p s; Some (None, s1) }
      | None \<Rightarrow> do { s1 \<leftarrow> inode_close save p s; Some (None, s1) })"

definition dir_open_root :: "'a dstate_ext tstate_ext saver \<Rightarrow> 'a dstate_scheme \<Rightarrow> (nat option \<times> 'a dstate_scheme) option" where
  "dir_open_root save s =
     (case cwd s of
        None \<Rightarrow> do { (i, s1) \<leftarrow> inode_open ROOT_DIR_SECTOR s;
                    (d, s2) \<leftarrow> dir_open save i s1;
                    Some (d, s2\<lparr>cwd := d\<rparr>) }
      | Some d \<Rightarrow> do { dr \<leftarrow> dirs s d;
                      cnt \<leftarrow> chk32 (dir_open_cnt dr + 1);
                      Some (Some d, s\<lparr>dirs := (dirs s)(d \<mapsto> dr\<lparr>dir_open_cnt := cnt\<rparr>)\<rparr>) })"

definition dir_reopen :: "'a dstate_ext tstate_ext saver \<Rightarrow> nat \<Rightarrow> 'a dstate_scheme \<Rightarrow> (nat option \<times> 'a dstate_scheme) option" where
  "dir_reopen save d s = do { dr \<leftarrow> dirs s d; dir_open save (Some (inode_reopen (dir_inode dr))) s }"

definition dir_close :: "'a dstate_ext tstate_ext saver \<Rightarrow> nat option \<Rightarrow> 'a dstate_scheme \<Rightarrow> 'a dstate_scheme option" where
  "dir_close save p s =
     (case p of
        None \<Rightarrow> Some s
      | Some d \<Rightarrow>
          do { dr \<leftarrow> dirs s d;
               cnt \<leftarrow> chk32 (dir_open_cnt dr - 1);
               let s1 = s\<lparr>dirs := (dirs s)(d \<mapsto> dr\<lparr>dir_open_cnt := cnt\<rparr>)\<rparr>;
               if cnt = 0
               then do { s2 \<leftarrow> inode_close save (Some (dir_inode dr)) s1; Some (s2\<lparr>dirs := (dirs s2)(d := None), cwd := None\<rparr>) }
               else Some s1 })"

definition dir_get_inode :: "nat \<Rightarrow> 'a dstate_scheme \<Rightarrow> nat option" where
  "dir_get_inode d s = map_option dir_inode (dirs s d)"

section \<open>Searching\<close>

text \<open>The loops over the entries from offset \<open>ofs\<close> on. They end at the end of the file, where a read is short.\<close>

partial_function (option) lookup_loop ::
    "nat \<Rightarrow> string \<Rightarrow> int \<Rightarrow> 'a fstate_scheme \<Rightarrow> ((dir_entry \<times> int) option \<times> 'a fstate_scheme) option" where
  "lookup_loop i name ofs s =
     do { (b, s1) \<leftarrow> inode_read_at i 36 ofs s;
          if length b = 36
          then let e = decode_entry b
               in if e_in_use e \<and> bytes_string (e_name e) = name then Some (Some (e, ofs), s1)
                  else do { ofs' \<leftarrow> chk32 (ofs + 36); lookup_loop i name ofs' s1 }
          else Some (None, s1) }"

declare lookup_loop.simps [code]

definition dir_find :: "nat \<Rightarrow> string \<Rightarrow> 'a dstate_scheme \<Rightarrow> ((dir_entry \<times> int) option \<times> 'a dstate_scheme) option" where
  "dir_find d name s = do { dr \<leftarrow> dirs s d; lookup_loop (dir_inode dr) name 36 s }"

partial_function (option) empty_loop :: "nat \<Rightarrow> int \<Rightarrow> 'a fstate_scheme \<Rightarrow> (bool \<times> 'a fstate_scheme) option" where
  "empty_loop i ofs s =
     do { (b, s1) \<leftarrow> inode_read_at i 36 ofs s;
          if length b = 36
          then if e_in_use (decode_entry b) then Some (False, s1)
               else do { ofs' \<leftarrow> chk32 (ofs + 36); empty_loop i ofs' s1 }
          else Some (True, s1) }"

declare empty_loop.simps [code]

definition dir_is_empty :: "nat \<Rightarrow> 'a dstate_scheme \<Rightarrow> (bool \<times> 'a dstate_scheme) option" where
  "dir_is_empty d s = do { dr \<leftarrow> dirs s d; empty_loop (dir_inode dr) 36 s }"

definition dir_lookup :: "nat \<Rightarrow> string \<Rightarrow> 'a dstate_scheme \<Rightarrow> (nat option \<times> 'a dstate_scheme) option" where
  "dir_lookup d name s =
     do { dr \<leftarrow> dirs s d;
          if name = ''.'' then Some (Some (inode_reopen (dir_inode dr)), s)
          else if name = ''..''
          then do { (b, s1) \<leftarrow> inode_read_at (dir_inode dr) 36 0 s;
                    if length b < 4 then None else inode_open (e_inode_sector (decode_entry b)) s1 }
          else do { (r, s1) \<leftarrow> dir_find d name s;
                    (case r of Some (e, _) \<Rightarrow> inode_open (e_inode_sector e) s1 | None \<Rightarrow> Some (None, s1)) } }"

section \<open>Changing\<close>

text \<open>The loop that looks for a free slot, from offset 0 on; the result is the offset and what the last read left in \<open>e\<close>.\<close>

partial_function (option) slot_loop :: "nat \<Rightarrow> int \<Rightarrow> byte list \<Rightarrow> 'a fstate_scheme \<Rightarrow> (int \<times> byte list \<times> 'a fstate_scheme) option" where
  "slot_loop i ofs buf s =
     do { (b, s1) \<leftarrow> inode_read_at i 36 ofs s;
          let buf' = b @ drop (length b) buf;
          if length b = 36 \<and> e_in_use (decode_entry b)
          then do { ofs' \<leftarrow> chk32 (ofs + 36); slot_loop i ofs' buf' s1 }
          else Some (ofs, buf', s1) }"

declare slot_loop.simps [code]

text \<open>\<open>junk\<close> is what the uninitialised local entry holds at the start.\<close>

definition dir_add ::
    "nat \<Rightarrow> byte list \<Rightarrow> nat \<Rightarrow> string \<Rightarrow> block_sector_t \<Rightarrow> bool \<Rightarrow> 'a dstate_scheme \<Rightarrow> (bool \<times> 'a dstate_scheme) option" where
  "dir_add fuel junk d name inode_sector dir s =
     (if name = [] \<or> length name > NAME_MAX then Some (False, s)
      else do {
        dr \<leftarrow> dirs s d;
        (r, s1) \<leftarrow> dir_find d name s;
        if r \<noteq> None then Some (False, s1)
        else do {
          (go_on, s2) \<leftarrow>
            (if dir
             then do { (i, t1) \<leftarrow> inode_open inode_sector s1;
                       (c, t2) \<leftarrow> dir_open (save_map fuel) i t1;
                       (case c of
                          None \<Rightarrow> Some (False, t2)
                        | Some child \<Rightarrow>
                            do { parent \<leftarrow> inodes t2 (dir_inode dr);
                                 cdr \<leftarrow> dirs t2 child;
                                 let e = encode_entry \<lparr>e_inode_sector = inode_get_inumber parent, e_name = slice 4 31 junk, e_in_use = True\<rparr>;
                                 (w, t3) \<leftarrow> inode_write_at fuel (dir_inode cdr) e 36 0 t2;
                                 t4 \<leftarrow> dir_close (save_map fuel) (Some child) t3;
                                 Some (w = 36, t4) }) }
             else Some (True, s1));
          if \<not> go_on then Some (False, s2)
          else do {
            (ofs, buf, s3) \<leftarrow> slot_loop (dir_inode dr) 0 junk s2;
            let e = \<lparr>e_inode_sector = inode_sector, e_name = strncpy_bytes 31 name, e_in_use = True\<rparr>;
            (w, s4) \<leftarrow> inode_write_at fuel (dir_inode dr) (encode_entry e) 36 ofs s3;
            Some (w = 36, s4) } } })"

definition dir_remove :: "nat \<Rightarrow> nat \<Rightarrow> string \<Rightarrow> 'a dstate_scheme \<Rightarrow> (bool \<times> 'a dstate_scheme) option" where
  "dir_remove fuel d name s =
     do { dr \<leftarrow> dirs s d;
          (r, s1) \<leftarrow> dir_find d name s;
          case r of
            None \<Rightarrow> do { s2 \<leftarrow> inode_close (save_map fuel) None s1; Some (False, s2) }
          | Some (e, ofs) \<Rightarrow>
              do { (p, s2) \<leftarrow> inode_open (e_inode_sector e) s1;
                   case p of
                     None \<Rightarrow> Some (False, s2)
                   | Some i \<Rightarrow>
                       do { inode \<leftarrow> inodes s2 i;
                            (deletable, s3) \<leftarrow>
                              (if inode_is_directory inode
                               then do { (t, u1) \<leftarrow> dir_open (save_map fuel) (Some i) s2;
                                         target \<leftarrow> t;
                                         (is_empty, u2) \<leftarrow> dir_is_empty target u1;
                                         u3 \<leftarrow> dir_close (save_map fuel) (Some target) u2;
                                         Some (is_empty, u3) }
                               else Some (True, s2));
                            if \<not> deletable then do { s4 \<leftarrow> inode_close (save_map fuel) (Some i) s3; Some (False, s4) }
                            else do {
                              (w, s4) \<leftarrow> inode_write_at fuel (dir_inode dr) (encode_entry (e\<lparr>e_in_use := False\<rparr>)) 36 ofs s3;
                              if w \<noteq> 36 then do { s5 \<leftarrow> inode_close (save_map fuel) (Some i) s4; Some (False, s5) }
                              else do { s5 \<leftarrow> inode_remove i s4;
                                        s6 \<leftarrow> inode_close (save_map fuel) (Some i) s5;
                                        Some (True, s6) } } } } }"

definition dir_create :: "nat \<Rightarrow> block_sector_t \<Rightarrow> nat \<Rightarrow> 'a dstate_scheme \<Rightarrow> (bool \<times> 'a dstate_scheme) option" where
  "dir_create fuel sector entry_cnt s =
     do { len \<leftarrow> chk32 (int (entry_cnt * 36));
          (ok, s1) \<leftarrow> inode_create (save_map fuel) sector len True s;
          if \<not> ok then Some (False, s1)
          else do { (i, s2) \<leftarrow> inode_open sector s1;
                    (p, s3) \<leftarrow> dir_open (save_map fuel) i s2;
                    d \<leftarrow> p;
                    dr \<leftarrow> dirs s3 d;
                    (w, s4) \<leftarrow> inode_write_at fuel (dir_inode dr)
                       (encode_entry \<lparr>e_inode_sector = sector, e_name = replicate 31 0, e_in_use = True\<rparr>) 36 0 s3;
                    s5 \<leftarrow> dir_close (save_map fuel) p s4;
                    Some (w = 36, s5) } }"

partial_function (option) readdir_loop ::
    "nat \<Rightarrow> nat \<Rightarrow> 'a dstate_scheme \<Rightarrow> ((string \<times> block_sector_t) option \<times> 'a dstate_scheme) option" where
  "readdir_loop d i s =
     do { dr \<leftarrow> dirs s d;
          (b, s1) \<leftarrow> inode_read_at i 36 (dir_pos dr) s;
          if length b = 36
          then do { p \<leftarrow> chk32 (dir_pos dr + 36);
                    let s2 = s1\<lparr>dirs := (dirs s1)(d \<mapsto> dr\<lparr>dir_pos := p\<rparr>)\<rparr>;
                    let e = decode_entry b;
                    if e_in_use e then Some (Some (bytes_string (e_name e), e_inode_sector e), s2)
                    else readdir_loop d i s2 }
          else Some (None, s1) }"

declare readdir_loop.simps [code]

definition dir_readdir :: "nat \<Rightarrow> 'a dstate_scheme \<Rightarrow> (string option \<times> 'a dstate_scheme) option" where
  "dir_readdir d s =
     do { dr \<leftarrow> dirs s d; (r, s1) \<leftarrow> readdir_loop d (dir_inode dr) s; Some (map_option fst r, s1) }"

definition dir_readdir_inode :: "nat \<Rightarrow> 'a dstate_scheme \<Rightarrow> (string option \<times> block_sector_t \<times> 'a dstate_scheme) option" where
  "dir_readdir_inode d s =
     do { dr \<leftarrow> dirs s d;
          (r, s1) \<leftarrow> readdir_loop d (dir_inode dr) s;
          Some (case r of Some (name, sector) \<Rightarrow> (Some name, sector, s1) | None \<Rightarrow> (None, - 1, s1)) }"

fun walk_path :: "'a dstate_ext tstate_ext saver \<Rightarrow> string list \<Rightarrow> nat option \<Rightarrow> 'a dstate_scheme \<Rightarrow> (nat option \<times> 'a dstate_scheme) option" where
  "walk_path save [] cur s = Some (cur, s)"
| "walk_path save (t # ts) cur s =
     do { d \<leftarrow> cur;
          (p, s1) \<leftarrow> dir_lookup d t s;
          (case p of
             None \<Rightarrow> do { s2 \<leftarrow> dir_close save cur s1; Some (None, s2) }
           | Some i \<Rightarrow> do { (nxt, s2) \<leftarrow> dir_open save p s1;
                           s3 \<leftarrow> dir_close save cur s2;
                           (case nxt of None \<Rightarrow> Some (None, s3) | Some _ \<Rightarrow> walk_path save ts nxt s3) }) }"

definition dir_open_path :: "'a dstate_ext tstate_ext saver \<Rightarrow> string \<Rightarrow> 'a dstate_scheme \<Rightarrow> (nat option \<times> 'a dstate_scheme) option" where
  "dir_open_path save path s =
     do { (start, s1) \<leftarrow>
            (if path \<noteq> [] \<and> hd path = CHR ''/'' then dir_open_root save s
             else case cwd s of None \<Rightarrow> dir_open_root save s | Some d \<Rightarrow> dir_reopen save d s);
          (p, s2) \<leftarrow> walk_path save (tokens path) start s1;
          case p of
            None \<Rightarrow> if tokens path = [] then None else Some (None, s2)
          | Some d \<Rightarrow> do { dr \<leftarrow> dirs s2 d;
                          inode \<leftarrow> inodes s2 (dir_inode dr);
                          if inode_is_removed inode then do { s3 \<leftarrow> dir_close save p s2; Some (None, s3) }
                          else Some (p, s2) } }"

end
