(* ===== verification/Filesys.thy ===== *)
theory Filesys
  imports Directory
begin

text \<open>
  The file system as its users see it (\<^verbatim>\<open>a3/fs/filesys.c\<close>): start and shutdown, formatting, and creating, opening and removing
  files by path. \<open>junk\<close> is the content of the uninitialised directory entry in \<^verbatim>\<open>dir_add\<close>.
\<close>

definition MAX_FILES_IN_DIRECTORY :: nat where
  "MAX_FILES_IN_DIRECTORY = 1000"

definition do_format :: "nat \<Rightarrow> 'a dstate_scheme \<Rightarrow> 'a dstate_scheme option" where
  "do_format fuel s =
     do { s1 \<leftarrow> free_map_create fuel (printf ''Formatting file system...'' s);
          (ok, s2) \<leftarrow> dir_create fuel ROOT_DIR_SECTOR MAX_FILES_IN_DIRECTORY s1;
          let s3 = (if ok then s2 else panic ''do_format'' ''root directory creation failed'' s2);
          s4 \<leftarrow> free_map_close (save_map fuel) s3;
          Some (printf (''done.'' @ [newline]) s4) }"

text \<open>Without a device the panic returns and the null pointer is used.\<close>

definition filesys_init :: "nat \<Rightarrow> bool \<Rightarrow> 'a dstate_scheme \<Rightarrow> 'a dstate_scheme option" where
  "filesys_init fuel format s =
     do { d \<leftarrow> block_get_hd s;
          let s1 = inode_init (s\<lparr>fs_device := d\<rparr>);
          s2 \<leftarrow> free_map_init s1;
          let s3 = buffer_cache_init s2;
          s4 \<leftarrow> (if format then do_format fuel s3 else Some s3);
          s5 \<leftarrow> free_map_open (save_map fuel) s4;
          (n, s6) \<leftarrow> num_free_sectors s5;
          Some (init_file_table (printf (''Num free sectors: '' @ nat_str n @ [newline]) s6)) }"

definition filesys_done :: "nat \<Rightarrow> 'a dstate_scheme \<Rightarrow> 'a dstate_scheme option" where
  "filesys_done fuel s =
     do { s1 \<leftarrow> free_map_close (save_map fuel) s;
          s2 \<leftarrow> buffer_cache_close s1;
          free_file_table (save_map fuel) s2 }"

definition filesys_create :: "nat \<Rightarrow> byte list \<Rightarrow> string \<Rightarrow> int \<Rightarrow> bool \<Rightarrow> 'a dstate_scheme \<Rightarrow> (bool \<times> 'a dstate_scheme) option" where
  "filesys_create fuel junk path initial_sz dir s =
     do { let file_name = snd (split_path_filename path);
          (p, s1) \<leftarrow> dir_open_root (save_map fuel) s;
          (success, inode_sector, s2) \<leftarrow>
            (case p of
               None \<Rightarrow> Some (False, 0, s1)
             | Some d \<Rightarrow>
                 do { (r, t1) \<leftarrow> free_map_allocate (save_map fuel) 1 s1;
                      case r of
                        None \<Rightarrow> Some (False, 0, t1)
                      | Some sector \<Rightarrow>
                          do { (created, t2) \<leftarrow> inode_create (save_map fuel) sector initial_sz dir t1;
                               if created
                               then do { (added, t3) \<leftarrow> dir_add fuel junk d file_name sector dir t2; Some (added, sector, t3) }
                               else Some (False, sector, t2) } });
          s3 \<leftarrow> (if \<not> success \<and> inode_sector \<noteq> 0 then free_map_release (save_map fuel) inode_sector 1 s2 else Some s2);
          s4 \<leftarrow> dir_close (save_map fuel) p s3;
          Some (success, s4) }"

definition filesys_open :: "nat \<Rightarrow> string \<Rightarrow> 'a dstate_scheme \<Rightarrow> (nat option \<times> 'a dstate_scheme) option" where
  "filesys_open fuel name s =
     (if name = [] then Some (None, s)
      else do { let file_name = snd (split_path_filename name);
                (p, s1) \<leftarrow> dir_open_root (save_map fuel) s;
                case p of
                  None \<Rightarrow> Some (None, s1)
                | Some d \<Rightarrow>
                    do { (i, s2) \<leftarrow>
                           (if file_name \<noteq> []
                            then do { (i, t1) \<leftarrow> dir_lookup d file_name s1; t2 \<leftarrow> dir_close (save_map fuel) p t1; Some (i, t2) }
                            else do { i \<leftarrow> dir_get_inode d s1; Some (Some i, s1) });
                         case i of
                           None \<Rightarrow> Some (None, s2)
                         | Some k \<Rightarrow> do { inode \<leftarrow> inodes s2 k;
                                         if inode_is_removed inode then Some (None, s2)
                                         else file_open (save_map fuel) i s2 } } })"

definition filesys_remove :: "nat \<Rightarrow> string \<Rightarrow> 'a dstate_scheme \<Rightarrow> (bool \<times> 'a dstate_scheme) option" where
  "filesys_remove fuel name s =
     do { let (directory, file_name) = split_path_filename name;
          (p, s1) \<leftarrow> dir_open_path (save_map fuel) directory s;
          (success, s2) \<leftarrow> (case p of None \<Rightarrow> Some (False, s1) | Some d \<Rightarrow> dir_remove fuel d file_name s1);
          s3 \<leftarrow> dir_close (save_map fuel) p s2;
          Some (success, s3) }"

definition filesys_chdir :: "nat \<Rightarrow> string \<Rightarrow> 'a dstate_scheme \<Rightarrow> (bool \<times> 'a dstate_scheme) option" where
  "filesys_chdir fuel name s =
     do { (p, s1) \<leftarrow> dir_open_path (save_map fuel) name s;
          case p of
            None \<Rightarrow> Some (False, s1)
          | Some d \<Rightarrow> do { s2 \<leftarrow> dir_close (save_map fuel) (cwd s1) s1; Some (True, s2\<lparr>cwd := p\<rparr>) } }"

end
