(* ===== verification/Directory_Spec.thy ===== *)
theory Directory_Spec
  imports Filesys
begin

text \<open>
  A directory as a list of entries: looking up a name finds the first entry in use with that name, and
  adding a name makes it, and only it, found.
\<close>

section \<open>Entries of a directory file\<close>

definition entry_at :: "byte list \<Rightarrow> nat \<Rightarrow> dir_entry" where
  "entry_at bs k = decode_entry (slice (36 * k) 36 bs)"

definition entry_cnt :: "byte list \<Rightarrow> nat" where
  "entry_cnt bs = length bs div 36"

definition entry_matches :: "string \<Rightarrow> byte list \<Rightarrow> nat \<Rightarrow> bool" where
  "entry_matches name bs k \<longleftrightarrow> e_in_use (entry_at bs k) \<and> bytes_string (e_name (entry_at bs k)) = name"

text \<open>What a directory with the bytes \<open>bs\<close> answers for a name: the first matching entry, but for the parent entry.\<close>

definition dir_answer :: "string \<Rightarrow> byte list \<Rightarrow> nat option" where
  "dir_answer name bs = first_from (entry_matches name bs) 1 (entry_cnt bs - 1)"

lemma entry_cnt_iff: "k < entry_cnt bs \<longleftrightarrow> 36 * k + 36 \<le> length bs"
proof -
  have "k < entry_cnt bs \<longleftrightarrow> Suc k \<le> length bs div 36" by (auto simp: entry_cnt_def)
  also have "\<dots> \<longleftrightarrow> 36 * Suc k \<le> length bs" by (subst less_eq_div_iff_mult_less_eq) (auto simp: mult.commute)
  finally show ?thesis by (simp add: add.commute)
qed

lemma slice_entry: "length (slice (36 * k) 36 bs) = 36 \<longleftrightarrow> k < entry_cnt bs"
  by (auto simp: slice_def entry_cnt_iff)

lemma entry_read:
  assumes "inode_ok n i inode s" "k \<le> entry_cnt (inode_content inode s)"
  shows "\<exists>s'. inode_read_at i 36 (36 * int k) s = Some (slice (36 * k) 36 (inode_content inode s), s') \<and> cache_keeps n s s'"
    "int32 (36 * int k)" "k < entry_cnt (inode_content inode s) \<Longrightarrow> chk32 (36 * int k + 36) = Some (36 * int (Suc k))"
proof -
  have len: "int (length (inode_content inode s)) + 512 < 2 ^ 31"
    using assms(1) by (auto simp: inode_ok_def disk_ok_def inode_content_def)
  have "36 * k \<le> length (inode_content inode s)"
    using assms(2) times_div_less_eq_dividend [of 36 "length (inode_content inode s)"]
    by (metis entry_cnt_def mult_le_mono2 order_trans)
  then show k: "int32 (36 * int k)" using len by (auto simp: int32_def)
  show "\<exists>s'. inode_read_at i 36 (36 * int k) s = Some (slice (36 * k) 36 (inode_content inode s), s') \<and> cache_keeps n s s'"
    using inode_read_at_reads [OF assms(1) _ k, of 36] by (simp add: nat_mult_distrib)
  show "k < entry_cnt (inode_content inode s) \<Longrightarrow> chk32 (36 * int k + 36) = Some (36 * int (Suc k))"
    using len by (auto simp: entry_cnt_iff int32_def)
qed

lemma lookup_loop_finds:
  "inode_ok n i inode s \<Longrightarrow> k \<le> entry_cnt (inode_content inode s) \<Longrightarrow>
   \<exists>s'. lookup_loop i name (36 * int k) s =
        Some (map_option (\<lambda>j. (entry_at (inode_content inode s) j, 36 * int j))
                (first_from (entry_matches name (inode_content inode s)) k (entry_cnt (inode_content inode s) - k)), s') \<and>
        cache_keeps n s s'"
proof (induction "entry_cnt (inode_content inode s) - k" arbitrary: k s)
  case 0
  from entry_read(1) [OF "0.prems"] obtain s' where
    "inode_read_at i 36 (36 * int k) s = Some (slice (36 * k) 36 (inode_content inode s), s')" "cache_keeps n s s'" by blast
  moreover have "length (slice (36 * k) 36 (inode_content inode s)) \<noteq> 36" using 0 by (simp add: slice_entry)
  moreover have "entry_cnt (inode_content inode s) - k = 0" using 0 by simp
  ultimately show ?case by (simp add: lookup_loop.simps)
next
  case (Suc m)
  let ?bs = "inode_content inode s"
  from entry_read(1) [OF Suc.prems] obtain s1 where
    s1: "inode_read_at i 36 (36 * int k) s = Some (slice (36 * k) 36 ?bs, s1)" "cache_keeps n s s1" by blast
  have k: "k < entry_cnt ?bs" using Suc.hyps(2) by simp
  then have full: "length (slice (36 * k) 36 ?bs) = 36" by (simp add: slice_entry)
  note ok1 = inode_ok_keeps [OF Suc.prems(1) s1(2)]
  have step: "entry_cnt ?bs - k = Suc (entry_cnt ?bs - Suc k)" using k by simp
  show ?case
  proof (cases "entry_matches name ?bs k")
    case True
    then show ?thesis using s1 full by (simp add: lookup_loop.simps step entry_matches_def entry_at_def)
  next
    case False
    have "m = entry_cnt (inode_content inode s1) - Suc k" "Suc k \<le> entry_cnt (inode_content inode s1)"
      using Suc.hyps(2) k by (simp_all add: ok1(2))
    from Suc.hyps(1) [OF this(1) ok1(1) this(2)] obtain s' where
      s': "lookup_loop i name (36 * int (Suc k)) s1 =
        Some (map_option (\<lambda>j. (entry_at ?bs j, 36 * int j)) (first_from (entry_matches name ?bs) (Suc k) (entry_cnt ?bs - Suc k)), s')"
        "cache_keeps n s1 s'" by (auto simp: ok1(2))
    have "lookup_loop i name (36 * int k) s = lookup_loop i name (36 * int (Suc k)) s1"
      using s1(1) full False entry_read(3) [OF Suc.prems k]
      by (subst lookup_loop.simps) (auto simp: entry_matches_def entry_at_def Let_def add.commute)
    with False s' cache_keeps_trans [OF s1(2) s'(2)] show ?thesis by (simp add: step)
  qed
qed

lemma slot_loop_finds:
  "inode_ok n i inode s \<Longrightarrow> k \<le> entry_cnt (inode_content inode s) \<Longrightarrow>
   first_from (\<lambda>j. \<not> e_in_use (entry_at (inode_content inode s) j)) k (entry_cnt (inode_content inode s) - k) = Some j \<Longrightarrow>
   \<exists>buf' s'. slot_loop i (36 * int k) buf s = Some (36 * int j, buf', s') \<and> cache_keeps n s s'"
proof (induction "entry_cnt (inode_content inode s) - k" arbitrary: k s buf)
  case (Suc m)
  let ?bs = "inode_content inode s"
  from entry_read(1) [OF Suc.prems(1,2)] obtain s1 where
    s1: "inode_read_at i 36 (36 * int k) s = Some (slice (36 * k) 36 ?bs, s1)" "cache_keeps n s s1" by blast
  have k: "k < entry_cnt ?bs" using Suc.hyps(2) by simp
  then have full: "length (slice (36 * k) 36 ?bs) = 36" by (simp add: slice_entry)
  note ok1 = inode_ok_keeps [OF Suc.prems(1) s1(2)]
  have step: "entry_cnt ?bs - k = Suc (entry_cnt ?bs - Suc k)" using k by simp
  let ?buf = "slice (36 * k) 36 ?bs @ drop (length (slice (36 * k) 36 ?bs)) buf"
  show ?case
  proof (cases "e_in_use (entry_at ?bs k)")
    case False
    then have "j = k" using Suc.prems(3) by (simp add: step)
    with s1 False full show ?thesis by (subst slot_loop.simps) (simp add: Let_def entry_at_def)
  next
    case True
    have "m = entry_cnt (inode_content inode s1) - Suc k" "Suc k \<le> entry_cnt (inode_content inode s1)"
      "first_from (\<lambda>j. \<not> e_in_use (entry_at (inode_content inode s1) j)) (Suc k) (entry_cnt (inode_content inode s1) - Suc k) = Some j"
      using Suc.hyps(2) Suc.prems(3) k True by (simp_all add: ok1(2) step)
    from Suc.hyps(1) [OF this(1) ok1(1) this(2,3), of ?buf] obtain buf' s' where
      s': "slot_loop i (36 * int (Suc k)) ?buf s1 = Some (36 * int j, buf', s')" "cache_keeps n s1 s'" by blast
    have "slot_loop i (36 * int k) buf s = slot_loop i (36 * int (Suc k)) ?buf s1"
      using s1(1) full True entry_read(3) [OF Suc.prems(1,2) k] by (subst slot_loop.simps) (auto simp: entry_at_def Let_def add.commute)
    with s' cache_keeps_trans [OF s1(2) s'(2)] show ?thesis by auto
  qed
qed simp

section \<open>Names and entries as bytes\<close>

lemma unat_char_byte: "unat (char_byte c) = of_char c"
proof -
  have "char_byte c = of_nat (of_char c)" by (simp add: char_byte_def of_nat_of_char)
  moreover have "(of_char c :: nat) < 2 ^ 8" using nat_of_char_less_256 [of c] by simp
  ultimately show ?thesis by (simp only: unsigned_of_nat) (simp add: take_bit_nat_eq_self)
qed

lemma byte_char_inverse: "byte_char (char_byte c) = c"
  by (simp add: byte_char_def unat_char_byte)

lemma char_byte_0: "char_byte c = 0 \<longleftrightarrow> c = CHR 0x00"
  proof -
  have "char_byte c = 0 \<longleftrightarrow> (of_char c :: nat) = of_char (CHR 0x00)"
    by (simp add: unat_eq_0 [symmetric] unat_char_byte)
  then show ?thesis by (simp only: of_char_eq_iff)
qed

lemma bytes_string_strncpy:
  assumes "length name < m" "CHR 0x00 \<notin> set name"
  shows "bytes_string (strncpy_bytes m name) = name" "length (strncpy_bytes m name) = m"
proof -
  have "strncpy_bytes m name = map char_byte name @ replicate (m - length name) 0"
    using assms(1) by (simp add: strncpy_bytes_def min_def)
  moreover have "takeWhile (\<lambda>b. b \<noteq> 0) (map char_byte name @ replicate (m - length name) 0) = map char_byte name"
    using assms by (auto simp: takeWhile_append char_byte_0 takeWhile_replicate)
  ultimately show "bytes_string (strncpy_bytes m name) = name" by (simp add: bytes_string_def byte_char_inverse o_def)
  show "length (strncpy_bytes m name) = m" by (simp add: strncpy_bytes_def)
qed

lemma decode_encode_entry:
  assumes "length (e_name e) = 31"
  shows "decode_entry (encode_entry e) = e" "length (encode_entry e) = 36"
proof -
  have "slice 0 4 (encode_entry e) = to_le 4 (e_inode_sector e)" "slice 4 31 (encode_entry e) = e_name e"
    "encode_entry e ! 35 = (if e_in_use e then 1 else 0)"
    using assms by (simp_all add: encode_entry_def slice_def nth_append)
  then show "decode_entry (encode_entry e) = e" by (simp add: decode_entry_def from_to_le)
  show "length (encode_entry e) = 36" using assms by (simp add: encode_entry_def)
qed

lemma entry_at_pwrite:
  assumes "length (e_name e) = 31" "j < entry_cnt bs" "k < entry_cnt bs"
  shows "entry_at (pwrite bs (36 * j) (encode_entry e)) k = (if k = j then e else entry_at bs k)"
proof -
  note len = decode_encode_entry(2) [OF assms(1)]
  have "36 * j + 36 \<le> length bs" "36 * k + 36 \<le> length bs" using assms(2,3) by (simp_all add: entry_cnt_iff)
  moreover have "36 * k + 36 \<le> 36 * j \<or> 36 * j + 36 \<le> 36 * k" if "k \<noteq> j" using that by linarith
  ultimately show ?thesis
    using slice_pwrite_same [of "36 * j" "encode_entry e" bs] slice_pwrite_other [of "36 * j" "encode_entry e" bs "36 * k" 36]
    by (auto simp: entry_at_def len decode_encode_entry(1) [OF assms(1)])
qed

lemma entry_cnt_pwrite: "length (e_name e) = 31 \<Longrightarrow> j < entry_cnt bs \<Longrightarrow> entry_cnt (pwrite bs (36 * j) (encode_entry e)) = entry_cnt bs"
  using decode_encode_entry(2) [of e] by (simp add: entry_cnt_iff) (simp add: entry_cnt_def)

section \<open>A directory as a map\<close>

text \<open>The abstract directory: the inode sector that each name stands for.\<close>

definition dir_map :: "byte list \<Rightarrow> string \<Rightarrow> block_sector_t option" where
  "dir_map bs name = map_option (\<lambda>k. e_inode_sector (entry_at bs k)) (dir_answer name bs)"

definition names_distinct :: "byte list \<Rightarrow> bool" where
  "names_distinct bs \<longleftrightarrow>
     (\<forall>name k k'. 1 \<le> k \<and> k < entry_cnt bs \<and> entry_matches name bs k \<and> 1 \<le> k' \<and> k' < entry_cnt bs \<and> entry_matches name bs k'
        \<longrightarrow> k = k')"

lemma dir_map_None: "dir_map bs name = None \<longleftrightarrow> (\<forall>k. 1 \<le> k \<and> k < entry_cnt bs \<longrightarrow> \<not> entry_matches name bs k)"
  by (auto simp: dir_map_def dir_answer_def first_from_None_iff)

lemma first_from_cong: "(\<And>j. i \<le> j \<Longrightarrow> j < i + n \<Longrightarrow> P j = Q j) \<Longrightarrow> first_from P i n = first_from Q i n"
  by (induction n arbitrary: i) simp_all

lemma dir_map_pwrite:
  assumes len: "length (e_name e) = 31" and j: "1 \<le> j" "j < entry_cnt bs" and free: "\<not> e_in_use (entry_at bs j)"
    and e: "e_in_use e" and absent: "dir_map bs (bytes_string (e_name e)) = None"
  shows "dir_map (pwrite bs (36 * j) (encode_entry e)) = (dir_map bs)(bytes_string (e_name e) \<mapsto> e_inode_sector e)"
    "names_distinct bs \<Longrightarrow> names_distinct (pwrite bs (36 * j) (encode_entry e))"
proof -
  let ?bs = "pwrite bs (36 * j) (encode_entry e)" and ?nm = "bytes_string (e_name e)"
  note at = entry_at_pwrite [OF len j(2)] and cnt = entry_cnt_pwrite [OF len j(2)]
  have m: "entry_matches name ?bs k \<longleftrightarrow> (if k = j then name = ?nm else entry_matches name bs k)" if "k < entry_cnt bs" for name k
    using that e by (auto simp: entry_matches_def at)
  have none: "\<not> entry_matches ?nm bs k" if "1 \<le> k" "k < entry_cnt bs" for k using absent that by (simp add: dir_map_None)
  have "dir_map ?bs name = ((dir_map bs)(?nm \<mapsto> e_inode_sector e)) name" for name
  proof (cases "name = ?nm")
    case True
    have "dir_answer name ?bs = Some j" unfolding dir_answer_def
      by (rule first_from_SomeI) (use True j m none cnt in auto)
    then show ?thesis using True at [OF j(2)] by (simp add: dir_map_def)
  next
    case False
    have "first_from (entry_matches name ?bs) 1 (entry_cnt bs - 1) = first_from (entry_matches name bs) 1 (entry_cnt bs - 1)"
      by (rule first_from_cong) (use False m j free in \<open>auto simp: entry_matches_def\<close>)
    then have a: "dir_answer name ?bs = dir_answer name bs" by (simp add: dir_answer_def cnt)
    have "k \<noteq> j \<and> k < entry_cnt bs" if "dir_answer name bs = Some k" for k
      using first_from_SomeD [OF that [unfolded dir_answer_def]] free j by (auto simp: entry_matches_def)
    with a False show ?thesis by (auto simp: dir_map_def at intro!: option.map_cong)
  qed
  then show "dir_map ?bs = (dir_map bs)(?nm \<mapsto> e_inode_sector e)" by (rule ext)
  show "names_distinct ?bs" if "names_distinct bs"
    using that m none by (simp add: names_distinct_def cnt) (metis One_nat_def)
qed

section \<open>Searching and adding\<close>

lemma keeps_dirs:
  fixes s s' :: "'a dstate_scheme"
  assumes "cstate.more s' = cstate.more s"
  shows "dirs s' = dirs s" "cwd s' = cwd s" "next_dir s' = next_dir s"
  using assms by (cases s; cases s'; simp)+

text \<open>A directory that can be used: its inode is well-formed, no sector of it is used twice, and it may be written.\<close>

definition dir_ok :: "nat \<Rightarrow> nat \<Rightarrow> inode \<Rightarrow> 'a dstate_scheme \<Rightarrow> bool" where
  "dir_ok n d inode s \<longleftrightarrow>
     (case dirs s d of None \<Rightarrow> False | Some dr \<Rightarrow> inode_ok n (dir_inode dr) inode s) \<and>
     disk_inj (cache_content s) (i_data inode) \<and> i_deny_write_cnt inode = 0"

lemma dir_ok_keeps:
  assumes "dir_ok n d inode s" "cache_keeps n s s'"
  shows "dir_ok n d inode s'" "inode_content inode s' = inode_content inode s"
proof -
  from assms(1) obtain dr where dr: "dirs s d = Some dr" "inode_ok n (dir_inode dr) inode s"
    by (auto simp: dir_ok_def split: option.splits)
  have "dirs s' = dirs s" using assms(2) by (intro keeps_dirs) (simp add: cache_keeps_def)
  with assms dr keeps_disk [OF dr(2) assms(2)] inode_ok_keeps [OF dr(2) assms(2)]
  show "dir_ok n d inode s'" "inode_content inode s' = inode_content inode s" by (auto simp: dir_ok_def)
qed

lemma dir_find_finds:
  assumes "dir_ok n d inode s" "1 \<le> entry_cnt (inode_content inode s)"
  shows "\<exists>s'. dir_find d name s =
           Some (map_option (\<lambda>j. (entry_at (inode_content inode s) j, 36 * int j)) (dir_answer name (inode_content inode s)), s') \<and>
           cache_keeps n s s'"
proof -
  from assms(1) obtain dr where dr: "dirs s d = Some dr" "inode_ok n (dir_inode dr) inode s"
    by (auto simp: dir_ok_def split: option.splits)
  from lookup_loop_finds [OF dr(2) assms(2)] dr(1) show ?thesis by (auto simp: dir_find_def dir_answer_def)
qed

text \<open>A write to a file changes no sector but those of its data.\<close>

definition wrote :: "nat \<Rightarrow> inode \<Rightarrow> 'a cstate_scheme \<Rightarrow> 'a cstate_scheme \<Rightarrow> bool" where
  "wrote n inode s s' \<longleftrightarrow> fs_device s' = fs_device s \<and> cstate.more s' = cstate.more s \<and>
     (\<forall>q. valid_sector n q \<longrightarrow> q \<notin> data_sectors (cache_content s) (i_data inode) \<longrightarrow> cache_content s' q = cache_content s q)"

lemma dir_add_adds:
  assumes ok: "dir_ok n d inode s" and name: "name \<noteq> []" "length name \<le> NAME_MAX" "CHR 0x00 \<notin> set name"
    and parent: "e_in_use (entry_at (inode_content inode s) 0)" and absent: "dir_map (inode_content inode s) name = None"
    and free: "k < entry_cnt (inode_content inode s)" "\<not> e_in_use (entry_at (inode_content inode s) k)"
  shows "\<exists>s' j. dir_add (Suc fuel) junk d name sector False s = Some (True, s') \<and> dir_ok n d inode s' \<and>
           1 \<le> j \<and> j < entry_cnt (inode_content inode s) \<and> \<not> e_in_use (entry_at (inode_content inode s) j) \<and>
           inode_content inode s' = pwrite (inode_content inode s) (36 * j)
             (encode_entry \<lparr>e_inode_sector = sector, e_name = strncpy_bytes 31 name, e_in_use = True\<rparr>) \<and> wrote n inode s s'"
proof -
  let ?bs = "inode_content inode s"
  let ?e = "\<lparr>e_inode_sector = sector, e_name = strncpy_bytes 31 name, e_in_use = True\<rparr>"
  from ok obtain dr where dr: "dirs s d = Some dr" "inode_ok n (dir_inode dr) inode s"
    and inj: "disk_inj (cache_content s) (i_data inode)" and w: "i_deny_write_cnt inode = 0"
    by (auto simp: dir_ok_def split: option.splits)
  have "length (e_name ?e) = 31"
    using bytes_string_strncpy [of name 31] name by (simp add: NAME_MAX_def)
  note len = decode_encode_entry(2) [OF this]
  have "dir_answer name ?bs = None" using absent by (simp add: dir_map_def)
  with dir_find_finds [OF ok, of name] free obtain s1 where
    s1: "dir_find d name s = Some (None, s1)" "cache_keeps n s s1" by (cases "entry_cnt ?bs") auto
  note ok1 = inode_ok_keeps [OF dr(2) s1(2)] and kd1 = keeps_disk [OF dr(2) s1(2)]
  obtain j where j: "first_from (\<lambda>j. \<not> e_in_use (entry_at ?bs j)) 0 (entry_cnt ?bs) = Some j"
    using free first_from_None_iff [of "\<lambda>j. \<not> e_in_use (entry_at ?bs j)" 0 "entry_cnt ?bs"] by fastforce
  from first_from_SomeD [OF this] parent have j': "1 \<le> j" "j < entry_cnt ?bs" "\<not> e_in_use (entry_at ?bs j)"
    by (auto simp: Suc_le_eq intro: gr0I)
  from slot_loop_finds [OF ok1(1), of 0 j junk] j obtain buf s2 where
    s2: "slot_loop (dir_inode dr) 0 junk s1 = Some (36 * int j, buf, s2)" "cache_keeps n s1 s2" by (auto simp: ok1(2))
  note ok2 = inode_ok_keeps [OF ok1(1) s2(2)] and kd2 = keeps_disk [OF ok1(1) s2(2)]
  have fits: "36 * int j + 36 \<le> inode_length inode"
    using j'(2) by (auto simp: entry_cnt_iff inode_content_def inode_length_def)
  from inode_write_inside [OF ok2(1) _ _ _ fits _ w, where buf = "encode_entry ?e" and save = "save_with (\<lambda>i buf sz offset t. inode_write_at fuel i buf sz offset t)"] len inj kd1 kd2
  obtain s3 where
    s3: "inode_write_at (Suc fuel) (dir_inode dr) (encode_entry ?e) 36 (36 * int j) s2 = Some (36, s3)"
      "data_write n (dir_inode dr) inode s2 s3"
      "inode_content inode s3 = pwrite ?bs (36 * j) (encode_entry ?e)"
    by (auto simp: ok1(2) ok2(2) nat_mult_distrib)
  have more: "cstate.more s3 = cstate.more s" using s3(2) s2(2) s1(2) by (simp add: data_write_def cache_keeps_def)
  have "dir_add (Suc fuel) junk d name sector False s = Some (True, s3)"
    using name dr(1) s1(1) s2(1) s3(1) by (simp add: dir_add_def)
  moreover have "dir_ok n d inode s3" using dr(1) s3(2) w keeps_dirs [OF more] by (simp add: dir_ok_def data_write_def)
  moreover have "wrote n inode s s3"
    using s3(2) s1(2) s2(2) more kd1 kd2 by (auto simp: wrote_def data_write_def cache_keeps_def)
  ultimately show ?thesis using j' s3(3) by auto
qed

text \<open>The entries that are not in use, and what adding an entry makes of their number.\<close>

definition free_slots :: "byte list \<Rightarrow> nat set" where
  "free_slots bs = {k. k < entry_cnt bs \<and> \<not> e_in_use (entry_at bs k)}"

lemma finite_free_slots [simp]: "finite (free_slots bs)"
  by (simp add: free_slots_def)

lemma free_slots_pwrite:
  "length (e_name e) = 31 \<Longrightarrow> j < entry_cnt bs \<Longrightarrow> e_in_use e \<Longrightarrow>
   free_slots (pwrite bs (36 * j) (encode_entry e)) = free_slots bs - {j}"
  by (auto simp: free_slots_def entry_cnt_pwrite entry_at_pwrite split: if_splits)

section \<open>Directories as stores of names\<close>

fun add_all :: "(string \<Rightarrow> 'q \<Rightarrow> 's \<Rightarrow> (bool \<times> 's) option) \<Rightarrow> (string \<times> 'q) list \<Rightarrow> 's \<Rightarrow> 's option" where
  "add_all add [] s = Some s"
| "add_all add ((nm, q) # xs) s = do { (b, s1) \<leftarrow> add nm q s; if b then add_all add xs s1 else None }"

text \<open>The contract of a directory: a partial map from names to sectors with room for some more names.\<close>

locale name_store =
  fixes ok :: "'s \<Rightarrow> bool" and view :: "'s \<Rightarrow> string \<Rightarrow> 'q option" and room :: "'s \<Rightarrow> nat" and legal :: "string \<Rightarrow> bool"
    and add :: "string \<Rightarrow> 'q \<Rightarrow> 's \<Rightarrow> (bool \<times> 's) option" and find :: "string \<Rightarrow> 's \<Rightarrow> ('q option \<times> 's) option"
  assumes add_law: "ok s \<Longrightarrow> legal nm \<Longrightarrow> view s nm = None \<Longrightarrow> 0 < room s \<Longrightarrow>
      \<exists>s'. add nm q s = Some (True, s') \<and> ok s' \<and> view s' = (view s)(nm \<mapsto> q) \<and> room s' = room s - 1"
    and find_law: "ok s \<Longrightarrow> \<exists>s'. find nm s = Some (view s nm, s') \<and> ok s' \<and> view s' = view s \<and> room s' = room s"
begin

lemma add_all_adds:
  "ok s \<Longrightarrow> distinct (map fst xs) \<Longrightarrow> \<forall>nm \<in> fst ` set xs. legal nm \<and> view s nm = None \<Longrightarrow> length xs \<le> room s \<Longrightarrow>
   \<exists>s'. add_all add xs s = Some s' \<and> ok s' \<and> view s' = view s ++ map_of xs"
proof (induction xs arbitrary: s)
  case (Cons x xs)
  obtain nm q where x: "x = (nm, q)" by force
  from add_law [OF Cons.prems(1), of nm q] Cons.prems x obtain s1 where
    s1: "add nm q s = Some (True, s1)" "ok s1" "view s1 = (view s)(nm \<mapsto> q)" "room s1 = room s - 1" by auto
  have "\<forall>nm \<in> fst ` set xs. legal nm \<and> view s1 nm = None" using Cons.prems x s1(3) by auto
  moreover have "distinct (map fst xs)" "length xs \<le> room s1" using Cons.prems s1(4) by auto
  ultimately obtain s' where "add_all add xs s1 = Some s'" "ok s'" "view s' = view s1 ++ map_of xs"
    using Cons.IH [OF s1(2)] by blast
  moreover have "nm \<notin> dom (map_of xs)" using Cons.prems(2) x by (simp add: dom_map_of_conv_image_fst)
  then have "view s1 ++ map_of xs = view s ++ map_of (x # xs)"
    by (auto simp: s1(3) x map_add_def fun_eq_iff split: option.splits)
  moreover have "add_all add (x # xs) s = add_all add xs s1" using s1(1) x by simp
  ultimately show ?case by metis
qed simp

lemma add_all_find:
  assumes "ok s" "distinct (map fst xs)" "\<forall>nm \<in> fst ` set xs. legal nm \<and> view s nm = None" "length xs \<le> room s"
  shows "\<exists>s' s''. add_all add xs s = Some s' \<and> find nm s' = Some ((view s ++ map_of xs) nm, s'')"
  using add_all_adds [OF assms] find_law by metis

end

text \<open>The contract on the operations of \<^verbatim>\<open>directory.c\<close>.\<close>

definition legal_name :: "string \<Rightarrow> bool" where
  "legal_name name \<longleftrightarrow> name \<noteq> [] \<and> length name \<le> NAME_MAX \<and> CHR 0x00 \<notin> set name"

definition dir_inv :: "nat \<Rightarrow> nat \<Rightarrow> inode \<Rightarrow> 'a dstate_scheme \<Rightarrow> bool" where
  "dir_inv n d inode s \<longleftrightarrow> dir_ok n d inode s \<and> 1 \<le> entry_cnt (inode_content inode s) \<and>
     e_in_use (entry_at (inode_content inode s) 0) \<and> names_distinct (inode_content inode s)"

definition dir_find_sector :: "nat \<Rightarrow> string \<Rightarrow> 'a dstate_scheme \<Rightarrow> (block_sector_t option \<times> 'a dstate_scheme) option" where
  "dir_find_sector d name s = map_option (map_prod (map_option (\<lambda>(e, _). e_inode_sector e)) id) (dir_find d name s)"

lemma new_entry:
  assumes "legal_name name"
  shows "bytes_string (strncpy_bytes 31 name) = name" "length (strncpy_bytes 31 name) = 31"
  using bytes_string_strncpy [of name 31] assms by (simp_all add: legal_name_def NAME_MAX_def)

lemma dir_add_new:
  assumes inv: "dir_inv n d inode s" and name: "legal_name name"
    and absent: "dir_map (inode_content inode s) name = None" and room: "free_slots (inode_content inode s) \<noteq> {}"
  shows "\<exists>s'. dir_add (Suc fuel) junk d name sector False s = Some (True, s') \<and> dir_inv n d inode s' \<and>
           dir_map (inode_content inode s') = (dir_map (inode_content inode s))(name \<mapsto> sector) \<and>
           card (free_slots (inode_content inode s')) = card (free_slots (inode_content inode s)) - 1 \<and> wrote n inode s s'"
proof -
  let ?bs = "inode_content inode s"
  let ?e = "\<lparr>e_inode_sector = sector, e_name = strncpy_bytes 31 name, e_in_use = True\<rparr>"
  have parent: "e_in_use (entry_at ?bs 0)" and c: "1 \<le> entry_cnt ?bs" and ok: "dir_ok n d inode s"
    using inv by (simp_all add: dir_inv_def)
  note nm = new_entry [OF name]
  have len: "length (e_name ?e) = 31" by (simp add: nm)
  from room obtain k where "k < entry_cnt ?bs" "\<not> e_in_use (entry_at ?bs k)" by (auto simp: free_slots_def)
  from dir_add_adds [OF ok _ _ _ parent absent this, of fuel junk sector] name obtain s' j where
    s': "dir_add (Suc fuel) junk d name sector False s = Some (True, s')" "dir_ok n d inode s'"
      "1 \<le> j" "j < entry_cnt ?bs" "\<not> e_in_use (entry_at ?bs j)"
      "inode_content inode s' = pwrite ?bs (36 * j) (encode_entry ?e)" "wrote n inode s s'" by (auto simp: legal_name_def)
  have a: "dir_map ?bs (bytes_string (e_name ?e)) = None" using absent by (simp add: nm)
  note mp = dir_map_pwrite [OF len s'(3-5) _ a]
  have "j \<in> free_slots ?bs" using s'(4,5) by (simp add: free_slots_def)
  then have "card (free_slots (inode_content inode s')) = card (free_slots ?bs) - 1"
    using free_slots_pwrite [OF len s'(4)] by (simp add: s'(6))
  moreover have "dir_inv n d inode s'"
    using s' mp(2) inv parent c entry_at_pwrite [OF len s'(4), of 0] entry_cnt_pwrite [OF len s'(4)] by (simp add: dir_inv_def)
  ultimately show ?thesis using s'(1,7) mp(1) by (simp add: s'(6) nm)
qed

lemma dir_find_map:
  assumes "dir_inv n d inode s"
  shows "\<exists>s'. dir_find_sector d name s = Some (dir_map (inode_content inode s) name, s') \<and> dir_inv n d inode s' \<and>
              inode_content inode s' = inode_content inode s"
proof -
  from assms have ok: "dir_ok n d inode s" "1 \<le> entry_cnt (inode_content inode s)" by (simp_all add: dir_inv_def)
  from dir_find_finds [OF ok, of name] obtain s' where
    s': "dir_find d name s = Some (map_option (\<lambda>j. (entry_at (inode_content inode s) j, 36 * int j))
           (dir_answer name (inode_content inode s)), s')" "cache_keeps n s s'" by blast
  with dir_ok_keeps [OF ok(1) s'(2)] assms show ?thesis
    by (auto simp: dir_find_sector_def dir_map_def dir_inv_def option.map_comp comp_def)
qed

interpretation dn: name_store "dir_inv n d inode" "\<lambda>s. dir_map (inode_content inode s)" "\<lambda>s. card (free_slots (inode_content inode s))"
    legal_name "\<lambda>nm q. dir_add (Suc fuel) junk d nm q False" "dir_find_sector d" for n d inode fuel junk
proof
  show "\<exists>s'. dir_add (Suc fuel) junk d nm q False s = Some (True, s') \<and> dir_inv n d inode s' \<and>
          dir_map (inode_content inode s') = (dir_map (inode_content inode s))(nm \<mapsto> q) \<and>
          card (free_slots (inode_content inode s')) = card (free_slots (inode_content inode s)) - 1"
    if "dir_inv n d inode s" "legal_name nm" "dir_map (inode_content inode s) nm = None" "0 < card (free_slots (inode_content inode s))"
    for s :: "'a dstate_scheme" and nm q
    using dir_add_new [OF that(1-3)] that(4) by (auto simp: card_gt_0_iff)
  show "\<exists>s'. dir_find_sector d nm s = Some (dir_map (inode_content inode s) nm, s') \<and> dir_inv n d inode s' \<and>
          dir_map (inode_content inode s') = dir_map (inode_content inode s) \<and>
          card (free_slots (inode_content inode s')) = card (free_slots (inode_content inode s))"
    if "dir_inv n d inode s" for s :: "'a dstate_scheme" and nm
    using dir_find_map [OF that, of nm] by metis
qed

section \<open>An example\<close>

text \<open>The example disk with a directory of two entries, the first one in use, in the file of inode 1.\<close>

definition dir8 :: dstate where
  "dir8 = tstate.extend (fstate.extend (fs8\<lparr>image := (replicate 4096 0)[1571 := 1]\<rparr>) \<lparr>file_table = []\<rparr>)
     \<lparr>dirs = [0 \<mapsto> \<lparr>dir_inode = 1, dir_pos = 36, dir_open_cnt = 1\<rparr>], next_dir = 1, cwd = Some 0\<rparr>"

lemma dir8_sel [simp]:
  "inodes dir8 = [0 \<mapsto> direct_inode 0 2 8, 1 \<mapsto> direct_inode 1 3 100]" "malloc_ok dir8 = (\<lambda>_. True)"
  "dirs dir8 = [0 \<mapsto> \<lparr>dir_inode = 1, dir_pos = 36, dir_open_cnt = 1\<rparr>]"
  "image dir8 = (replicate 4096 0)[1571 := 1]" "cache dir8 = replicate 64 entry0" "fs_device dir8 = 0" "clock dir8 = 0"
  "blocks dir8 = [\<lparr>block_nm = ''hda'', block_fname = ''d'', block_sz = 8, block_drv = ide_operations, read_cnt = 0, write_cnt = 0\<rparr>]"
  by (simp_all add: dir8_def fs8_def disk8_def tstate.defs fstate.defs cstate.defs dev.defs)

lemma dir8_content: "inode_content (direct_inode 1 3 100) dir8 = (replicate 100 0)[35 := 1]"
proof -
  have "first_from (\<lambda>i. occupied (replicate 64 entry0 ! i) \<and> disk_sector (replicate 64 entry0 ! i) = q) 0 BUFFER_CACHE_SIZE = None" for q
    by (simp add: first_from_None_iff BUFFER_CACHE_SIZE_def entry0_def)
  then have "cache_content dir8 3 = slice 1536 512 ((replicate 4096 0)[1571 := 1])"
    by (simp add: cache_content_def cache_view_def dev_sector_def dev_base.simps)
  then show ?thesis
    by (intro nth_equalityI) (auto simp: inode_content_def inode_bytes_def byte_at_def sector_at_def nth_list_update)
qed
lemma dir8_inv: "dir_inv 8 0 (direct_inode 1 3 100) dir8"
proof -
  have "dev_ok 8 0 dir8" by (simp add: dev_ok_def dev_base.simps)
  moreover have "cache_ok 8 dsk (replicate 64 entry0)" for dsk
    by (auto simp: cache_ok_def cached_def BUFFER_CACHE_SIZE_def entry0_def)
  ultimately have "cache_inv 8 dir8" by (simp add: cache_inv_def BUFFER_CACHE_SIZE_def)
  then have "dir_ok 8 0 (direct_inode 1 3 100) dir8"
    using direct_inode_ok(4,5) [of 100] by (simp add: dir_ok_def inode_ok_def)
  moreover have "entry_cnt (inode_content (direct_inode 1 3 100) dir8) = 2" by (simp add: dir8_content entry_cnt_def)
  moreover have "e_in_use (entry_at (inode_content (direct_inode 1 3 100) dir8) 0)"
    by (simp add: dir8_content entry_at_def decode_entry_def)
  ultimately show ?thesis by (simp add: dir_inv_def names_distinct_def)
qed

lemma dir8_slots: "free_slots (inode_content (direct_inode 1 3 100) dir8) = {1}"
  "dir_map (inode_content (direct_inode 1 3 100) dir8) name = None"
proof -
  let ?bs = "inode_content (direct_inode 1 3 100) dir8"
  have c: "entry_cnt ?bs = 2" by (simp add: dir8_content entry_cnt_def)
  have e: "e_in_use (entry_at ?bs 0)" "\<not> e_in_use (entry_at ?bs 1)"
    by (simp_all add: dir8_content entry_at_def decode_entry_def)
  then show "free_slots ?bs = {1}" by (auto simp: free_slots_def c less_2_cases_iff)
  have "k = 1" if "1 \<le> k" "k < 2" for k :: nat using that by simp
  then show "dir_map ?bs name = None" using e(2) unfolding dir_map_None c entry_matches_def by blast
qed

section \<open>Properties\<close>

text \<open>
  C8. A directory is a map from names to inode sectors: adding a legal name that is absent, while an entry is free, succeeds; the search
  for any name in the directory afterwards answers what the map with the new name in it says; no two entries in use have
  the same name, before and after.
\<close>

theorem dir_add_refines_map:
  assumes "dir_inv n d inode s" "legal_name name" "dir_map (inode_content inode s) name = None"
    and "free_slots (inode_content inode s) \<noteq> {}"
  shows "\<exists>s'. dir_add (Suc fuel) junk d name sector False s = Some (True, s') \<and> dir_inv n d inode s' \<and>
           (\<forall>nm. \<exists>r s2. dir_find d nm s' = Some (r, s2) \<and>
              map_option (\<lambda>(e, _). e_inode_sector e) r = ((dir_map (inode_content inode s))(name \<mapsto> sector)) nm)"
proof -
  from dir_add_new [OF assms, of fuel junk sector] obtain s' where
    s': "dir_add (Suc fuel) junk d name sector False s = Some (True, s')" "dir_inv n d inode s'"
      "dir_map (inode_content inode s') = (dir_map (inode_content inode s))(name \<mapsto> sector)" by blast
  have "\<exists>r s2. dir_find d nm s' = Some (r, s2) \<and>
              map_option (\<lambda>(e, _). e_inode_sector e) r = ((dir_map (inode_content inode s))(name \<mapsto> sector)) nm" for nm
    using dir_find_map [OF s'(2), of nm] s'(3) by (auto simp: dir_find_sector_def)
  with s'(1,2) show ?thesis by blast
qed

theorem dir_add_refines_map_witness:
  "\<exists>s' r s2. dir_add 1 [] 0 ''notes'' 5 False dir8 = Some (True, s') \<and> dir_find 0 ''notes'' s' = Some (r, s2) \<and>
     map_option (\<lambda>(e, _). e_inode_sector e) r = Some 5"
proof -
  have "legal_name ''notes''" by (simp add: legal_name_def NAME_MAX_def)
  from dir_add_refines_map [OF dir8_inv this dir8_slots(2), of 0 "[]" 5] obtain s' where
    s': "dir_add (Suc 0) [] 0 ''notes'' 5 False dir8 = Some (True, s')"
      "\<forall>nm. \<exists>r s2. dir_find 0 nm s' = Some (r, s2) \<and> map_option (\<lambda>(e, _). e_inode_sector e) r =
         ((dir_map (inode_content (direct_inode 1 3 100) dir8))(''notes'' \<mapsto> 5)) nm" by (auto simp: dir8_slots(1))
  from s'(2) [rule_format, of "''notes''"] s'(1) show ?thesis by auto
qed

text \<open>
  Adding several names in a row: as long as there are entries for them all, a list of distinct new names is added without an
  error, and the directory then answers each of them, and every older name, as the updated map does.
\<close>

theorem dir_add_all_found:
  assumes "dir_inv n d inode s" "distinct (map fst xs)" "\<forall>nm \<in> fst ` set xs. legal_name nm \<and> dir_map (inode_content inode s) nm = None"
    and "length xs \<le> card (free_slots (inode_content inode s))"
  shows "\<exists>s' s''. add_all (\<lambda>nm q. dir_add (Suc fuel) junk d nm q False) xs s = Some s' \<and>
           dir_find_sector d nm s' = Some ((dir_map (inode_content inode s) ++ map_of xs) nm, s'')"
  using dn.add_all_find [OF assms] .

theorem dir_add_all_found_witness:
  "\<exists>s' s''. add_all (\<lambda>nm q. dir_add 1 [] 0 nm q False) [(''notes'', 5)] dir8 = Some s' \<and>
     dir_find_sector 0 ''notes'' s' = Some (Some 5, s'')"
proof -
  have "legal_name ''notes''" by (simp add: legal_name_def NAME_MAX_def)
  with dir_add_all_found [OF dir8_inv, of "[(''notes'', 5)]" 0 "[]" "''notes''"] dir8_slots show ?thesis by (auto simp: map_add_def)
qed

text \<open>
  C27. \<^verbatim>\<open>dir_add\<close> refuses an empty name, a name of more than 30 characters and a name that the directory already has, and leaves
  the directory as it was.
\<close>

theorem dir_add_refuses:
  assumes "dir_inv n d inode s" "name = [] \<or> length name > NAME_MAX \<or> dir_map (inode_content inode s) name \<noteq> None"
  shows "\<exists>s'. dir_add fuel junk d name sector isdir s = Some (False, s') \<and> dir_inv n d inode s' \<and>
              inode_content inode s' = inode_content inode s"
proof (cases "name = [] \<or> length name > NAME_MAX")
  case False
  from assms(1) obtain dr where dr: "dirs s d = Some dr" by (auto simp: dir_inv_def dir_ok_def split: option.splits)
  from dir_find_map [OF assms(1), of name] assms(2) False obtain r s' where
    "dir_find d name s = Some (Some r, s')" "dir_inv n d inode s'" "inode_content inode s' = inode_content inode s"
    by (auto simp: dir_find_sector_def)
  with dr False show ?thesis by (simp add: dir_add_def)
qed (use assms(1) in \<open>simp add: dir_add_def\<close>)

theorem dir_add_refuses_witness:
  "\<exists>s'. dir_add 1 [] 0 (replicate 31 (CHR ''x'')) 5 False dir8 = Some (False, s') \<and>
        inode_content (direct_inode 1 3 100) s' = inode_content (direct_inode 1 3 100) dir8"
  using dir_add_refuses [OF dir8_inv, of "replicate 31 (CHR ''x'')" 1 "[]" 5 False] by (auto simp: NAME_MAX_def)

end
