(* ===== verification/Filesys_Spec.thy ===== *)
theory Filesys_Spec
  imports Directory_Spec Allocation
begin

text \<open>
  Creating a file and opening it by its name (\<^verbatim>\<open>a3/fs/filesys.c\<close>): the free map, the inode and the directory together. The
  invariant \<open>fs_inv\<close> is that of the file system with its current directory; \<open>new_file\<close> and \<open>stored\<close> say what a sector with an
  inode stands for, \<open>opened\<close> what an open file shows.
\<close>

section \<open>Frames\<close>

lemma dirs_upd [simp]:
  fixes s :: "'a dstate_scheme"
  shows "dev_sector q (s\<lparr>dirs := ds\<rparr>) = dev_sector q s" "dev_ok m q (s\<lparr>dirs := ds\<rparr>) = dev_ok m q s"
    "cache_content (s\<lparr>dirs := ds\<rparr>) = cache_content s" "cache_inv n (s\<lparr>dirs := ds\<rparr>) = cache_inv n s"
proof -
  show *: "dev_sector q (s\<lparr>dirs := ds\<rparr>) = dev_sector q s" for q by (simp add: dev_sector_def fun_eq_iff)
  show **: "dev_ok m q (s\<lparr>dirs := ds\<rparr>) = dev_ok m q s" for m q by (simp add: dev_ok_def cong: option.case_cong)
  show "cache_content (s\<lparr>dirs := ds\<rparr>) = cache_content s" "cache_inv n (s\<lparr>dirs := ds\<rparr>) = cache_inv n s"
    by (simp_all add: cache_content_def cache_inv_def * **)
qed

lemma dirs_upd_map [simp]:
  fixes s :: "'a dstate_scheme"
  shows "map_inode (s\<lparr>dirs := ds\<rparr>) = map_inode s" "map_area (s\<lparr>dirs := ds\<rparr>) = map_area s" "fm_inv n (s\<lparr>dirs := ds\<rparr>) = fm_inv n s"
    "free_sectors (s\<lparr>dirs := ds\<rparr>) = free_sectors s" "used (s\<lparr>dirs := ds\<rparr>) q = used s q"
    "inode_content inode (s\<lparr>dirs := ds\<rparr>) = inode_content inode s" "inode_ok n i inode (s\<lparr>dirs := ds\<rparr>) = inode_ok n i inode s"
proof -
  show mi: "map_inode (s\<lparr>dirs := ds\<rparr>) = map_inode s" by (simp add: map_inode_def)
  then show ma: "map_area (s\<lparr>dirs := ds\<rparr>) = map_area s" by (simp add: map_area_def cong: option.case_cong)
  show u: "used (s\<lparr>dirs := ds\<rparr>) q = used s q" for q by (simp add: used_def)
  show "fm_inv n (s\<lparr>dirs := ds\<rparr>) = fm_inv n s" by (simp add: fm_inv_def map_file_ok_def mi ma u)
  show "free_sectors (s\<lparr>dirs := ds\<rparr>) = free_sectors s" "inode_content inode (s\<lparr>dirs := ds\<rparr>) = inode_content inode s"
    "inode_ok n i inode (s\<lparr>dirs := ds\<rparr>) = inode_ok n i inode s"
    by (simp_all add: free_sectors_def inode_content_def inode_ok_def)
qed

text \<open>A directory whose sectors have not been touched.\<close>

lemma dir_inv_frame:
  fixes s s' :: "'a dstate_scheme"
  assumes inv: "dir_inv n d inode s" and ag: "agree (all_sectors (cache_content s) (i_data inode)) (cache_content s) (cache_content s')"
    and c: "cache_inv n s'" "malloc_ok s' = malloc_ok s"
    and dr: "dirs s d = Some dr" "dirs s' d = Some dr'" "dir_inode dr' = dir_inode dr" "inodes s' (dir_inode dr) = inodes s (dir_inode dr)"
  shows "dir_inv n d inode s'" "inode_content inode s' = inode_content inode s"
proof -
  show e: "inode_content inode s' = inode_content inode s"
    using untouched_bytes(1) [OF ag] by (simp add: inode_content_def)
  note da = disk_agree [OF ag]
  have "dir_ok n d inode s'"
    using inv c dr da by (auto simp: dir_inv_def dir_ok_def inode_ok_def)
  then show "dir_inv n d inode s'" using inv by (simp add: dir_inv_def e)
qed

text \<open>What does not touch the sectors of the free map keeps the free map.\<close>

lemma fm_inv_agree:
  fixes s s' :: "'a fstate_scheme"
  assumes inv: "fm_inv n s" and c: "cache_inv n s'" "fs_device s' = fs_device s" "cstate.more s' = cstate.more s"
    and ag: "\<And>q. valid_sector n q \<Longrightarrow> q \<in> map_area s \<Longrightarrow> cache_content s' q = cache_content s q"
  shows "fm_inv n s'" "map_area s' = map_area s" "same_tables s s' \<and> free_map s' = free_map s"
proof -
  show st: "same_tables s s' \<and> free_map s' = free_map s" by (rule same_tables_more [OF c(2,3)])
  have "valid_sector n q" if "q \<in> map_area s" for q
    using inv that by (auto simp: fm_inv_def used_def valid_sector_def)
  then have ag': "agree (map_area s) (cache_content s) (cache_content s')" using ag by (auto simp: agree_def)
  show ma: "map_area s' = map_area s" using map_area_agree [OF _ ag'] map_inode_same st by blast
  have "map_file_ok n s'" using map_file_agree [OF _ st ag'] inv by (simp add: fm_inv_def)
  then show "fm_inv n s'" using inv c st ma by (auto simp: fm_inv_def used_def same_tables_def)
qed

lemma fm_inv_wrote:
  assumes "fm_inv n s" "wrote n inode s s'" "cache_inv n s'" "data_sectors (cache_content s) (i_data inode) \<inter> map_area s = {}"
  shows "fm_inv n s'" "map_area s' = map_area s" "same_tables s s' \<and> free_map s' = free_map s"
proof -
  have "cache_content s' q = cache_content s q" if "valid_sector n q" "q \<in> map_area s" for q
    using assms(2,4) that by (auto simp: wrote_def)
  with fm_inv_agree [OF assms(1,3)] assms(2)
  show "fm_inv n s'" "map_area s' = map_area s" "same_tables s s' \<and> free_map s' = free_map s" by (simp_all add: wrote_def)
qed

lemma fm_inv_keeps:
  fixes s s' :: "'a fstate_scheme"
  assumes "fm_inv n s" "cache_keeps n s s'"
  shows "fm_inv n s'" "map_area s' = map_area s" "same_tables s s' \<and> free_map s' = free_map s"
  using assms fm_inv_agree [OF assms(1)] by (auto simp: cache_keeps_def)

section \<open>The names of files\<close>

text \<open>A name that is not a path, and none of the two dots.\<close>

definition file_name :: "string \<Rightarrow> bool" where
  "file_name name \<longleftrightarrow> legal_name name \<and> CHR ''/'' \<notin> set name \<and> name \<noteq> ''.'' \<and> name \<noteq> ''..''"

lemma split_plain: "CHR ''/'' \<notin> set name \<Longrightarrow> split_slash w name = [w @ name]"
  by (induction name arbitrary: w) auto

lemma file_name_split: "file_name name \<Longrightarrow> snd (split_path_filename name) = name \<and> name \<noteq> []"
  by (simp add: file_name_def legal_name_def split_path_filename_def tokens_def split_plain Let_def)

section \<open>The current directory\<close>

text \<open>
  The file system with current directory \<open>d\<close>, whose inode is \<open>inode\<close>: the free map is right, the sectors of the
  directory are in use and apart from those of the free map, and every inode that is open has its sector in use.
\<close>

definition fs_inv :: "nat \<Rightarrow> nat \<Rightarrow> inode \<Rightarrow> 'a dstate_scheme \<Rightarrow> bool" where
  "fs_inv n d inode s \<longleftrightarrow>
     fm_inv n s \<and> dir_inv n d inode s \<and> cwd s = Some d \<and>
     (\<exists>dr. dirs s d = Some dr \<and> 0 < dir_open_cnt dr \<and> int32 (dir_open_cnt dr + 1)) \<and>
     (\<forall>q\<in>all_sectors (cache_content s) (i_data inode). used s q \<and> q \<notin> map_area s) \<and>
     (\<forall>i\<in>set (open_inodes s). \<exists>ino. inodes s i = Some ino \<and> used s (i_sector ino))"

text \<open>What the names of the directory stand for.\<close>

abbreviation names :: "inode \<Rightarrow> 'a dstate_scheme \<Rightarrow> string \<Rightarrow> block_sector_t option" where
  "names inode s \<equiv> dir_map (inode_content inode s)"

section \<open>A new file on the disk\<close>

definition new_file :: "nat \<Rightarrow> block_sector_t \<Rightarrow> int \<Rightarrow> 'a cstate_scheme \<Rightarrow> bool" where
  "new_file n q len s \<longleftrightarrow>
     (let C = cache_content s; dk = decode_inode (C q)
      in d_length dk = len \<and> \<not> is_dir dk \<and> disk_ok n C dk \<and> disk_inj C dk \<and> q \<notin> all_sectors C dk \<and>
         inode_bytes C dk = replicate (nat len) 0)"

definition file_sectors :: "block_sector_t \<Rightarrow> 'a cstate_scheme \<Rightarrow> block_sector_t set" where
  "file_sectors q s = insert q (all_sectors (cache_content s) (decode_inode (cache_content s q)))"

lemma new_file_frame:
  assumes "new_file n q len s" "agree (file_sectors q s) (cache_content s) (cache_content s')"
  shows "new_file n q len s'" "file_sectors q s' = file_sectors q s"
proof -
  let ?dk = "decode_inode (cache_content s q)"
  have q: "cache_content s' q = cache_content s q" and ag: "agree (all_sectors (cache_content s) ?dk) (cache_content s) (cache_content s')"
    using assms(2) by (simp_all add: agree_def file_sectors_def)
  show "new_file n q len s'" "file_sectors q s' = file_sectors q s"
    using assms(1) disk_agree [OF ag] untouched_bytes [OF ag] by (simp_all add: new_file_def file_sectors_def q Let_def)
qed

lemma used_free: "unat q < bit_cnt (free_map s) \<Longrightarrow> used s q \<longleftrightarrow> q \<notin> free_sectors s"
  by (simp add: used_def free_sectors_def)

lemma used_valid: "fm_inv n s \<Longrightarrow> used s q \<Longrightarrow> valid_sector n q"
  by (simp add: fm_inv_def used_def valid_sector_def)

text \<open>The first two steps of \<^verbatim>\<open>filesys_create\<close>: a sector for the inode, then the inode with its data.\<close>

lemma reserve_file:
  assumes inv: "fm_inv n s" and len: "0 \<le> len" "len \<le> 123 * 512" and room: "(nat len + 511) div 512 < card (free_sectors s)"
  shows "\<exists>q t u. free_map_allocate (save_map (Suc fuel)) 1 s = Some (Some q, t) \<and>
    inode_create (save_map (Suc fuel)) q len False t = Some (True, u) \<and> fm_inv n u \<and> same_tables s u \<and> map_area u = map_area s \<and>
    new_file n q len u \<and> file_sectors q u \<subseteq> free_sectors s \<and> free_sectors u = free_sectors s - file_sectors q u \<and>
    q \<noteq> 0 \<and> (\<forall>r. used s r \<or> r \<in> file_sectors q u \<longrightarrow> used u r) \<and>
    (\<forall>r. used s r \<longrightarrow> r \<notin> map_area s \<longrightarrow> cache_content u r = cache_content s r)"
proof -
  have "free_sectors s \<noteq> {}" using room by auto
  from ms.allocate_one [OF inv this, of fuel] obtain q t where
    t: "free_map_allocate (save_map (Suc fuel)) 1 s = Some (Some q, t)" "grow n {q} s t" by blast
  then have g: "fm_inv n t" "same_tables s t" "bit_cnt (free_map t) = bit_cnt (free_map s)" "map_area t = map_area s"
    "q \<in> free_sectors s" "free_sectors t = free_sectors s - {q}"
    "\<forall>r. valid_sector n r \<longrightarrow> r \<notin> map_area s \<longrightarrow> r \<noteq> q \<longrightarrow> cache_content t r = cache_content s r" by (auto simp: grow_def)
  note q = ms.free_valid [OF inv g(5)]
  have "used t q" using g(3,5,6) by (subst used_free) (auto simp: free_sectors_def)
  moreover have "(nat len + 511) div 512 \<le> card (free_sectors t)" using room g(5,6) by simp
  ultimately obtain u where c: "inode_create (save_map (Suc fuel)) q len False t = Some (True, u)" "fm_inv n u" "same_tables t u"
      "map_area u = map_area t" "bit_cnt (free_map u) = bit_cnt (free_map t)"
    and d: "d_length (decode_inode (cache_content u q)) = len" "\<not> is_dir (decode_inode (cache_content u q))"
      "disk_ok n (cache_content u) (decode_inode (cache_content u q))" "disk_inj (cache_content u) (decode_inode (cache_content u q))"
      "inode_bytes (cache_content u) (decode_inode (cache_content u q)) = replicate (nat len) 0"
    and e: "all_sectors (cache_content u) (decode_inode (cache_content u q)) \<subseteq> free_sectors t"
      "free_sectors u = free_sectors t - all_sectors (cache_content u) (decode_inode (cache_content u q))"
      "\<forall>r. valid_sector n r \<longrightarrow> r \<notin> map_area t \<longrightarrow> r \<notin> all_sectors (cache_content u) (decode_inode (cache_content u q)) \<longrightarrow>
         r \<noteq> q \<longrightarrow> cache_content u r = cache_content t r"
    using ms.create_direct [OF g(1) len, of q fuel False] q g(4) by metis
  have u: "new_file n q len u" "file_sectors q u \<subseteq> insert q (free_sectors t)"
      "\<forall>r. valid_sector n r \<longrightarrow> r \<notin> map_area t \<longrightarrow> r \<notin> file_sectors q u \<longrightarrow> cache_content u r = cache_content t r"
    using d e g(6) by (auto simp: new_file_def file_sectors_def Let_def)
  have fu: "free_sectors u = free_sectors s - file_sectors q u" using e(2) g(6) by (auto simp: file_sectors_def)
  have "used u r" if "used s r \<or> r \<in> file_sectors q u" for r
  proof -
    have "unat r < bit_cnt (free_map u)" "r \<notin> free_sectors u"
      using that g(3,5,6) c(5) fu u(2) by (auto simp: used_def free_sectors_def)
    then show ?thesis by (simp add: used_free)
  qed
  moreover have "cache_content u r = cache_content s r" if "used s r" "r \<notin> map_area s" for r
  proof -
    have "valid_sector n r" "r \<notin> insert q (free_sectors t)"
      using that used_valid [OF inv] g(5,6) by (auto simp: used_def free_sectors_def)
    then show ?thesis using that g(4,7) u(2,3) by auto
  qed
  ultimately show ?thesis using t(1) c(1,2,4) u(1,2) fu same_tables_trans [OF g(2) c(3)] g(4-6) q
    by (intro exI [of _ q] exI [of _ t] exI [of _ u]) auto
qed

section \<open>Creating\<close>

lemma more_dirs:
  fixes s s' :: "'a dstate_scheme"
  assumes "fstate.more s' = fstate.more s"
  shows "dirs s' = dirs s" "cwd s' = cwd s" "next_dir s' = next_dir s"
  using assms by (cases s; cases s'; simp)+

text \<open>The current directory is opened once more and closed again.\<close>

lemma open_close_root:
  assumes "cwd s = Some d" "dirs s d = Some dr" "0 < dir_open_cnt dr" "int32 (dir_open_cnt dr + 1)"
  shows "dir_open_root save s = Some (Some d, s\<lparr>dirs := (dirs s)(d \<mapsto> dr\<lparr>dir_open_cnt := dir_open_cnt dr + 1\<rparr>)\<rparr>)"
    and "dirs t = (dirs s)(d \<mapsto> dr\<lparr>dir_open_cnt := dir_open_cnt dr + 1\<rparr>) \<Longrightarrow> dir_close save (Some d) t = Some (t\<lparr>dirs := dirs s\<rparr>)"
proof -
  show "dir_open_root save s = Some (Some d, s\<lparr>dirs := (dirs s)(d \<mapsto> dr\<lparr>dir_open_cnt := dir_open_cnt dr + 1\<rparr>)\<rparr>)"
    using assms by (simp add: dir_open_root_def chk32_def)
  have "int32 (dir_open_cnt dr)" using assms(3,4) by (simp add: int32_def)
  moreover have "(dirs s)(d \<mapsto> dr) = dirs s" using assms(2) by auto
  ultimately show "dirs t = (dirs s)(d \<mapsto> dr\<lparr>dir_open_cnt := dir_open_cnt dr + 1\<rparr>) \<Longrightarrow> dir_close save (Some d) t = Some (t\<lparr>dirs := dirs s\<rparr>)"
    using assms(3) by (simp add: dir_close_def chk32_def)
qed

lemma fs_invD:
  assumes "fs_inv n d inode s"
  shows "fm_inv n s" "dir_inv n d inode s" "cwd s = Some d" "cache_inv n s" "disk_ok n (cache_content s) (i_data inode)"
    "\<And>q. q \<in> all_sectors (cache_content s) (i_data inode) \<Longrightarrow> used s q \<and> q \<notin> map_area s"
    "\<And>i. i \<in> set (open_inodes s) \<Longrightarrow> \<exists>ino. inodes s i = Some ino \<and> used s (i_sector ino)"
  using assms by (auto simp: fs_inv_def fm_inv_def dir_inv_def dir_ok_def inode_ok_def split: option.splits)

text \<open>Writing the data of a file moves none of its sectors.\<close>

lemma wrote_sectors:
  assumes "disk_ok n (cache_content s) (i_data inode)" "disk_inj (cache_content s) (i_data inode)" "wrote n inode s s'"
  shows "all_sectors (cache_content s') (i_data inode) = all_sectors (cache_content s) (i_data inode)"
proof -
  have ag: "agree (map_sectors (cache_content s) (i_data inode) (sectors (i_data inode))) (cache_content s) (cache_content s')"
    using assms by (auto simp: agree_def wrote_def disk_inj_def disk_ok_def mapped_def)
  then show ?thesis
    using sector_at_agree [OF ag] map_sectors_agree [OF ag] by (auto simp: all_sectors_def data_sectors_def)
qed

text \<open>The new file is there, and the entry for it is in the directory.\<close>

lemma entry_for_file:
  fixes s u :: "'a dstate_scheme"
  assumes inv: "dir_inv n d inode u" "fm_inv n u"
    and sep: "\<And>q. q \<in> all_sectors (cache_content u) (i_data inode) \<Longrightarrow> q \<notin> map_area u \<and> q \<notin> file_sectors q0 u"
    and new: "new_file n q0 len u" "\<And>q. q \<in> file_sectors q0 u \<Longrightarrow> valid_sector n q"
    and name: "legal_name name" "names inode u name = None" "free_slots (inode_content inode u) \<noteq> {}"
  shows "\<exists>v. dir_add (Suc fuel) junk d name q0 False u = Some (True, v) \<and> dir_inv n d inode v \<and> fm_inv n v \<and>
     names inode v = (names inode u)(name \<mapsto> q0) \<and> new_file n q0 len v \<and> file_sectors q0 v = file_sectors q0 u \<and> same_tables u v \<and> free_map v = free_map u \<and>
     map_area v = map_area u \<and> all_sectors (cache_content v) (i_data inode) = all_sectors (cache_content u) (i_data inode) \<and>
     (\<forall>r. valid_sector n r \<longrightarrow> r \<notin> all_sectors (cache_content u) (i_data inode) \<longrightarrow> cache_content v r = cache_content u r)"
proof -
  from dir_add_new [OF inv(1) name, of fuel junk q0] obtain v where
    v: "dir_add (Suc fuel) junk d name q0 False u = Some (True, v)" "dir_inv n d inode v" "names inode v = (names inode u)(name \<mapsto> q0)"
      "wrote n inode u v" by blast
  have ci: "cache_inv n v" using v(2) by (auto simp: dir_inv_def dir_ok_def inode_ok_def split: option.splits)
  have ds: "data_sectors (cache_content u) (i_data inode) \<subseteq> all_sectors (cache_content u) (i_data inode)"
    by (auto simp: all_sectors_def)
  with sep have "data_sectors (cache_content u) (i_data inode) \<inter> map_area u = {}" by blast
  note fm = fm_inv_wrote [OF inv(2) v(4) ci this]
  have "agree (file_sectors q0 u) (cache_content u) (cache_content v)"
    using v(4) new(2) sep ds by (auto simp: agree_def wrote_def)
  note nf = new_file_frame [OF new(1) this]
  have "disk_ok n (cache_content u) (i_data inode)" "disk_inj (cache_content u) (i_data inode)"
    using inv(1) by (auto simp: dir_inv_def dir_ok_def inode_ok_def split: option.splits)
  note as = wrote_sectors [OF this v(4)]
  have "\<forall>r. valid_sector n r \<longrightarrow> r \<notin> all_sectors (cache_content u) (i_data inode) \<longrightarrow> cache_content v r = cache_content u r"
    using v(4) ds by (auto simp: wrote_def)
  with v fm nf as show ?thesis by (intro exI [of _ v]) auto
qed

lemma agree_refl [simp]: "agree S C C"
  by (simp add: agree_def)

lemma used_same: "free_map t = free_map s \<Longrightarrow> used t q = used s q"
  by (simp add: used_def)

lemma same_tablesD:
  fixes s t :: "'a dstate_scheme"
  assumes "same_tables s t"
  shows "malloc_ok t = malloc_ok s" "inodes t = inodes s" "open_inodes t = open_inodes s" "next_inode t = next_inode s"
    "open_files t = open_files s" "next_file t = next_file s" "dirs t = dirs s" "cwd t = cwd s" "next_dir t = next_dir s"
  using assms more_dirs [of t s] by (simp_all add: same_tables_def)

lemma create_file:
  fixes s :: "'a dstate_scheme"
  assumes inv: "fs_inv n d inode s" and name: "file_name name" "names inode s name = None"
    and slots: "free_slots (inode_content inode s) \<noteq> {}"
    and len: "0 \<le> len" "len \<le> 123 * 512" and room: "(nat len + 511) div 512 < card (free_sectors s)"
  shows "\<exists>q s'. filesys_create (Suc fuel) junk name len False s = Some (True, s') \<and> fs_inv n d inode s' \<and>
     names inode s' = (names inode s)(name \<mapsto> q) \<and> q \<in> free_sectors s \<and> new_file n q len s' \<and> same_tables s s' \<and>
     file_sectors q s' \<subseteq> free_sectors s \<and> free_sectors s' = free_sectors s - file_sectors q s' \<and> (\<forall>r. used s r \<or> r \<in> file_sectors q s' \<longrightarrow> used s' r) \<and>
     map_area s' = map_area s \<and> all_sectors (cache_content s') (i_data inode) = all_sectors (cache_content s) (i_data inode) \<and>
     (\<forall>r. used s r \<longrightarrow> r \<notin> map_area s \<longrightarrow> r \<notin> all_sectors (cache_content s) (i_data inode) \<longrightarrow> cache_content s' r = cache_content s r)"
proof -
  note i = fs_invD [OF inv]
  let ?A = "all_sectors (cache_content s) (i_data inode)"
  obtain dr where dr: "dirs s d = Some dr" "0 < dir_open_cnt dr" "int32 (dir_open_cnt dr + 1)" using inv by (auto simp: fs_inv_def)
  let ?s1 = "s\<lparr>dirs := (dirs s)(d \<mapsto> dr\<lparr>dir_open_cnt := dir_open_cnt dr + 1\<rparr>)\<rparr>"
  note root = open_close_root [OF i(3) dr]
  from reserve_file [of n ?s1 len fuel] i(1) len room obtain q t u where
    u: "free_map_allocate (save_map (Suc fuel)) 1 ?s1 = Some (Some q, t)" "inode_create (save_map (Suc fuel)) q len False t = Some (True, u)"
      "fm_inv n u" "same_tables ?s1 u" "map_area u = map_area s" "new_file n q len u" "file_sectors q u \<subseteq> free_sectors s"
      "\<And>r. used s r \<Longrightarrow> used u r" "\<And>r. r \<in> file_sectors q u \<Longrightarrow> used u r" "free_sectors u = free_sectors s - file_sectors q u" "\<And>r. used s r \<Longrightarrow> r \<notin> map_area s \<Longrightarrow> cache_content u r = cache_content s r" by auto
  note tu = same_tablesD [OF u(4)]
  have ag: "agree ?A (cache_content s) (cache_content u)" using i(6) u(11) by (auto simp: agree_def)
  have cu: "cache_inv n u" using u(3) by (simp add: fm_inv_def)
  have "dirs u d = Some (dr\<lparr>dir_open_cnt := dir_open_cnt dr + 1\<rparr>)" using tu(7) by simp
  note di = dir_inv_frame [OF i(2) ag cu _ dr(1) this]
  have du: "dir_inv n d inode u" "inode_content inode u = inode_content inode s" using di tu(1,2) by auto
  have as: "all_sectors (cache_content u) (i_data inode) = ?A" by (rule untouched_bytes(2) [OF ag])
  have free: "r \<in> file_sectors q u \<Longrightarrow> r \<in> free_sectors s \<and> valid_sector n r" for r using u(7) ms.free_valid [OF i(1)] by blast
  have sep: "r \<notin> map_area u \<and> r \<notin> file_sectors q u" if "r \<in> all_sectors (cache_content u) (i_data inode)" for r
    using that i(6) [of r] free [of r] u(5) by (auto simp: as used_def free_sectors_def)
  from entry_for_file [OF du(1) u(3) sep u(6) _ _ _ _, of name fuel junk] free name slots obtain v where
    v: "dir_add (Suc fuel) junk d name q False u = Some (True, v)" "dir_inv n d inode v" "fm_inv n v"
      "names inode v = (names inode s)(name \<mapsto> q)" "new_file n q len v" "same_tables u v" "free_map v = free_map u"
      "map_area v = map_area s" "all_sectors (cache_content v) (i_data inode) = ?A"
      "\<And>r. valid_sector n r \<Longrightarrow> r \<notin> ?A \<Longrightarrow> cache_content v r = cache_content u r" "file_sectors q v = file_sectors q u"
    by (auto simp: du(2) as u(5) file_name_def)
  note tv = same_tablesD [OF v(6)]
  let ?v = "v\<lparr>dirs := dirs s\<rparr>"
  have "filesys_create (Suc fuel) junk name len False s = Some (True, ?v)"
    using root(1) [of "save_map (Suc fuel)"] root(2) [of v "save_map (Suc fuel)"] u(1,2) v(1) tu(7) tv(7) file_name_split [OF name(1)]
    by (simp add: filesys_create_def Let_def)
  moreover have sv: "same_tables s ?v"
    using same_tables_trans [OF u(4) v(6)] by (cases s; cases v) (simp add: same_tables_def)
  moreover have dv: "dir_inv n d inode ?v" "inode_content inode ?v = inode_content inode v"
    using dir_inv_frame [OF v(2), where s' = ?v] v(3) dr(1) tu(7) tv(7) by (auto simp: fm_inv_def)
  moreover have "fs_inv n d inode ?v"
    unfolding fs_inv_def
  proof (intro conjI)
    have us: "used s r \<Longrightarrow> used ?v r" for r using u(8) used_same [OF v(7)] by simp
    show "fm_inv n ?v" "cwd ?v = Some d" using v(3) i(3) tu(8) tv(8) by simp_all
    show "\<exists>dr. dirs ?v d = Some dr \<and> 0 < dir_open_cnt dr \<and> int32 (dir_open_cnt dr + 1)" using dr by simp
    show "\<forall>q\<in>all_sectors (cache_content ?v) (i_data inode). used ?v q \<and> q \<notin> map_area ?v"
      using i(6) us v(8,9) by auto
    show "\<forall>i\<in>set (open_inodes ?v). \<exists>ino. inodes ?v i = Some ino \<and> used ?v (i_sector ino)"
      using i(7) us tu(2,3) tv(2,3) by fastforce
  qed (rule dv)
  moreover have "new_file n q len ?v" "file_sectors q ?v = file_sectors q u" using v(5,11) by (simp_all add: new_file_def file_sectors_def)
  moreover have "\<forall>r. used s r \<or> r \<in> file_sectors q u \<longrightarrow> used ?v r" using u(8,9) used_same [OF v(7)] by auto
  moreover have "free_sectors ?v = free_sectors s - file_sectors q u" using u(10) v(7) by (simp add: free_sectors_def)
  moreover have "q \<in> free_sectors s" using free [of q] by (simp add: file_sectors_def)
  moreover have "cache_content ?v r = cache_content s r" if "used s r" "r \<notin> map_area s" "r \<notin> ?A" for r
    using that u(11) v(10) used_valid [OF i(1)] by simp
  ultimately show ?thesis using v(4,8,9) u(7) by (intro exI [of _ q] exI [of _ ?v]) simp
qed

section \<open>Opening\<close>

text \<open>Sector \<open>q\<close> holds the inode of a file with the bytes \<open>bs\<close>.\<close>

definition stored :: "nat \<Rightarrow> block_sector_t \<Rightarrow> byte list \<Rightarrow> 'a cstate_scheme \<Rightarrow> bool" where
  "stored n q bs s \<longleftrightarrow>
     (let C = cache_content s; dk = decode_inode (C q) in disk_ok n C dk \<and> disk_inj C dk \<and> inode_bytes C dk = bs)"

lemma new_file_stored: "new_file n q len s \<Longrightarrow> stored n q (replicate (nat len) 0) s"
  by (simp add: new_file_def stored_def Let_def)

text \<open>An open file that is at its start and shows the bytes \<open>bs\<close>.\<close>

definition opened :: "nat \<Rightarrow> nat \<Rightarrow> block_sector_t \<Rightarrow> byte list \<Rightarrow> 'a fstate_scheme \<Rightarrow> bool" where
  "opened n f q bs s \<longleftrightarrow>
     (\<exists>i ino. open_files s f = Some \<lparr>f_inode = i, f_pos = 0, f_deny_write = False\<rparr> \<and> inode_ok n i ino s \<and>
        disk_inj (cache_content s) (i_data ino) \<and> i_deny_write_cnt ino = 0 \<and> i_sector ino = q \<and> inode_content ino s = bs)"

lemma tables_upd [simp]:
  fixes s :: "'a fstate_scheme"
  shows "cache_content (s\<lparr>open_inodes := is, next_inode := k\<rparr>) = cache_content s"
    "cache_inv n (s\<lparr>open_inodes := is, next_inode := k\<rparr>) = cache_inv n s"
    "cache_content (set_inode i ino s) = cache_content s" "cache_inv n (set_inode i ino s) = cache_inv n s"
    "cache_content (s\<lparr>open_files := fs, next_file := k\<rparr>) = cache_content s"
    "cache_inv n (s\<lparr>open_files := fs, next_file := k\<rparr>) = cache_inv n s"
  by (simp_all add: set_inode_upd cache_content_def set_inode_def cache_inv_def dev_ok_def dev_sector_def [abs_def] cong: option.case_cong)

lemma keeps_table:
  fixes s s' :: "'a dstate_scheme"
  assumes "fstate.more s' = fstate.more s"
  shows "file_table s' = file_table s"
  using assms by (cases s; cases s'; simp)

lemma find_inode_none:
  "\<forall>i\<in>set is. \<exists>ino. inodes s i = Some ino \<and> i_sector ino \<noteq> q \<Longrightarrow> find_inode q is s = Some None"
  by (induction "is") auto

definition read_inode :: "block_sector_t \<Rightarrow> 'a cstate_scheme \<Rightarrow> inode" where
  "read_inode q s =
     \<lparr>i_sector = q, i_open_cnt = 1, i_removed = False, i_deny_write_cnt = 0, i_data = decode_inode (cache_content s q)\<rparr>"

lemma inode_open_reads:
  fixes s :: "'a fstate_scheme"
  assumes "cache_inv n s" "malloc_ok s 544" "valid_sector n q" "find_inode q (open_inodes s) s = Some None"
  shows "\<exists>t. inode_open q s = Some (Some (next_inode s), set_inode (next_inode s) (read_inode q s) t) \<and>
     cache_keeps n (s\<lparr>open_inodes := next_inode s # open_inodes s, next_inode := Suc (next_inode s)\<rparr>) t"
proof -
  let ?t = "s\<lparr>open_inodes := next_inode s # open_inodes s, next_inode := Suc (next_inode s)\<rparr>"
  from read_keeps [OF open_upd [OF assms(1)] assms(3)] obtain t where
    "buffer_cache_read q ?t = Some (cache_content s q, t)" "cache_keeps n ?t t" by auto
  with assms(2,4) show ?thesis by (auto simp: inode_open_def Let_def read_inode_def)
qed

lemma inode_open_new:
  fixes s :: "'a dstate_scheme"
  assumes inv: "cache_inv n s" "malloc_ok s 512" "malloc_ok s 544" and q: "valid_sector n q" "stored n q bs s"
    and closed: "find_inode q (open_inodes s) s = Some None"
  shows "\<exists>i ino s'. inode_open q s = Some (Some i, s') \<and> inode_ok n i ino s' \<and> disk_inj (cache_content s') (i_data ino) \<and>
     i_deny_write_cnt ino = 0 \<and> i_sector ino = q \<and> inode_content ino s' = bs \<and> i_removed ino = False \<and>
     (\<forall>r. valid_sector n r \<longrightarrow> cache_content s' r = cache_content s r) \<and> dirs s' = dirs s \<and> cwd s' = cwd s \<and>
     malloc_ok s' = malloc_ok s \<and> file_table s' = file_table s"
proof -
  let ?t = "s\<lparr>open_inodes := next_inode s # open_inodes s, next_inode := Suc (next_inode s)\<rparr>"
  from inode_open_reads [OF inv(1,3) q(1) closed] obtain t where
    t: "inode_open q s = Some (Some (next_inode s), set_inode (next_inode s) (read_inode q s) t)" "cache_keeps n ?t t" by blast
  then have more: "cstate.more t = cstate.more ?t" by (simp add: cache_keeps_def)
  note m = cache_keeps_more [OF more] and k = keeps_dirs [OF more]
  let ?s' = "set_inode (next_inode s) (read_inode q s) t" and ?dk = "decode_inode (cache_content s q)"
  have C: "\<forall>r. valid_sector n r \<longrightarrow> cache_content t r = cache_content s r" "cache_inv n t"
    using t(2) by (simp_all add: cache_keeps_def)
  have "disk_ok n (cache_content s) ?dk" using q(2) by (simp add: stored_def Let_def)
  then have ag: "agree (all_sectors (cache_content s) ?dk) (cache_content s) (cache_content t)"
    using C(1) by (auto simp: agree_def all_sectors_def data_sectors_def disk_ok_def mapped_def)
  have "inode_ok n (next_inode s) (read_inode q s) ?s'" "disk_inj (cache_content ?s') ?dk" "inode_content (read_inode q s) ?s' = bs"
    using q(2) disk_agree [OF ag] untouched_bytes(1) [OF ag] inv(2) C(2) m
    by (simp_all add: inode_ok_def inode_content_def stored_def Let_def read_inode_def) (simp_all add: set_inode_def)
  moreover have "dirs ?s' = dirs s" "cwd ?s' = cwd s" "malloc_ok ?s' = malloc_ok s" "file_table ?s' = file_table s"
    using m k keeps_table [of t ?t] by (simp_all add: set_inode_def)
  ultimately show ?thesis using C(1) t(1)
    by (intro exI [of _ "next_inode s"] exI [of _ "read_inode q s"] exI [of _ ?s']) (simp add: read_inode_def)
qed

lemma stored_keeps:
  assumes "stored n q bs s" "valid_sector n q" "\<forall>r. valid_sector n r \<longrightarrow> cache_content s' r = cache_content s r"
  shows "stored n q bs s'"
proof -
  let ?dk = "decode_inode (cache_content s q)"
  have "disk_ok n (cache_content s) ?dk" using assms(1) by (simp add: stored_def Let_def)
  then have ag: "agree (all_sectors (cache_content s) ?dk) (cache_content s) (cache_content s')"
    using assms(3) by (auto simp: agree_def all_sectors_def data_sectors_def disk_ok_def mapped_def)
  show ?thesis using assms disk_agree [OF ag] untouched_bytes(1) [OF ag] by (simp add: stored_def Let_def)
qed

lemma lookup_name:
  assumes inv: "dir_inv n d inode s" and name: "file_name name" "names inode s name = Some q"
  shows "\<exists>s'. dir_lookup d name s = inode_open q s' \<and> cache_keeps n s s'"
proof -
  have ok: "dir_ok n d inode s" "1 \<le> entry_cnt (inode_content inode s)" using inv by (simp_all add: dir_inv_def)
  obtain dr where dr: "dirs s d = Some dr" using ok(1) by (auto simp: dir_ok_def split: option.splits)
  obtain k where k: "dir_answer name (inode_content inode s) = Some k" "e_inode_sector (entry_at (inode_content inode s) k) = q"
    using name(2) by (auto simp: dir_map_def)
  from dir_find_finds [OF ok, of name] k(1) obtain s' where
    "dir_find d name s = Some (Some (entry_at (inode_content inode s) k, 36 * int k), s')" "cache_keeps n s s'" by auto
  then show ?thesis using dr name(1) k(2) by (auto simp: dir_lookup_def file_name_def)
qed

lemma open_file:
  fixes s :: "'a dstate_scheme"
  assumes inv: "fs_inv n d inode s" and name: "file_name name" "names inode s name = Some q"
    and q: "used s q" "stored n q bs s" and closed: "\<forall>i\<in>set (open_inodes s). \<forall>ino. inodes s i = Some ino \<longrightarrow> i_sector ino \<noteq> q"
    and mem: "malloc_ok s 544" "malloc_ok s 16"
  shows "\<exists>f s'. filesys_open fuel name s = Some (Some f, s') \<and> opened n f q bs s' \<and> dirs s' = dirs s \<and> file_table s' = file_table s \<and>
     (\<forall>r. valid_sector n r \<longrightarrow> cache_content s' r = cache_content s r)"
proof -
  note i = fs_invD [OF inv]
  obtain dr where dr: "dirs s d = Some dr" "0 < dir_open_cnt dr" "int32 (dir_open_cnt dr + 1)" using inv by (auto simp: fs_inv_def)
  let ?s1 = "s\<lparr>dirs := (dirs s)(d \<mapsto> dr\<lparr>dir_open_cnt := dir_open_cnt dr + 1\<rparr>)\<rparr>"
  note root = open_close_root [OF i(3) dr]
  have d1: "dir_inv n d inode ?s1" "inode_content inode ?s1 = inode_content inode s"
    using dir_inv_frame [OF i(2), where s' = ?s1] i(4) dr(1) by auto
  with lookup_name [OF d1(1) name(1), of q] name(2) obtain s2 where
    s2: "dir_lookup d name ?s1 = inode_open q s2" "cache_keeps n ?s1 s2" by auto
  then have more: "cstate.more s2 = cstate.more ?s1" by (simp add: cache_keeps_def)
  note m = cache_keeps_more [OF more] and k = keeps_dirs [OF more]
  have c2: "cache_inv n s2" "\<forall>r. valid_sector n r \<longrightarrow> cache_content s2 r = cache_content s r"
    using s2(2) by (simp_all add: cache_keeps_def)
  have vq: "valid_sector n q" by (rule used_valid [OF i(1) q(1)])
  have "find_inode q (open_inodes s2) s2 = Some None"
    using i(7) closed m(2,3) by (intro find_inode_none) fastforce
  moreover have "malloc_ok s2 512" "malloc_ok s2 544" using i(1) mem m(1) by (simp_all add: fm_inv_def)
  ultimately obtain j ino t where
    t: "inode_open q s2 = Some (Some j, t)" "inode_ok n j ino t" "disk_inj (cache_content t) (i_data ino)"
      "i_deny_write_cnt ino = 0" "i_sector ino = q" "inode_content ino t = bs" "i_removed ino = False"
      "\<forall>r. valid_sector n r \<longrightarrow> cache_content t r = cache_content s2 r" "dirs t = dirs s2" "malloc_ok t = malloc_ok s2"
      "file_table t = file_table s2"
    using inode_open_new [OF c2(1) _ _ vq stored_keeps [OF q(2) vq c2(2)]] by metis
  let ?t = "t\<lparr>dirs := dirs s\<rparr>"
  let ?u = "?t\<lparr>open_files := (open_files ?t)(next_file ?t \<mapsto> \<lparr>f_inode = j, f_pos = 0, f_deny_write = False\<rparr>), next_file := Suc (next_file ?t)\<rparr>"
  have "inodes t j = Some ino" using t(2) by (simp add: inode_ok_def)
  moreover have "malloc_ok t 16" using mem(2) t(10) m(1) by simp
  ultimately have "filesys_open fuel name s = Some (Some (next_file ?t), ?u)"
    using root(1) [of "save_map fuel"] root(2) [of t "save_map fuel"] s2(1) t(1,7,9) k(1) file_name_split [OF name(1)]
    by (simp add: filesys_open_def inode_is_removed_def file_open_def)
  moreover have "opened n (next_file ?t) q bs ?u" unfolding opened_def
    using t(2-6) by (intro exI [of _ j] exI [of _ ino]) (simp add: inode_ok_def inode_content_def)
  moreover have "file_table ?u = file_table s" using t(11) keeps_table [of s2 ?s1] m(9) by simp
  moreover have "dirs ?u = dirs s" "\<forall>r. valid_sector n r \<longrightarrow> cache_content ?u r = cache_content s r" using c2(2) t(8) by simp_all
  ultimately show ?thesis by blast
qed

section \<open>Creating, then opening\<close>


lemma dir8_tables [simp]:
  "open_inodes dir8 = [1, 0]" "open_files dir8 = [0 \<mapsto> \<lparr>f_inode = 0, f_pos = 0, f_deny_write = False\<rparr>]"
  "free_map dir8 = \<lparr>bit_cnt = 7, bits = [0xF]\<rparr>" "free_map_file dir8 = Some 0" "cwd dir8 = Some 0"
  by (simp_all add: dir8_def fs8_def disk8_def tstate.defs fstate.defs cstate.defs dev.defs)

lemma dir8_used: "used dir8 q \<longleftrightarrow> unat q < 4" "free_sectors dir8 = {q. 4 \<le> unat q \<and> unat q < 7}"
  using fs8_bits by (auto simp: used_def free_sectors_def)

lemma dir8_map: "map_inode dir8 = Some (direct_inode 0 2 8)" "map_area dir8 = {2}"
  by (simp_all add: map_inode_def map_area_def direct_inode_ok)

lemma dir8_fs_inv: "fs_inv 8 0 (direct_inode 1 3 100) dir8"
proof -
  have "free_map_wf (free_map dir8)" by (simp add: free_map_wf_def bm_wf_def elem_cnt_def DIV_ROUND_UP_def ELEM_BITS_def BITMAP_ERROR_def)
  moreover have "byte_cnt 7 = 8" by (simp add: byte_cnt_def elem_cnt_def DIV_ROUND_UP_def ELEM_BITS_def)
  then have "map_file_ok 8 dir8"
    using direct_inode_ok(4) [of 8 "cache_content dir8" 0 2] direct_inode_ok(5) [of 8 2 8 "cache_content dir8" 0]
    by (simp add: map_file_ok_def dir8_map)
  moreover have "cache_inv 8 dir8" using dir8_inv by (simp add: dir_inv_def dir_ok_def inode_ok_def)
  ultimately have "fm_inv 8 dir8" by (simp add: fm_inv_def dir8_map dir8_used)
  moreover have "i_sector (direct_inode a b c) = a" for a b c by (simp add: direct_inode_def)
  ultimately show ?thesis
    using dir8_inv by (auto simp: fs_inv_def dir8_used dir8_map direct_inode_ok int32_def)
qed

lemma notes_fit: "file_name ''notes''" "1 < card (free_sectors dir8)"
proof -
  have "{4, 5} \<subseteq> free_sectors dir8" by (simp add: dir8_used)
  then have "card {4, 5 :: block_sector_t} \<le> card (free_sectors dir8)" by (intro card_mono) simp_all
  then show "1 < card (free_sectors dir8)" by simp
  show "file_name ''notes''" by (simp add: file_name_def legal_name_def NAME_MAX_def)
qed


end
