(* ===== verification/Fsutil.thy ===== *)
theory Fsutil
  imports Filesys
begin

text \<open>
  The commands of the shell on files (\<^verbatim>\<open>a3/fs/fsutil.c\<close>), and the dump of bytes that \<^verbatim>\<open>cat\<close> prints (\<^verbatim>\<open>hex_dump\<close> of
  \<^verbatim>\<open>a3/fs/debug.c\<close>). Files are opened by name once and stay in the file table. Allocations whose result the code does not look at are taken to succeed.
\<close>

section \<open>Hexadecimal dumps\<close>

definition hex_digit :: "nat \<Rightarrow> char" where
  "hex_digit d = (if d < 10 then char_of (48 + d) else char_of (87 + d))"

fun hex_str :: "nat \<Rightarrow> string" where
  "hex_str n = (if n < 16 then [hex_digit n] else hex_str (n div 16) @ [hex_digit (n mod 16)])"

declare hex_str.simps [simp del]

definition pad_left :: "nat \<Rightarrow> char \<Rightarrow> string \<Rightarrow> string" where
  "pad_left w c str = replicate (w - length str) c @ str"

definition blanks :: "nat \<Rightarrow> string" where
  "blanks k = replicate k (CHR '' '')"

definition print_byte :: "byte \<Rightarrow> char" where
  "print_byte b = (if 32 \<le> unat b \<and> unat b < 127 then byte_char b else CHR ''.'')"

text \<open>One line of the dump: the bytes from position \<open>start\<close> of the line on.\<close>

definition hex_line :: "nat \<Rightarrow> nat \<Rightarrow> byte list \<Rightarrow> bool \<Rightarrow> string" where
  "hex_line ofs start bs ascii =
     (let stop = start + length bs
      in pad_left 8 (CHR ''0'') (hex_str (ofs - ofs mod 16)) @ blanks 2 @ blanks (3 * start) @
         concat (map (\<lambda>i. pad_left 2 (CHR ''0'') (hex_str (unat (bs ! (i - start)))) @ [if i = 7 then CHR ''-'' else CHR '' '']) [start..<stop]) @
         (if ascii
          then blanks (3 * (16 - stop)) @ ''|'' @ blanks start @ map print_byte bs @ blanks (16 - stop) @ ''|''
          else []) @ [newline])"

function hex_dump :: "nat \<Rightarrow> byte list \<Rightarrow> bool \<Rightarrow> string list" where
  "hex_dump ofs bs ascii =
     (if bs = [] then []
      else let n = min (16 - ofs mod 16) (length bs)
           in hex_line ofs (ofs mod 16) (take n bs) ascii # hex_dump (ofs + n) (drop n bs) ascii)"
  by pat_completeness auto
termination
proof (relation "measure (\<lambda>(ofs, bs, ascii). length bs)")
  fix ofs n :: nat and bs :: "byte list" and ascii :: bool
  assume "bs \<noteq> []" "n = min (16 - ofs mod 16) (length bs)"
  moreover have "ofs mod 16 < 16" by simp
  ultimately have "0 < n" by (simp del: mod_less_divisor)
  with \<open>bs \<noteq> []\<close> show "((ofs + n, drop n bs, ascii), (ofs, bs, ascii)) \<in> measure (\<lambda>(ofs, bs, ascii). length bs)" by simp
qed simp

declare hex_dump.simps [simp del]

definition bitmap_dump :: "bitmap \<Rightarrow> 'a dev_scheme \<Rightarrow> 'a dev_scheme" where
  "bitmap_dump b s = fold printf (hex_dump 0 (take (byte_cnt (bit_cnt b)) (bytes_of_words (bits b))) False) s"

section \<open>Commands\<close>

text \<open>The conversion of an \<^verbatim>\<open>unsigned\<close> argument to a file offset.\<close>

definition to_offset :: "int \<Rightarrow> int" where
  "to_offset i = signed_take_bit 31 i"

partial_function (option) ls_loop :: "nat \<Rightarrow> 'a dstate_scheme \<Rightarrow> 'a dstate_scheme option" where
  "ls_loop d s =
     do { (r, s1) \<leftarrow> dir_readdir d s;
          case r of None \<Rightarrow> Some s1 | Some name \<Rightarrow> ls_loop d (printf (name @ [newline]) s1) }"

declare ls_loop.simps [code]

definition fsutil_ls :: "nat \<Rightarrow> 'a dstate_scheme \<Rightarrow> (int \<times> 'a dstate_scheme) option" where
  "fsutil_ls fuel s =
     do { (p, s1) \<leftarrow> dir_open_root (save_map fuel) (printf (''Files in the root directory:'' @ [newline]) s);
          case p of
            None \<Rightarrow> Some (1, s1)
          | Some d \<Rightarrow> do { s2 \<leftarrow> ls_loop d s1;
                          s3 \<leftarrow> dir_close (save_map fuel) p s2;
                          Some (0, printf (''End of listing.'' @ [newline]) s3) } }"

text \<open>The file of a name: the one in the table, or the one opened now; the flag tells which.\<close>

definition find_open :: "nat \<Rightarrow> string \<Rightarrow> 'a dstate_scheme \<Rightarrow> ((nat \<times> bool) option \<times> 'a dstate_scheme) option" where
  "find_open fuel file_name s =
     (case get_file_by_fname file_name s of
        Some f \<Rightarrow> Some (Some (f, False), s)
      | None \<Rightarrow> do { (p, s1) \<leftarrow> filesys_open fuel file_name s;
                    case p of
                      None \<Rightarrow> Some (None, s1)
                    | Some f \<Rightarrow> Some (Some (f, True), add_to_file_table p file_name s1) })"

partial_function (option) cat_loop :: "nat \<Rightarrow> int \<Rightarrow> 'a dstate_scheme \<Rightarrow> 'a dstate_scheme option" where
  "cat_loop f file_sz s =
     do { pos \<leftarrow> file_tell f s;
          (bytes, s1) \<leftarrow> file_read f file_sz s;
          if bytes = [] then Some s1
          else cat_loop f file_sz (fold printf (hex_dump (nat pos) bytes True) s1) }"

declare cat_loop.simps [code]

definition fsutil_cat :: "nat \<Rightarrow> string \<Rightarrow> 'a dstate_scheme \<Rightarrow> (int \<times> 'a dstate_scheme) option" where
  "fsutil_cat fuel file_name s =
     do { (r, s1) \<leftarrow> find_open fuel file_name (printf (''Printing <'' @ file_name @ ''> to the console...'' @ [newline]) s);
          case r of
            None \<Rightarrow> Some (- 1, printf (''Error'' @ [newline]) s1)
          | Some (f, opened) \<Rightarrow>
              do { cur_offset \<leftarrow> file_tell f s1;
                   s2 \<leftarrow> file_seek f 0 s1;
                   file_sz \<leftarrow> file_length f s2;
                   s3 \<leftarrow> cat_loop f file_sz s2;
                   s4 \<leftarrow> file_seek f cur_offset s3;
                   s5 \<leftarrow> (if opened then do { (_, t) \<leftarrow> remove_from_file_table (save_map fuel) file_name s4; Some t } else Some s4);
                   Some (0, printf (''Done printing'' @ [newline]) s5) } }"

definition fsutil_rm :: "nat \<Rightarrow> string \<Rightarrow> 'a dstate_scheme \<Rightarrow> (int \<times> 'a dstate_scheme) option" where
  "fsutil_rm fuel file_name s =
     do { (_, s1) \<leftarrow> remove_from_file_table (save_map fuel) file_name s;
          (ok, s2) \<leftarrow> filesys_remove fuel file_name s1;
          Some (if ok then 1 else 0, s2) }"

definition fsutil_create :: "nat \<Rightarrow> byte list \<Rightarrow> string \<Rightarrow> int \<Rightarrow> 'a dstate_scheme \<Rightarrow> (int \<times> 'a dstate_scheme) option" where
  "fsutil_create fuel junk fname isz s =
     (if length fname = 0 \<or> length fname \<ge> 255
      then Some (0, printf (''Error with filename: '' @ nat_str (length fname) @ [newline]) s)
      else do { (ok, s1) \<leftarrow> filesys_create fuel junk fname (to_offset isz) False s; Some (if ok then 1 else 0, s1) })"

definition fsutil_write :: "nat \<Rightarrow> string \<Rightarrow> byte list \<Rightarrow> int \<Rightarrow> 'a dstate_scheme \<Rightarrow> (int \<times> 'a dstate_scheme) option" where
  "fsutil_write fuel file_name buf sz s =
     do { (r, s1) \<leftarrow> find_open fuel file_name s;
          case r of
            None \<Rightarrow> Some (- 1, s1)
          | Some (f, _) \<Rightarrow> do { (n, _, s2) \<leftarrow> file_write fuel f buf (to_offset sz) s1; Some (n, s2) } }"

text \<open>\<^verbatim>\<open>fsutil_read\<close> fills the start of the caller's buffer; the result is these bytes, or \<^term>\<open>None\<close> for \<^verbatim>\<open>-1\<close>.\<close>

definition fsutil_read :: "nat \<Rightarrow> string \<Rightarrow> int \<Rightarrow> 'a dstate_scheme \<Rightarrow> (byte list option \<times> 'a dstate_scheme) option" where
  "fsutil_read fuel file_name sz s =
     do { (r, s1) \<leftarrow> find_open fuel file_name s;
          case r of
            None \<Rightarrow> Some (None, s1)
          | Some (f, _) \<Rightarrow> do { (bytes, s2) \<leftarrow> file_read f (to_offset sz) s1; Some (Some bytes, s2) } }"

definition fsutil_size :: "nat \<Rightarrow> string \<Rightarrow> 'a dstate_scheme \<Rightarrow> (int \<times> 'a dstate_scheme) option" where
  "fsutil_size fuel file_name s =
     do { (r, s1) \<leftarrow> find_open fuel file_name s;
          case r of
            None \<Rightarrow> Some (- 1, s1)
          | Some (f, _) \<Rightarrow>
              do { cur_offset \<leftarrow> file_tell f s1; len \<leftarrow> file_length f s1; s2 \<leftarrow> file_seek f cur_offset s1; Some (len, s2) } }"

definition fsutil_seek :: "nat \<Rightarrow> string \<Rightarrow> int \<Rightarrow> 'a dstate_scheme \<Rightarrow> (int \<times> 'a dstate_scheme) option" where
  "fsutil_seek fuel file_name offset s =
     do { (r, s1) \<leftarrow> find_open fuel file_name s;
          case r of
            None \<Rightarrow> Some (- 1, s1)
          | Some (f, _) \<Rightarrow> do { s2 \<leftarrow> file_seek f offset s1; Some (0, s2) } }"

definition fsutil_close :: "nat \<Rightarrow> string \<Rightarrow> 'a dstate_scheme \<Rightarrow> 'a dstate_scheme option" where
  "fsutil_close fuel file_name s = do { (_, s1) \<leftarrow> remove_from_file_table (save_map fuel) file_name s; Some s1 }"

definition fsutil_freespace :: "'a dstate_scheme \<Rightarrow> (nat \<times> 'a dstate_scheme) option" where
  "fsutil_freespace s = num_free_sectors s"

definition fsutil_file_exists :: "nat \<Rightarrow> string \<Rightarrow> 'a dstate_scheme \<Rightarrow> (bool \<times> 'a dstate_scheme) option" where
  "fsutil_file_exists fuel file_name s =
     (case get_file_by_fname file_name s of
        Some f \<Rightarrow> Some (True, s)
      | None \<Rightarrow> do { (p, s1) \<leftarrow> filesys_open fuel file_name s; Some (p \<noteq> None, s1) })"

end
