(* ===== verification/File_Spec.thy ===== *)
theory File_Spec
  imports Fsutil Allocation
begin

text \<open>
  What the file commands promise about the bytes of a file: the contract of a file with a position (locale \<open>text_file\<close>), and that the commands by name fulfil
  it for a file of the file table. A write ends with a zero byte and leaves the position two bytes before its end, so the texts of successive writes, each
  with two zero bytes after it as the shell gives them, follow one another.
\<close>

section \<open>The contract\<close>

text \<open>Successive writes of texts, each with two zero bytes after it.\<close>

fun write_texts :: "(byte list \<Rightarrow> int \<Rightarrow> 's \<Rightarrow> (int \<times> 's) option) \<Rightarrow> byte list list \<Rightarrow> 's \<Rightarrow> 's option" where
  "write_texts wr [] s = Some s"
| "write_texts wr (t # ts) s = Option.bind (wr (t @ [0, 0]) (int (length t + 2)) s) (\<lambda>r. write_texts wr ts (snd r))"

lemma pwrite_overlap:
  assumes "off + length a + length b \<le> length img" "length z \<le> length b"
  shows "pwrite (pwrite img off (a @ z)) (off + length a) b = pwrite img off (a @ b)"
  using assms by (intro nth_equalityI) (auto simp: nth_pwrite nth_append)

locale text_file =
  fixes ok :: "'s \<Rightarrow> bool" and content :: "'s \<Rightarrow> byte list" and pos :: "'s \<Rightarrow> nat"
    and seek :: "int \<Rightarrow> 's \<Rightarrow> (int \<times> 's) option" and rd :: "int \<Rightarrow> 's \<Rightarrow> (byte list option \<times> 's) option"
    and wr :: "byte list \<Rightarrow> int \<Rightarrow> 's \<Rightarrow> (int \<times> 's) option"
  assumes seek_law: "ok s \<Longrightarrow> int32 (int p) \<Longrightarrow> \<exists>s'. seek (int p) s = Some (0, s') \<and> ok s' \<and> content s' = content s \<and> pos s' = p"
    and read_law: "ok s \<Longrightarrow> pos s + k \<le> length (content s) \<Longrightarrow>
      \<exists>s'. rd (int k) s = Some (Some (slice (pos s) k (content s)), s') \<and> ok s' \<and> content s' = content s \<and> pos s' = pos s + k"
    and write_law: "ok s \<Longrightarrow> 2 \<le> length buf \<Longrightarrow> pos s + length buf \<le> length (content s) \<Longrightarrow>
      \<exists>s'. wr buf (int (length buf)) s = Some (int (length buf), s') \<and> ok s' \<and>
           content s' = pwrite (content s) (pos s) (buf[length buf - 1 := 0]) \<and> pos s' = pos s + length buf - 2"
    and small_law: "ok s \<Longrightarrow> int32 (int (length (content s)))"
begin

lemma write_text:
  assumes "ok s" "pos s + length t + 2 \<le> length (content s)"
  shows "\<exists>s'. wr (t @ [0, 0]) (int (length t + 2)) s = Some (int (length t + 2), s') \<and> ok s' \<and>
           content s' = pwrite (content s) (pos s) (t @ [0, 0]) \<and> pos s' = pos s + length t"
proof -
  have "(t @ [0, 0])[length (t @ [0, 0]) - 1 := 0] = t @ [0 :: byte, 0]" by (simp add: list_update_append)
  then show ?thesis using write_law [OF assms(1), of "t @ [0, 0]"] assms(2) by simp
qed

lemma write_texts_content:
  assumes "ok s" "ts \<noteq> []" "pos s + length (concat ts) + 2 \<le> length (content s)"
  shows "\<exists>s'. write_texts wr ts s = Some s' \<and> ok s' \<and> content s' = pwrite (content s) (pos s) (concat ts @ [0, 0]) \<and>
           pos s' = pos s + length (concat ts)"
  using assms
proof (induction ts arbitrary: s)
  case (Cons t ts)
  from write_text [OF Cons.prems(1), of t] Cons.prems(3) obtain s1 where
    s1: "wr (t @ [0, 0]) (int (length t + 2)) s = Some (int (length t + 2), s1)" "ok s1"
      "content s1 = pwrite (content s) (pos s) (t @ [0, 0])" "pos s1 = pos s + length t" by auto
  show ?case
  proof (cases ts)
    case Nil
    with s1 show ?thesis by simp
  next
    case (Cons u us)
    have "pos s1 + length (concat ts) + 2 \<le> length (content s1)" using Cons.prems(3) s1(3,4) by simp
    with Cons.IH [OF s1(2)] Cons obtain s2 where s2: "write_texts wr ts s1 = Some s2" "ok s2"
      "content s2 = pwrite (content s1) (pos s1) (concat ts @ [0, 0])" "pos s2 = pos s1 + length (concat ts)" by auto
    have "pwrite (content s1) (pos s1) (concat ts @ [0, 0]) = pwrite (content s) (pos s) (t @ concat ts @ [0, 0])"
      using pwrite_overlap [of "pos s" t "concat ts @ [0, 0]" "content s" "[0, 0]"] Cons.prems(3) s1(3,4) by simp
    with s1 s2 show ?thesis by simp
  qed
qed simp

lemma texts_read_back:
  assumes "ok s" "ts \<noteq> []" "pos s + length (concat ts) + 2 \<le> length (content s)"
  shows "\<exists>s1 s2 s3. write_texts wr ts s = Some s1 \<and> seek (int (pos s)) s1 = Some (0, s2) \<and>
           rd (int (length (concat ts) + 2)) s2 = Some (Some (concat ts @ [0, 0]), s3) \<and>
           content s3 = pwrite (content s) (pos s) (concat ts @ [0, 0])"
proof -
  from write_texts_content [OF assms] obtain s1 where s1: "write_texts wr ts s = Some s1" "ok s1"
    "content s1 = pwrite (content s) (pos s) (concat ts @ [0, 0])" by blast
  have "int32 (int (pos s))" using small_law [OF assms(1)] assms(3) by (auto simp: int32_def)
  from seek_law [OF s1(2) this] obtain s2 where s2: "seek (int (pos s)) s1 = Some (0, s2)" "ok s2" "content s2 = content s1" "pos s2 = pos s"
    by blast
  have "pos s2 + (length (concat ts) + 2) \<le> length (content s2)" using assms(3) s1(3) s2(3,4) by simp
  from read_law [OF s2(2) this] obtain s3 where
    s3: "rd (int (length (concat ts) + 2)) s2 = Some (Some (slice (pos s2) (length (concat ts) + 2) (content s2)), s3)" "content s3 = content s2" by blast
  have "slice (pos s) (length (concat ts @ [0, 0])) (pwrite (content s) (pos s) (concat ts @ [0, 0])) = concat ts @ [0, 0]"
    using assms(3) by (intro slice_pwrite_same) simp
  with s1 s2 s3 show ?thesis by auto
qed

end

section \<open>The commands by name\<close>

definition file_pos :: "nat \<Rightarrow> 'a fstate_scheme \<Rightarrow> nat" where
  "file_pos f s = (case open_files s f of None \<Rightarrow> 0 | Some fl \<Rightarrow> nat (f_pos fl))"

text \<open>A file of the table that can be read and written: its inode is well-formed, and no sector of it is used twice.\<close>

definition file_inv :: "nat \<Rightarrow> string \<Rightarrow> nat \<Rightarrow> inode \<Rightarrow> 'a dstate_scheme \<Rightarrow> bool" where
  "file_inv n name f inode s \<longleftrightarrow> get_file_by_fname name s = Some f \<and>
     (case open_files s f of None \<Rightarrow> False | Some fl \<Rightarrow> 0 \<le> f_pos fl \<and> int32 (f_pos fl) \<and> inode_ok n (f_inode fl) inode s) \<and>
     disk_inj (cache_content s) (i_data inode) \<and> i_deny_write_cnt inode = 0"

lemma file_invD:
  assumes "file_inv n name f inode s"
  obtains fl where "open_files s f = Some fl" "get_file_by_fname name s = Some f" "0 \<le> f_pos fl" "int32 (f_pos fl)"
    "inode_ok n (f_inode fl) inode s" "disk_inj (cache_content s) (i_data inode)" "i_deny_write_cnt inode = 0" "f_pos fl = int (file_pos f s)"
proof (cases "open_files s f")
  case None
  with assms show ?thesis by (simp add: file_inv_def)
next
  case (Some fl)
  with assms show ?thesis by (intro that [OF Some]) (simp_all add: file_inv_def file_pos_def)
qed

lemma files_upd [simp]:
  fixes s :: "'a fstate_scheme"
  shows "dev_sector d (s\<lparr>open_files := b\<rparr>) = dev_sector d s" "dev_ok m d (s\<lparr>open_files := b\<rparr>) = dev_ok m d s"
    "cache_content (s\<lparr>open_files := b\<rparr>) = cache_content s" "cache_inv n (s\<lparr>open_files := b\<rparr>) = cache_inv n s"
proof -
  show *: "dev_sector d (s\<lparr>open_files := b\<rparr>) = dev_sector d s" for d by (simp add: dev_sector_def fun_eq_iff)
  show **: "dev_ok m d (s\<lparr>open_files := b\<rparr>) = dev_ok m d s" for m d by (simp add: dev_ok_def cong: option.case_cong)
  show "cache_content (s\<lparr>open_files := b\<rparr>) = cache_content s" "cache_inv n (s\<lparr>open_files := b\<rparr>) = cache_inv n s"
    by (simp_all add: cache_content_def cache_inv_def * **)
qed

lemma inode_files_upd [simp]:
  "inode_ok n i inode (s\<lparr>open_files := b\<rparr>) = inode_ok n i inode s" "inode_content inode (s\<lparr>open_files := b\<rparr>) = inode_content inode s"
  by (simp_all add: inode_ok_def inode_content_def)

lemma keeps_files:
  fixes s s' :: "'a dstate_scheme"
  assumes "cstate.more s' = cstate.more s"
  shows "open_files s' = open_files s" "get_file_by_fname name s' = get_file_by_fname name s"
  using assms by (cases s; cases s'; simp add: get_file_by_fname_def)+

lemma moved:
  assumes "open_files s f = Some fl" "get_file_by_fname name s = Some f" "inode_ok n (f_inode fl) inode s"
    "disk_inj (cache_content s) (i_data inode)" "i_deny_write_cnt inode = 0" "0 \<le> p" "int32 p"
  shows "\<exists>s'. set_pos f p s = Some s' \<and> file_inv n name f inode s' \<and> inode_content inode s' = inode_content inode s \<and> file_pos f s' = nat p"
  using assms by (auto simp: set_pos_def file_inv_def file_pos_def get_file_by_fname_def)

lemma seek_named:
  assumes "file_inv n name f inode s" "int32 (int p)"
  shows "\<exists>s'. fsutil_seek fuel name (int p) s = Some (0, s') \<and> file_inv n name f inode s' \<and>
           inode_content inode s' = inode_content inode s \<and> file_pos f s' = p"
proof -
  from file_invD [OF assms(1)] obtain fl where fl: "open_files s f = Some fl" "get_file_by_fname name s = Some f"
    "inode_ok n (f_inode fl) inode s" "disk_inj (cache_content s) (i_data inode)" "i_deny_write_cnt inode = 0" by metis
  from moved [OF this, of "int p"] assms(2) show ?thesis
    using fl(2) by (auto simp: fsutil_seek_def find_open_def file_seek_def assertion_def c_assert_def)
qed

lemma content_small: "inode_ok n i inode s \<Longrightarrow> int (length (inode_content inode s)) = inode_length inode \<and> inode_length inode + 512 < 2 ^ 31"
  by (auto simp: inode_ok_def disk_ok_def inode_content_def inode_length_def)

lemma to_offset_small: "0 \<le> k \<Longrightarrow> k < 2 ^ 31 \<Longrightarrow> to_offset k = k"
  by (simp add: to_offset_def signed_take_bit_int_eq_self)

lemma read_named:
  assumes "file_inv n name f inode s" "file_pos f s + k \<le> length (inode_content inode s)"
  shows "\<exists>s'. fsutil_read fuel name (int k) s = Some (Some (slice (file_pos f s) k (inode_content inode s)), s') \<and>
           file_inv n name f inode s' \<and> inode_content inode s' = inode_content inode s \<and> file_pos f s' = file_pos f s + k"
proof -
  from file_invD [OF assms(1)] obtain fl where fl: "open_files s f = Some fl" "get_file_by_fname name s = Some f"
    "inode_ok n (f_inode fl) inode s" "disk_inj (cache_content s) (i_data inode)" "i_deny_write_cnt inode = 0"
    and p: "0 \<le> f_pos fl" "int32 (f_pos fl)" "f_pos fl = int (file_pos f s)" by metis
  note small = content_small [OF fl(3)]
  from inode_read_at_reads [OF fl(3) p(1,2), of "int k"] obtain t where
    t: "inode_read_at (f_inode fl) (int k) (f_pos fl) s = Some (slice (file_pos f s) k (inode_content inode s), t)" "cache_keeps n s t"
    using p(3) by auto
  have more: "cstate.more t = cstate.more s" using t(2) by (simp add: cache_keeps_def)
  note keep = keeps_files [OF more] inode_ok_keeps [OF fl(3) t(2)] keeps_disk [OF fl(3) t(2)]
  have len: "length (slice (file_pos f s) k (inode_content inode s)) = k" using assms(2) by (simp add: slice_def)
  have "int32 (f_pos fl + int k)" using assms(2) small p(3) by (auto simp: int32_def)
  moreover from moved [of t f fl name n inode "f_pos fl + int k"] fl keep p(1) this obtain s' where
    "set_pos f (f_pos fl + int k) t = Some s'" "file_inv n name f inode s'" "inode_content inode s' = inode_content inode s"
    "file_pos f s' = nat (f_pos fl + int k)" by auto
  moreover have "int k < 2 ^ 31" using assms(2) small by linarith
  ultimately show ?thesis
    using fl(1,2) t(1) len p(3) by (auto simp: fsutil_read_def find_open_def file_read_def to_offset_small chk32_def)
qed

lemma write_named:
  assumes "file_inv n name f inode s" "2 \<le> length buf" "file_pos f s + length buf \<le> length (inode_content inode s)"
  shows "\<exists>s'. fsutil_write (Suc fuel) name buf (int (length buf)) s = Some (int (length buf), s') \<and> file_inv n name f inode s' \<and>
           inode_content inode s' = pwrite (inode_content inode s) (file_pos f s) (buf[length buf - 1 := 0]) \<and>
           file_pos f s' = file_pos f s + length buf - 2"
proof -
  from file_invD [OF assms(1)] obtain fl where fl: "open_files s f = Some fl" "get_file_by_fname name s = Some f"
    "inode_ok n (f_inode fl) inode s" "disk_inj (cache_content s) (i_data inode)" "i_deny_write_cnt inode = 0"
    and p: "0 \<le> f_pos fl" "int32 (f_pos fl)" "f_pos fl = int (file_pos f s)" by metis
  note small = content_small [OF fl(3)]
  let ?buf = "buf[nat (int (length buf) - 1) := 0]"
  have idx: "nat (int (length buf) - 1) = length buf - 1" by simp
  have "f_pos fl + int (length buf) \<le> inode_length inode" using assms(3) small p(3) by linarith
  from inode_write_inside [OF fl(3,4) p(1) _ this, of ?buf "save_with (\<lambda>i buf sz offset t. inode_write_at fuel i buf sz offset t)"] fl(5) assms(2) obtain t where
    t: "inode_write_at (Suc fuel) (f_inode fl) ?buf (int (length buf)) (f_pos fl) s = Some (int (length buf), t)" "data_write n (f_inode fl) inode s t"
      "inode_content inode t = pwrite (inode_content inode s) (file_pos f s) ?buf"
    using p(3) by force
  have more: "cstate.more t = cstate.more s" and ok: "inode_ok n (f_inode fl) inode t" "disk_inj (cache_content t) (i_data inode)"
    using t(2) by (simp_all add: data_write_def)
  have i32: "int32 (f_pos fl + (int (length buf) - 2))" using assms(2,3) small p(3) by (auto simp: int32_def)
  from moved [of t f fl name n inode "f_pos fl + (int (length buf) - 2)"] keeps_files [OF more] fl ok p(1) i32 assms(2) obtain s' where
    "set_pos f (f_pos fl + (int (length buf) - 2)) t = Some s'" "file_inv n name f inode s'" "inode_content inode s' = inode_content inode t"
    "file_pos f s' = nat (f_pos fl + (int (length buf) - 2))" by auto
  moreover have "int (length buf) < 2 ^ 31" using assms(3) small by linarith
  ultimately show ?thesis
    using fl(1,2) t(1,3) p(3) assms(2) i32 idx by (auto simp: fsutil_write_def find_open_def file_write_def to_offset_small chk32_def)
qed

interpretation tf: text_file "file_inv n name f inode" "inode_content inode" "file_pos f" "fsutil_seek fuel name" "fsutil_read fuel name"
    "fsutil_write (Suc fuel) name" for n name f inode fuel
proof
  fix s :: "'a dstate_scheme" and p k :: nat and buf :: "byte list"
  assume ok: "file_inv n name f inode s"
  show "\<exists>s'. fsutil_seek fuel name (int p) s = Some (0, s') \<and> file_inv n name f inode s' \<and>
          inode_content inode s' = inode_content inode s \<and> file_pos f s' = p" if "int32 (int p)"
    using seek_named [OF ok that] .
  show "\<exists>s'. fsutil_read fuel name (int k) s = Some (Some (slice (file_pos f s) k (inode_content inode s)), s') \<and>
          file_inv n name f inode s' \<and> inode_content inode s' = inode_content inode s \<and> file_pos f s' = file_pos f s + k"
    if "file_pos f s + k \<le> length (inode_content inode s)"
    using read_named [OF ok that] .
  show "\<exists>s'. fsutil_write (Suc fuel) name buf (int (length buf)) s = Some (int (length buf), s') \<and> file_inv n name f inode s' \<and>
          inode_content inode s' = pwrite (inode_content inode s) (file_pos f s) (buf[length buf - 1 := 0]) \<and>
          file_pos f s' = file_pos f s + length buf - 2"
    if "2 \<le> length buf" "file_pos f s + length buf \<le> length (inode_content inode s)"
    using write_named [OF ok that] .
  from ok obtain fl :: open_file where "inode_ok n (f_inode fl) inode s" by (rule file_invD) blast
  from content_small [OF this] show "int32 (int (length (inode_content inode s)))" by (auto simp: int32_def)
qed

text \<open>
  C21. The commands by name on a file of the table: texts written one after the other, each with two zero bytes after it as the shell writes them, are read
  back as one text from where the first was written, and no other byte of the file has changed.
\<close>

theorem fsutil_texts_read_back:
  assumes "file_inv n name f inode s" "ts \<noteq> []" "file_pos f s + length (concat ts) + 2 \<le> length (inode_content inode s)"
  shows "\<exists>s1 s2 s3. write_texts (fsutil_write (Suc fuel) name) ts s = Some s1 \<and>
           fsutil_seek fuel name (int (file_pos f s)) s1 = Some (0, s2) \<and>
           fsutil_read fuel name (int (length (concat ts) + 2)) s2 = Some (Some (concat ts @ [0, 0]), s3) \<and>
           inode_content inode s3 = pwrite (inode_content inode s) (file_pos f s) (concat ts @ [0, 0])"
  by (rule tf.texts_read_back [OF assms])

definition file8 :: dstate where
  "file8 = tstate.extend (fstate.extend (fs8\<lparr>open_files := [1 \<mapsto> \<lparr>f_inode = 1, f_pos = 0, f_deny_write = False\<rparr>]\<rparr>) \<lparr>file_table = [(''f'', Some 1)]\<rparr>)
     \<lparr>dirs = Map.empty, next_dir = 0, cwd = None\<rparr>"

lemma file8_sel:
  "inodes file8 = [0 \<mapsto> direct_inode 0 2 8, 1 \<mapsto> direct_inode 1 3 100]" "malloc_ok file8 = (\<lambda>_. True)"
  "open_files file8 = [1 \<mapsto> \<lparr>f_inode = 1, f_pos = 0, f_deny_write = False\<rparr>]" "file_table file8 = [(''f'', Some 1)]"
  "image file8 = replicate 4096 0" "cache file8 = replicate 64 entry0" "fs_device file8 = 0" "clock file8 = 0"
  "blocks file8 = [\<lparr>block_nm = ''hda'', block_fname = ''d'', block_sz = 8, block_drv = ide_operations, read_cnt = 0, write_cnt = 0\<rparr>]"
  by (simp_all add: file8_def fs8_def disk8_def tstate.defs fstate.defs cstate.defs dev.defs)

lemma file8_inv: "file_inv 8 ''f'' 1 (direct_inode 1 3 100) file8"
proof -
  have "dev_ok 8 0 file8" by (simp add: dev_ok_def dev_base.simps file8_sel)
  moreover have "cache_ok 8 dsk (replicate 64 entry0)" for dsk
    by (auto simp: cache_ok_def cached_def BUFFER_CACHE_SIZE_def entry0_def)
  ultimately have "cache_inv 8 file8" by (simp add: cache_inv_def BUFFER_CACHE_SIZE_def file8_sel)
  then show ?thesis
    using direct_inode_ok(4,5) [of 100] by (simp add: file_inv_def inode_ok_def file8_sel get_file_by_fname_def int32_def)
qed

theorem fsutil_texts_read_back_witness:
  "\<exists>s1 s2 s3. write_texts (fsutil_write 1 ''f'') [[104, 105], [33]] file8 = Some s1 \<and> fsutil_seek 0 ''f'' 0 s1 = Some (0, s2) \<and>
     fsutil_read 0 ''f'' 5 s2 = Some (Some [104, 105, 33, 0, 0], s3)"
proof -
  have "length (inode_content (direct_inode 1 3 100) file8) = 100" by (simp add: inode_content_def)
  moreover have "file_pos 1 file8 = 0" by (simp add: file_pos_def file8_sel)
  ultimately show ?thesis using fsutil_texts_read_back [OF file8_inv, of "[[104, 105], [33]]" 0] by auto
qed

end
