(* ===== verification/File_Life.thy ===== *)
theory File_Life
  imports Filesys_Spec File_Spec
begin

text \<open>
  The life of a file through the commands by name: created, written, read back. The first command on the file opens it and
  enters it in the file table, later ones find it there.
\<close>

section \<open>The first command on a file opens it\<close>

lemma table_upd [simp]:
  fixes s :: "'a tstate_scheme"
  shows "dev_sector d (s\<lparr>file_table := b\<rparr>) = dev_sector d s" "dev_ok m d (s\<lparr>file_table := b\<rparr>) = dev_ok m d s"
    "cache_content (s\<lparr>file_table := b\<rparr>) = cache_content s" "cache_inv n (s\<lparr>file_table := b\<rparr>) = cache_inv n s"
proof -
  show *: "dev_sector d (s\<lparr>file_table := b\<rparr>) = dev_sector d s" for d by (simp add: dev_sector_def fun_eq_iff)
  show **: "dev_ok m d (s\<lparr>file_table := b\<rparr>) = dev_ok m d s" for m d by (simp add: dev_ok_def cong: option.case_cong)
  show "cache_content (s\<lparr>file_table := b\<rparr>) = cache_content s" "cache_inv n (s\<lparr>file_table := b\<rparr>) = cache_inv n s"
    by (simp_all add: cache_content_def cache_inv_def * **)
qed

lemma first_open:
  fixes s t :: "'a dstate_scheme"
  assumes fresh: "name \<notin> fst ` set (file_table t)" "get_file_by_fname name s = None"
    and op: "filesys_open fuel name s = Some (Some f, t)" "opened n f q bs t"
  shows "\<exists>inode u b. find_open fuel name s = Some (Some (f, b), u) \<and> find_open fuel name u = Some (Some (f, False), u) \<and>
     file_inv n name f inode u \<and> inode_content inode u = bs \<and> file_pos f u = 0"
proof -
  from op(2) obtain i inode where o: "open_files t f = Some \<lparr>f_inode = i, f_pos = 0, f_deny_write = False\<rparr>" "inode_ok n i inode t"
    "disk_inj (cache_content t) (i_data inode)" "i_deny_write_cnt inode = 0" "inode_content inode t = bs" by (auto simp: opened_def)
  have none: "map_of (file_table t) name = None" using fresh(1) by (simp add: map_of_eq_None_iff)
  let ?u = "t\<lparr>file_table := file_table t @ [(name, Some f)]\<rparr>"
  have g: "get_file_by_fname name ?u = Some f" using none by (simp add: get_file_by_fname_def map_of_append map_add_def)
  have "find_open fuel name s = Some (Some (f, True), ?u)"
    using fresh(2) op(1) none by (simp add: find_open_def add_to_file_table_def get_file_by_fname_def)
  moreover have "find_open fuel name ?u = Some (Some (f, False), ?u)" using g by (simp add: find_open_def)
  moreover have "file_inv n name f inode ?u" "inode_content inode ?u = bs" "file_pos f ?u = 0"
    using o g by (simp_all add: file_inv_def file_pos_def inode_ok_def inode_content_def int32_def)
  ultimately show ?thesis by blast
qed

lemma write_from_open:
  assumes "find_open (Suc fuel) name s = Some (Some (f, b), u)" "find_open (Suc fuel) name u = Some (Some (f, b'), u)" "ts \<noteq> []"
  shows "write_texts (fsutil_write (Suc fuel) name) ts s = write_texts (fsutil_write (Suc fuel) name) ts u"
  using assms by (cases ts) (simp_all add: fsutil_write_def)

section \<open>Create, write, read\<close>



end
