(* ===== verification/Remove_Spec.thy ===== *)
theory Remove_Spec
  imports Filesys_Spec
begin

text \<open>
  Removing a file (\<^verbatim>\<open>dir_remove\<close>, \<^verbatim>\<open>inode_close\<close> of a removed inode, \<^verbatim>\<open>free_map_release\<close>): the entry goes, and the sectors
  of the file are free again.
\<close>

section \<open>Releasing sectors\<close>

text \<open>\<open>give n K s s'\<close>: the sectors \<open>K\<close> have become free, and nothing else but the free map file has changed on the disk.\<close>

definition give :: "nat \<Rightarrow> block_sector_t set \<Rightarrow> 'a fstate_scheme \<Rightarrow> 'a fstate_scheme \<Rightarrow> bool" where
  "give n K s s' \<longleftrightarrow> fm_inv n s' \<and> same_tables s s' \<and> bit_cnt (free_map s') = bit_cnt (free_map s) \<and>
     map_area s' = map_area s \<and> free_sectors s' = free_sectors s \<union> K \<and>
     (\<forall>q. valid_sector n q \<longrightarrow> q \<notin> map_area s \<longrightarrow> cache_content s' q = cache_content s q)"

lemma give_trans: "give n K s t \<Longrightarrow> give n L t u \<Longrightarrow> give n (K \<union> L) s u"
  by (auto simp: give_def intro: same_tables_trans)

lemma give_refl: "fm_inv n s \<Longrightarrow> give n {} s s"
  by (simp add: give_def same_tables_refl)

lemma give_used: "give n K s s' \<Longrightarrow> used s' q \<longleftrightarrow> used s q \<and> q \<notin> K"
  unfolding give_def used_def free_sectors_def by auto

lemma cleared_one:
  assumes "bm_abs b' = fill k 1 False (bm_abs b)" "k < bit_cnt b"
  shows "bit_cnt b' = bit_cnt b" "\<And>j. j < bit_cnt b \<Longrightarrow> bm_bit b' j \<longleftrightarrow> j \<noteq> k \<and> bm_bit b j"
proof -
  show n: "bit_cnt b' = bit_cnt b" using arg_cong [OF assms(1), of length] by simp
  fix j assume j: "j < bit_cnt b"
  with arg_cong [OF assms(1), of "\<lambda>xs. xs ! j"] n show "bm_bit b' j \<longleftrightarrow> j \<noteq> k \<and> bm_bit b j" by auto
qed

context map_saver
begin

lemma release_one:
  assumes inv: "fm_inv n s" and fmf: "free_map_file s \<noteq> None" and q: "used s q" "q \<notin> map_area s" "q \<noteq> 0"
  shows "\<exists>s'. free_map_release save q 1 s = Some s' \<and> give n {q} s s'"
proof -
  let ?b = "free_map s" and ?k = "unat q"
  have wf: "free_map_wf ?b" using inv by (simp add: fm_inv_def)
  have k: "?k < bit_cnt ?b" "bm_bit ?b ?k" using q(1) by (simp_all add: used_def)
  have a: "bitmap_all ?b ?k 1 (console s) = Some (True, console s)"
    using bitmap_contains_abs [of ?b ?k 1 False "console s"] wf k by (simp add: bitmap_all_def free_map_wf_def slice_Suc)
  from fm.set_multiple_law [OF wf, of ?k 1 False "console s"] k obtain b' where
    b: "bitmap_set_multiple ?b ?k 1 False (console s) = Some (b', console s)" "free_map_wf b'" "bm_abs b' = fill ?k 1 False (bm_abs ?b)" by auto
  note b' = cleared_one [OF b(3) k(1)]
  let ?s1 = "s\<lparr>free_map := b', console := console s\<rparr>"
  have u: "used (s\<lparr>free_map := b'\<rparr>) r \<longleftrightarrow> used s r \<and> r \<noteq> q" for r using b' by (auto simp: used_def word_unat_eq_iff)
  have inv1: "fm_inv n ?s1" using inv b(2) b'(1) q by (auto simp: fm_inv_def u map_file_ok_def)
  have f1: "free_sectors ?s1 = free_sectors s \<union> {q}" using b' k by (auto simp: free_sectors_def word_unat_eq_iff)
  from saves [OF inv1] fmf obtain s' where
    s': "save ?s1 = Some (True, s')" "fm_inv n s'" "same_tables ?s1 s'" "free_map s' = b'" "map_area s' = map_area s"
      "\<forall>r. valid_sector n r \<longrightarrow> r \<notin> map_area s \<longrightarrow> cache_content s' r = cache_content s r" by auto
  have "free_sectors s' = free_sectors ?s1" using s'(4) by (simp add: free_sectors_def)
  then have "give n {q} s s'" using s' f1 b'(1) by (simp add: give_def same_tables_def)
  moreover have "free_map_release save q 1 s = Some s'"
    using a b(1) s'(1) by (simp add: free_map_release_def assertion_def c_assert_def)
  ultimately show ?thesis by blast
qed

lemma release_direct:
  "fm_inv n s \<Longrightarrow> free_map_file s \<noteq> None \<Longrightarrow> k \<le> length blks \<Longrightarrow> distinct (take k blks) \<Longrightarrow>
   \<forall>q\<in>set (take k blks). used s q \<and> q \<notin> map_area s \<and> q \<noteq> 0 \<Longrightarrow>
   \<exists>s'. deallocate_loop (\<lambda>_ e t. free_map_release save e 1 t) 1 k blks k s = Some (0, s') \<and> give n (set (take k blks)) s s'"
proof (induction k arbitrary: blks s)
  case 0
  then show ?case using give_refl [of n s] by simp
next
  case (Suc k)
  then obtain b bs where bs: "blks = b # bs" by (cases blks) auto
  from release_one [OF Suc.prems(1,2), of b] Suc.prems(5) bs obtain t where
    t: "free_map_release save b 1 s = Some t" "give n {b} s t" by auto
  have "fm_inv n t" "free_map_file t \<noteq> None" "map_area t = map_area s"
    using t(2) Suc.prems(2) by (simp_all add: give_def same_tables_def)
  moreover from this have "\<forall>q\<in>set (take k bs). used t q \<and> q \<notin> map_area t \<and> q \<noteq> 0"
    using Suc.prems(4,5) bs give_used [OF t(2)] by auto
  ultimately obtain u where "deallocate_loop (\<lambda>_ e t. free_map_release save e 1 t) 1 k bs k t = Some (0, u)" "give n (set (take k bs)) t u"
    using Suc.IH [of t bs] Suc.prems(3,4) bs by auto
  then show ?case using t(1) give_trans [OF t(2)] bs by auto
qed

end

section \<open>Closing a removed inode\<close>

text \<open>What the free map depends on.\<close>

lemma fm_inv_cong:
  fixes s t :: "'a fstate_scheme"
  assumes "cache_content t = cache_content s" "cache_inv n t = cache_inv n s" "malloc_ok t = malloc_ok s" "free_map t = free_map s"
    "free_map_file t = free_map_file s" "map_inode t = map_inode s"
  shows "fm_inv n t = fm_inv n s" "map_area t = map_area s"
proof -
  show ma: "map_area t = map_area s" using assms by (simp add: map_area_def cong: option.case_cong)
  show "fm_inv n t = fm_inv n s" using assms by (simp add: fm_inv_def map_file_ok_def used_def ma)
qed

lemma inodes_upd [simp]:
  fixes s :: "'a fstate_scheme"
  shows "cache_content (s\<lparr>inodes := is, open_inodes := ks\<rparr>) = cache_content s" "cache_inv n (s\<lparr>inodes := is, open_inodes := ks\<rparr>) = cache_inv n s"
    "cache_content (s\<lparr>inodes := is\<rparr>) = cache_content s" "cache_inv n (s\<lparr>inodes := is\<rparr>) = cache_inv n s"
  by (simp_all add: cache_content_def cache_inv_def dev_ok_def dev_sector_def [abs_def] cong: option.case_cong)

lemma map_inode_inodes:
  fixes s :: "'a fstate_scheme"
  assumes "\<And>f fl. free_map_file s = Some f \<Longrightarrow> open_files s f = Some fl \<Longrightarrow> f_inode fl \<noteq> i"
  shows "map_inode (s\<lparr>inodes := (inodes s)(i := x), open_inodes := ks\<rparr>) = map_inode s" "map_inode (s\<lparr>inodes := (inodes s)(i := x)\<rparr>) = map_inode s"
  using assms by (auto simp: map_inode_def split: option.splits bind_splits)

text \<open>The sectors of a file without index blocks.\<close>

lemma direct_sectors:
  assumes "disk_ok n C d" "disk_inj C d" "d_length d \<le> 123 * 512"
  shows "all_sectors C d = set (take (sectors d) (direct_blocks d))" "distinct (take (sectors d) (direct_blocks d))"
    "sectors d \<le> 123" "length (direct_blocks d) = 123" "bytes_to_sectors (d_length d) = Some (sectors d)"
proof -
  show len: "length (direct_blocks d) = 123" using assms(1) by (simp add: disk_ok_def mapped_def)
  show k: "sectors d \<le> 123"
    using assms div_le_mono [of "nat (d_length d) + 511" "123 * 512 + 511" 512] by (simp add: sectors_def disk_ok_def)
  show "bytes_to_sectors (d_length d) = Some (sectors d)" using assms(1) by (intro bytes_to_sectors_eq) (simp_all add: disk_ok_def)
  have at: "sector_at C d i = direct_blocks d ! i" if "i < sectors d" for i using that k by (simp add: sector_at_def)
  show "all_sectors C d = set (take (sectors d) (direct_blocks d))"
    using k len at nth_image [of "sectors d" "direct_blocks d"]
    by (simp add: all_sectors_def data_sectors_def map_sectors_def atLeast0LessThan cong: image_cong_simp)
  show "distinct (take (sectors d) (direct_blocks d))"
    using assms(2) at k len by (auto simp: distinct_conv_nth disk_inj_def inj_on_def)
qed

lemma close_removed:
  fixes s :: "'a fstate_scheme"
  assumes inv: "fm_inv n s" and fmf: "free_map_file s \<noteq> None"
    and apart: "\<And>f fl. free_map_file s = Some f \<Longrightarrow> open_files s f = Some fl \<Longrightarrow> f_inode fl \<noteq> i"
    and ino: "inodes s i = Some ino" "i_open_cnt ino = 1" "i_removed ino" "d_length (i_data ino) \<le> 123 * 512"
    and disk: "disk_ok n (cache_content s) (i_data ino)" "disk_inj (cache_content s) (i_data ino)"
    and K: "K = insert (i_sector ino) (all_sectors (cache_content s) (i_data ino))" "i_sector ino \<notin> all_sectors (cache_content s) (i_data ino)"
      "\<forall>q\<in>K. used s q \<and> q \<notin> map_area s \<and> q \<noteq> 0"
  shows "\<exists>u t. inode_close (save_map (Suc fuel)) (Some i) s = Some (u\<lparr>inodes := (inodes s)(i := None)\<rparr>) \<and> give n K t u \<and>
     t = s\<lparr>inodes := (inodes s)(i \<mapsto> ino\<lparr>i_open_cnt := 0\<rparr>), open_inodes := remove1 i (open_inodes s)\<rparr> \<and>
     fm_inv n t \<and> map_area t = map_area s"
proof -
  let ?ino = "ino\<lparr>i_open_cnt := 0\<rparr>" and ?d = "i_data ino"
  let ?t = "s\<lparr>inodes := (inodes s)(i \<mapsto> ino\<lparr>i_open_cnt := 0\<rparr>), open_inodes := remove1 i (open_inodes s)\<rparr>"
  have mi: "map_inode ?t = map_inode s" by (rule map_inode_inodes [OF apart])
  have t: "fm_inv n ?t" "map_area ?t = map_area s" using fm_inv_cong [of ?t s] inv mi by simp_all
  note ds = direct_sectors [OF disk ino(4)]
  let ?qs = "take (sectors ?d) (direct_blocks ?d)"
  have ut: "used ?t q = used s q" for q by (simp add: used_def)
  from ms.release_one [OF t(1), of "i_sector ino" fuel] fmf K obtain v where
    v: "free_map_release (save_map (Suc fuel)) (i_sector ino) 1 ?t = Some v" "give n {i_sector ino} ?t v" by (auto simp: t(2) ut)
  then have gv: "fm_inv n v" "free_map_file v \<noteq> None" "map_area v = map_area s" using fmf t(2) by (simp_all add: give_def same_tables_def)
  have "\<forall>q\<in>set ?qs. used v q \<and> q \<notin> map_area v \<and> q \<noteq> 0"
    using K ds(1) give_used [OF v(2)] gv(3) ut by auto
  from ms.release_direct [OF gv(1,2) _ ds(2) this, of fuel] ds(3,4) obtain u where
    u: "deallocate_loop (\<lambda>_ e t. free_map_release (save_map (Suc fuel)) e 1 t) 1 (sectors ?d) (direct_blocks ?d) (sectors ?d) v = Some (0, u)"
      "give n (set ?qs) v u" by auto
  have "give n K ?t u" using give_trans [OF v(2) u(2)] K(1) ds(1) by simp
  moreover have "inodes u = (inodes s)(i \<mapsto> ?ino)" using \<open>give n K ?t u\<close> by (simp add: give_def same_tables_def)
  moreover have "inode_deallocate (save_map (Suc fuel)) ?ino v = Some (True, u)"
    using ds(3,5) u(1) disk(1) by (simp add: inode_deallocate_def disk_ok_def DIRECT_BLOCKS_COUNT_def assertion_def c_assert_def)
  ultimately show ?thesis using ino v(1) t
    by (intro exI [of _ u] exI [of _ ?t]) (simp add: inode_close_def set_inode_def int32_def chk32_def)
qed

section \<open>Clearing an entry\<close>

lemma entry_name_length: "k < entry_cnt bs \<Longrightarrow> length (e_name (entry_at bs k)) = 31"
  using slice_entry [of k bs] by (simp add: entry_at_def decode_entry_def slice_def)

lemma dir_map_clear:
  assumes a: "dir_answer name bs = Some j" and dist: "names_distinct bs"
  defines "bs' \<equiv> pwrite bs (36 * j) (encode_entry ((entry_at bs j)\<lparr>e_in_use := False\<rparr>))"
  shows "dir_map bs' = (dir_map bs)(name := None)" "names_distinct bs'" "entry_cnt bs' = entry_cnt bs" "entry_at bs' 0 = entry_at bs 0"
proof -
  have j: "1 \<le> j" "j < entry_cnt bs" "entry_matches name bs j"
    using first_from_SomeD [OF a [unfolded dir_answer_def]] by auto
  let ?e = "(entry_at bs j)\<lparr>e_in_use := False\<rparr>"
  have len: "length (e_name ?e) = 31" using entry_name_length [OF j(2)] by simp
  note at = entry_at_pwrite [OF len j(2), folded bs'_def]
  show cnt: "entry_cnt bs' = entry_cnt bs" unfolding bs'_def by (rule entry_cnt_pwrite [OF len j(2)])
  show "entry_at bs' 0 = entry_at bs 0" using at [of 0] j by simp
  have m: "entry_matches nm bs' k \<longleftrightarrow> k \<noteq> j \<and> entry_matches nm bs k" if "k < entry_cnt bs" for nm k
    using that by (auto simp: entry_matches_def at)
  show "names_distinct bs'" using dist m by (simp add: names_distinct_def cnt) (metis One_nat_def)
  have "dir_map bs' nm = ((dir_map bs)(name := None)) nm" for nm
  proof (cases "nm = name")
    case True
    have "\<not> entry_matches name bs' k" if "1 \<le> k" "k < entry_cnt bs" for k
      using dist j that m unfolding names_distinct_def by blast
    then show ?thesis using True by (simp add: dir_map_None cnt)
  next
    case False
    have "\<not> entry_matches nm bs j" using j(3) False by (auto simp: entry_matches_def)
    then have "first_from (entry_matches nm bs') 1 (entry_cnt bs - 1) = first_from (entry_matches nm bs) 1 (entry_cnt bs - 1)"
      by (intro first_from_cong) (use m in auto)
    then have d: "dir_answer nm bs' = dir_answer nm bs" by (simp add: dir_answer_def cnt)
    have "k \<noteq> j \<and> k < entry_cnt bs" if "dir_answer nm bs = Some k" for k
      using first_from_SomeD [OF that [unfolded dir_answer_def]] \<open>\<not> entry_matches nm bs j\<close> by auto
    with d False show ?thesis by (auto simp: dir_map_def at intro!: option.map_cong)
  qed
  then show "dir_map bs' = (dir_map bs)(name := None)" by (rule ext)
qed

lemma clear_entry:
  fixes s :: "'a dstate_scheme"
  assumes inv: "dir_inv n d inode s" and dr: "dirs s d = Some dr" and a: "dir_answer name (inode_content inode s) = Some j"
  shows "\<exists>s'. inode_write_at (Suc fuel) (dir_inode dr) (encode_entry ((entry_at (inode_content inode s) j)\<lparr>e_in_use := False\<rparr>)) 36 (36 * int j) s
       = Some (36, s') \<and> wrote n inode s s' \<and> dir_inv n d inode s' \<and> names inode s' = (names inode s)(name := None)"
proof -
  let ?bs = "inode_content inode s" and ?e = "(entry_at (inode_content inode s) j)\<lparr>e_in_use := False\<rparr>"
  have ok: "inode_ok n (dir_inode dr) inode s" "disk_inj (cache_content s) (i_data inode)" "i_deny_write_cnt inode = 0"
    and d: "1 \<le> entry_cnt ?bs" "e_in_use (entry_at ?bs 0)" "names_distinct ?bs"
    using inv dr by (simp_all add: dir_inv_def dir_ok_def)
  have j: "j < entry_cnt ?bs" using first_from_SomeD [OF a [unfolded dir_answer_def]] d(1) by auto
  then have fits: "36 * int j + 36 \<le> inode_length inode"
    by (auto simp: entry_cnt_iff inode_content_def inode_length_def)
  have "length (e_name ?e) = 31" using entry_name_length [OF j] by simp
  note len = decode_encode_entry(2) [OF this]
  from inode_write_inside [OF ok(1,2) _ _ fits _ ok(3), where buf = "encode_entry ?e" and
      save = "save_with (\<lambda>i buf sz offset t. inode_write_at fuel i buf sz offset t)"] len
  obtain s' where s': "inode_write_at (Suc fuel) (dir_inode dr) (encode_entry ?e) 36 (36 * int j) s = Some (36, s')"
    "data_write n (dir_inode dr) inode s s'" "inode_content inode s' = pwrite ?bs (36 * j) (encode_entry ?e)"
    by (auto simp: nat_mult_distrib)
  note cl = dir_map_clear [OF a d(3)]
  have more: "cstate.more s' = cstate.more s" using s'(2) by (simp add: data_write_def)
  have "dir_ok n d inode s'" using dr s'(2) ok(3) keeps_dirs [OF more] by (simp add: dir_ok_def data_write_def)
  then have "dir_inv n d inode s'" using cl d by (simp add: dir_inv_def s'(3))
  moreover have "wrote n inode s s'" using s'(2) by (simp add: wrote_def data_write_def)
  ultimately show ?thesis using s' cl(1) by auto
qed

section \<open>Removing a file\<close>

lemma map_slot_apart:
  assumes "fm_inv n s" "inodes s i = None" "free_map_file s = Some f" "open_files s f = Some fl"
  shows "f_inode fl \<noteq> i"
  using assms by (auto simp: fm_inv_def map_file_ok_def map_inode_def)

lemma find_and_open:
  fixes s :: "'a dstate_scheme"
  assumes inv: "fs_inv n d inode s" and name: "names inode s name = Some q" and q: "used s q"
    and closed: "\<forall>i\<in>set (open_inodes s). \<forall>ino. inodes s i = Some ino \<longrightarrow> i_sector ino \<noteq> q"
    and mem: "malloc_ok s 544" "inodes s (next_inode s) = None" "free_map_file s \<noteq> None"
  shows "\<exists>j s1 s2. dir_find d name s = Some (Some (entry_at (inode_content inode s) j, 36 * int j), s1) \<and>
     dir_answer name (inode_content inode s) = Some j \<and> e_inode_sector (entry_at (inode_content inode s) j) = q \<and>
     inode_open q s1 = Some (Some (next_inode s), s2) \<and> inodes s2 = (inodes s)(next_inode s \<mapsto> read_inode q s) \<and>
     open_inodes s2 = next_inode s # open_inodes s \<and> fm_inv n s2 \<and> map_area s2 = map_area s \<and> free_map s2 = free_map s \<and>
     dir_inv n d inode s2 \<and> inode_content inode s2 = inode_content inode s \<and>
     (\<forall>r. valid_sector n r \<longrightarrow> cache_content s2 r = cache_content s r) \<and>
     dirs s2 = dirs s \<and> cwd s2 = cwd s \<and> open_files s2 = open_files s \<and> free_map_file s2 = free_map_file s"
proof -
  note i = fs_invD [OF inv]
  obtain dr where dr: "dirs s d = Some dr" "inodes s (dir_inode dr) = Some inode"
    using i(2) by (auto simp: dir_inv_def dir_ok_def inode_ok_def split: option.splits)
  have ok: "dir_ok n d inode s" "1 \<le> entry_cnt (inode_content inode s)" using i(2) by (simp_all add: dir_inv_def)
  obtain j where j: "dir_answer name (inode_content inode s) = Some j" "e_inode_sector (entry_at (inode_content inode s) j) = q"
    using name by (auto simp: dir_map_def)
  from dir_find_finds [OF ok, of name] j(1) obtain s1 where
    s1: "dir_find d name s = Some (Some (entry_at (inode_content inode s) j, 36 * int j), s1)" "cache_keeps n s s1" by auto
  note f1 = fm_inv_keeps [OF i(1) s1(2)]
  note t1 = same_tablesD [OF f1(3) [THEN conjunct1]]
  let ?i = "next_inode s" and ?t0 = "s1\<lparr>open_inodes := next_inode s1 # open_inodes s1, next_inode := Suc (next_inode s1)\<rparr>"
  have vq: "valid_sector n q" by (rule used_valid [OF i(1) q])
  have "find_inode q (open_inodes s1) s1 = Some None"
    using i(7) closed t1(2,3) by (intro find_inode_none) fastforce
  with inode_open_reads [of n s1 q] s1(2) vq mem(1) t1(1) obtain t where
    t: "inode_open q s1 = Some (Some (next_inode s1), set_inode (next_inode s1) (read_inode q s1) t)" "cache_keeps n ?t0 t"
    by (auto simp: cache_keeps_def)
  have C1: "\<forall>r. valid_sector n r \<longrightarrow> cache_content s1 r = cache_content s r" using s1(2) by (simp add: cache_keeps_def)
  have C2: "\<forall>r. valid_sector n r \<longrightarrow> cache_content t r = cache_content s r" using t(2) C1 by (simp add: cache_keeps_def)
  have ri: "read_inode q s1 = read_inode q s" using C1 vq by (simp add: read_inode_def)
  have f0: "fm_inv n ?t0" "map_area ?t0 = map_area s"
    using fm_inv_cong [of ?t0 s1] f1(1,2) by (simp_all add: map_inode_def)
  note ft = fm_inv_keeps [OF f0(1) t(2)]
  note tt = same_tablesD [OF ft(3) [THEN conjunct1]]
  have tabs: "inodes t = inodes s" "open_inodes t = ?i # open_inodes s" "next_inode s1 = ?i" "open_files t = open_files s"
    "dirs t = dirs s" "cwd t = cwd s" "malloc_ok t = malloc_ok s" using tt t1 by simp_all
  have fmf: "free_map_file t = free_map_file s" "free_map t = free_map s" using ft(3) f1(3) by (simp_all add: same_tables_def)
  let ?s2 = "set_inode ?i (read_inode q s) t"
  have "map_inode ?s2 = map_inode t" unfolding set_inode_def
    by (rule map_inode_inodes(2)) (use map_slot_apart [OF i(1) mem(2)] fmf tabs(4) in auto)
  then have f2: "fm_inv n ?s2" "map_area ?s2 = map_area s"
    using fm_inv_cong [of ?s2 t] ft(1,2) f0(2) by (simp_all add: set_inode_def)
  have ag: "agree (all_sectors (cache_content s) (i_data inode)) (cache_content s) (cache_content ?s2)"
    using i(6) used_valid [OF i(1)] C2 by (auto simp: agree_def)
  have "dir_inode dr \<noteq> ?i" using dr(2) mem(2) by auto
  then have d2: "dir_inv n d inode ?s2" "inode_content inode ?s2 = inode_content inode s"
    using dir_inv_frame [OF i(2) ag _ _ dr(1)] f2(1) dr(1) tabs by (simp_all add: fm_inv_def set_inode_def)
  have "inode_open q s1 = Some (Some ?i, ?s2)" using t(1) tabs(3) ri by simp
  then show ?thesis using s1(1) j f2 d2 C2 tabs fmf
    by (intro exI [of _ j] exI [of _ s1] exI [of _ ?s2]) (simp add: set_inode_def)
qed

text \<open>
  A file that can be removed: no directory, without index blocks, not open, and its sectors are its own: in use, and not
  part of the directory, of the free map file or of an inode that is open.
\<close>

definition own_file :: "nat \<Rightarrow> inode \<Rightarrow> block_sector_t \<Rightarrow> 'a fstate_scheme \<Rightarrow> bool" where
  "own_file n inode q s \<longleftrightarrow>
     (let C = cache_content s; dk = decode_inode (C q)
      in disk_ok n C dk \<and> disk_inj C dk \<and> \<not> is_dir dk \<and> d_length dk \<le> 123 * 512 \<and> q \<notin> all_sectors C dk) \<and>
     (\<forall>r\<in>file_sectors q s. used s r \<and> r \<notin> map_area s \<and> r \<notin> all_sectors (cache_content s) (i_data inode) \<and> r \<noteq> 0) \<and>
     (\<forall>i\<in>set (open_inodes s). \<forall>ino. inodes s i = Some ino \<longrightarrow> i_sector ino \<notin> file_sectors q s)"

lemma own_fileD:
  assumes "own_file n inode q s"
  shows "disk_ok n (cache_content s) (decode_inode (cache_content s q))" "disk_inj (cache_content s) (decode_inode (cache_content s q))"
    "\<not> is_dir (decode_inode (cache_content s q))" "d_length (decode_inode (cache_content s q)) \<le> 123 * 512"
    "q \<notin> all_sectors (cache_content s) (decode_inode (cache_content s q))"
    "\<And>r. r \<in> file_sectors q s \<Longrightarrow> used s r \<and> r \<notin> map_area s \<and> r \<notin> all_sectors (cache_content s) (i_data inode) \<and> r \<noteq> 0"
    "\<And>i ino. i \<in> set (open_inodes s) \<Longrightarrow> inodes s i = Some ino \<Longrightarrow> i_sector ino \<notin> file_sectors q s"
  using assms by (auto simp: own_file_def Let_def)

text \<open>The end of \<^verbatim>\<open>dir_remove\<close>: the inode, which is open once, is marked as removed and closed.\<close>

lemma remove_and_close:
  fixes s :: "'a fstate_scheme"
  assumes inv: "fm_inv n s" "free_map_file s \<noteq> None"
    and apart: "\<And>f fl. free_map_file s = Some f \<Longrightarrow> open_files s f = Some fl \<Longrightarrow> f_inode fl \<noteq> i"
    and ino: "inodes s i = Some ino" "i_open_cnt ino = 1" "d_length (i_data ino) \<le> 123 * 512"
    and disk: "disk_ok n (cache_content s) (i_data ino)" "disk_inj (cache_content s) (i_data ino)"
    and K: "K = insert (i_sector ino) (all_sectors (cache_content s) (i_data ino))" "i_sector ino \<notin> all_sectors (cache_content s) (i_data ino)"
      "\<forall>q\<in>K. used s q \<and> q \<notin> map_area s \<and> q \<noteq> 0"
  shows "\<exists>s1 s'. inode_remove i s = Some s1 \<and> inode_close (save_map (Suc fuel)) (Some i) s1 = Some s' \<and>
     give n K (s\<lparr>inodes := (inodes s)(i := None), open_inodes := remove1 i (open_inodes s)\<rparr>) s' \<and>
     map_area (s\<lparr>inodes := (inodes s)(i := None), open_inodes := remove1 i (open_inodes s)\<rparr>) = map_area s"
proof -
  let ?s1 = "set_inode i (ino\<lparr>i_removed := True\<rparr>) s" and ?s0 = "s\<lparr>inodes := (inodes s)(i := None), open_inodes := remove1 i (open_inodes s)\<rparr>"
  have m1: "map_inode ?s1 = map_inode s" unfolding set_inode_def by (rule map_inode_inodes(2) [OF apart])
  have f1: "fm_inv n ?s1" "map_area ?s1 = map_area s" using fm_inv_cong [of ?s1 s] m1 inv by (simp_all add: set_inode_def)
  have u1: "used ?s1 q = used s q" for q by (simp add: used_def set_inode_def)
  have "\<exists>u t. inode_close (save_map (Suc fuel)) (Some i) ?s1 = Some (u\<lparr>inodes := (inodes ?s1)(i := None)\<rparr>) \<and> give n K t u \<and>
     t = ?s1\<lparr>inodes := (inodes ?s1)(i \<mapsto> ino\<lparr>i_removed := True, i_open_cnt := 0\<rparr>), open_inodes := remove1 i (open_inodes ?s1)\<rparr> \<and>
     fm_inv n t \<and> map_area t = map_area ?s1"
    using close_removed [OF f1(1), of i "ino\<lparr>i_removed := True\<rparr>" K fuel] inv(2) apart ino disk K f1(2) u1
    by (simp add: set_inode_def)
  then obtain u t where u: "inode_close (save_map (Suc fuel)) (Some i) ?s1 = Some (u\<lparr>inodes := (inodes ?s1)(i := None)\<rparr>)" "give n K t u"
     "t = s\<lparr>inodes := (inodes s)(i \<mapsto> ino\<lparr>i_removed := True, i_open_cnt := 0\<rparr>), open_inodes := remove1 i (open_inodes s)\<rparr>"
     "map_area t = map_area s" using f1(2) by (auto simp: set_inode_def)
  let ?u = "u\<lparr>inodes := (inodes u)(i := None)\<rparr>"
  have iu: "inodes u = inodes t" "free_map_file u = free_map_file s" "open_files u = open_files s"
    using u(2,3) by (simp_all add: give_def same_tables_def)
  then have e: "(inodes ?s1)(i := None) = (inodes u)(i := None)" using u(3) by (simp add: set_inode_def)
  have "map_inode ?u = map_inode u" by (rule map_inode_inodes(2)) (use apart iu in auto)
  then have "fm_inv n ?u" "map_area ?u = map_area u" using fm_inv_cong [of ?u u] u(2) by (simp_all add: give_def)
  moreover have "map_inode ?s0 = map_inode s" by (rule map_inode_inodes(1) [OF apart])
  then have m0: "map_area ?s0 = map_area s" using fm_inv_cong(2) [of ?s0 s] by simp
  moreover have "same_tables ?s0 ?u" using u(2,3) iu(1) by (simp add: give_def same_tables_def)
  moreover have "free_sectors ?u = free_sectors u" "free_sectors t = free_sectors s" "free_sectors ?s0 = free_sectors s"
    using u(3) by (simp_all add: free_sectors_def)
  ultimately have "give n K ?s0 ?u" using u(2-4) m0 by (simp add: give_def)
  then show ?thesis using u(1) ino(1) e m0 by (intro exI [of _ ?s1] exI [of _ ?u]) (simp add: inode_remove_def)
qed

text \<open>
  The steps of \<^verbatim>\<open>dir_remove\<close>: in \<open>s3\<close> the entry has been cleared and the inode of the file is open; from there the inode is closed,
  which releases its sectors.
\<close>

lemma remove_steps:
  fixes s :: "'a dstate_scheme"
  assumes inv: "fs_inv n d inode s" and name: "names inode s name = Some q" and own: "own_file n inode q s"
    and mem: "malloc_ok s 544" "inodes s (next_inode s) = None" "free_map_file s \<noteq> None"
  shows "\<exists>s3 s5. dir_remove (Suc fuel) d name s = Some (True, s5) \<and> dir_inv n d inode s3 \<and>
     names inode s3 = (names inode s)(name := None) \<and> inodes s3 = (inodes s)(next_inode s \<mapsto> read_inode q s) \<and>
     open_inodes s3 = next_inode s # open_inodes s \<and> dirs s3 = dirs s \<and> cwd s3 = cwd s \<and> free_map s3 = free_map s \<and>
     all_sectors (cache_content s3) (i_data inode) = all_sectors (cache_content s) (i_data inode) \<and>
     (\<forall>r. valid_sector n r \<longrightarrow> r \<notin> all_sectors (cache_content s) (i_data inode) \<longrightarrow> cache_content s3 r = cache_content s r) \<and>
     (let t = s3\<lparr>inodes := (inodes s3)(next_inode s := None), open_inodes := remove1 (next_inode s) (open_inodes s3)\<rparr>
      in give n (file_sectors q s) t s5 \<and> map_area t = map_area s)"
proof -
  note i = fs_invD [OF inv] and o = own_fileD [OF own]
  let ?i = "next_inode s" and ?A = "all_sectors (cache_content s) (i_data inode)" and ?K = "file_sectors q s" and ?ino = "read_inode q s"
  obtain dr where dr: "dirs s d = Some dr" using inv by (auto simp: fs_inv_def)
  have q: "q \<in> ?K" by (simp add: file_sectors_def)
  have "\<forall>i\<in>set (open_inodes s). \<forall>ino. inodes s i = Some ino \<longrightarrow> i_sector ino \<noteq> q" using o(7) q by blast
  from find_and_open [OF inv name _ this mem] o(6) [OF q] obtain j s1 s2 where
    s2: "dir_find d name s = Some (Some (entry_at (inode_content inode s) j, 36 * int j), s1)"
     "dir_answer name (inode_content inode s) = Some j" "e_inode_sector (entry_at (inode_content inode s) j) = q"
     "inode_open q s1 = Some (Some ?i, s2)" "inodes s2 = (inodes s)(?i \<mapsto> ?ino)"
     "open_inodes s2 = ?i # open_inodes s" "fm_inv n s2" "map_area s2 = map_area s" "free_map s2 = free_map s"
     "dir_inv n d inode s2" "inode_content inode s2 = inode_content inode s"
     "\<And>r. valid_sector n r \<Longrightarrow> cache_content s2 r = cache_content s r"
     "dirs s2 = dirs s" "cwd s2 = cwd s" "open_files s2 = open_files s" "free_map_file s2 = free_map_file s" by blast
  have valid: "r \<in> ?A \<or> r \<in> ?K \<Longrightarrow> valid_sector n r" for r using used_valid [OF i(1)] i(6) o(6) by blast
  have A2: "all_sectors (cache_content s2) (i_data inode) = ?A"
    by (rule untouched_bytes(2)) (use valid s2(12) in \<open>auto simp: agree_def\<close>)
  from clear_entry [OF s2(10), of dr name j fuel] dr s2(2,11,13) obtain s3 where
    s3: "inode_write_at (Suc fuel) (dir_inode dr) (encode_entry ((entry_at (inode_content inode s) j)\<lparr>e_in_use := False\<rparr>)) 36 (36 * int j) s2 = Some (36, s3)"
      "wrote n inode s2 s3" "dir_inv n d inode s3" "names inode s3 = (names inode s)(name := None)" by auto
  have "cache_inv n s3" using s3(3) by (auto simp: dir_inv_def dir_ok_def inode_ok_def split: option.splits)
  moreover have ds: "data_sectors (cache_content s2) (i_data inode) \<subseteq> ?A" using A2 by (auto simp: all_sectors_def)
  moreover from this have "data_sectors (cache_content s2) (i_data inode) \<inter> map_area s2 = {}" using i(6) s2(8) by blast
  ultimately have f3: "fm_inv n s3" "map_area s3 = map_area s" "same_tables s2 s3" "free_map s3 = free_map s"
    using fm_inv_wrote [OF s2(7) s3(2)] s2(8,9) by simp_all
  note t3 = same_tablesD [OF f3(3)]
  have fmf: "free_map_file s3 = free_map_file s" using f3(3) s2(16) by (simp add: same_tables_def)
  have C3: "cache_content s3 r = cache_content s r" if "valid_sector n r" "r \<notin> ?A" for r
    using s3(2) that ds s2(12) by (auto simp: wrote_def)
  have "agree ?K (cache_content s) (cache_content s3)" using C3 valid o(6) by (auto simp: agree_def)
  then have ag: "agree (all_sectors (cache_content s) (i_data ?ino)) (cache_content s) (cache_content s3)"
    by (simp add: agree_def file_sectors_def read_inode_def)
  have K3: "?K = insert (i_sector ?ino) (all_sectors (cache_content s3) (i_data ?ino))"
    using untouched_bytes(2) [OF ag] by (simp add: file_sectors_def read_inode_def)
  let ?t = "s3\<lparr>inodes := (inodes s3)(?i := None), open_inodes := remove1 ?i (open_inodes s3)\<rparr>"
  have "\<exists>s4 s5. inode_remove ?i s3 = Some s4 \<and> inode_close (save_map (Suc fuel)) (Some ?i) s4 = Some s5 \<and> give n ?K ?t s5 \<and> map_area ?t = map_area s3"
  proof (rule remove_and_close [OF f3(1) _ _ _ _ _ _ _ K3])
    show "f_inode fl \<noteq> ?i" if "free_map_file s3 = Some f" "open_files s3 f = Some fl" for f fl
      using map_slot_apart [OF i(1) mem(2)] that fmf t3(5) s2(15) by auto
    show "\<forall>q\<in>?K. used s3 q \<and> q \<notin> map_area s3 \<and> q \<noteq> 0" using o(6) used_same [OF f3(4)] f3(2) by auto
    show "i_sector ?ino \<notin> all_sectors (cache_content s3) (i_data ?ino)"
      using o(5) untouched_bytes(2) [OF ag] by (simp add: read_inode_def)
    show "disk_ok n (cache_content s3) (i_data ?ino)" "disk_inj (cache_content s3) (i_data ?ino)"
      using disk_agree [OF ag] o(1,2) by (simp_all add: read_inode_def)
  qed (use mem(3) fmf s2(5) t3(2) o(4) in \<open>simp_all add: read_inode_def\<close>)
  then obtain s4 s5 where s5: "inode_remove ?i s3 = Some s4" "inode_close (save_map (Suc fuel)) (Some ?i) s4 = Some s5"
    "give n ?K ?t s5" "map_area ?t = map_area s" using f3(2) by auto
  have A3: "all_sectors (cache_content s3) (i_data inode) = ?A"
    using wrote_sectors [OF _ _ s3(2)] s2(10) A2 by (auto simp: dir_inv_def dir_ok_def inode_ok_def split: option.splits)
  have "dir_remove (Suc fuel) d name s = Some (True, s5)"
    using dr s2(1-5) s3(1) s5(1,2) o(3) by (simp add: dir_remove_def inode_is_directory_def read_inode_def)
  then show ?thesis
    using s3(3,4) s2(5,6,13,14) t3 f3(4) A3 C3 s5(3,4) by (intro exI [of _ s3] exI [of _ s5]) (simp add: Let_def)
qed

lemma remove_file:
  fixes s :: "'a dstate_scheme"
  assumes inv: "fs_inv n d inode s" and name: "names inode s name = Some q" and own: "own_file n inode q s"
    and mem: "malloc_ok s 544" "inodes s (next_inode s) = None" "free_map_file s \<noteq> None"
  shows "\<exists>s'. dir_remove (Suc fuel) d name s = Some (True, s') \<and> fs_inv n d inode s' \<and>
     names inode s' = (names inode s)(name := None) \<and> free_sectors s' = free_sectors s \<union> file_sectors q s \<and>
     (\<forall>r. used s r \<longrightarrow> r \<notin> map_area s \<longrightarrow> r \<notin> all_sectors (cache_content s) (i_data inode) \<longrightarrow> cache_content s' r = cache_content s r)"
proof -
  note i = fs_invD [OF inv] and o = own_fileD [OF own]
  let ?i = "next_inode s" and ?A = "all_sectors (cache_content s) (i_data inode)" and ?K = "file_sectors q s"
  obtain dr where dr: "dirs s d = Some dr" "0 < dir_open_cnt dr" "int32 (dir_open_cnt dr + 1)" using inv by (auto simp: fs_inv_def)
  from remove_steps [OF inv name own mem, of fuel] obtain s3 s5 where
    r: "dir_remove (Suc fuel) d name s = Some (True, s5)" "dir_inv n d inode s3" "names inode s3 = (names inode s)(name := None)"
      "inodes s3 = (inodes s)(?i \<mapsto> read_inode q s)" "open_inodes s3 = ?i # open_inodes s" "dirs s3 = dirs s" "cwd s3 = cwd s"
      "free_map s3 = free_map s" and A3: "all_sectors (cache_content s3) (i_data inode) = ?A"
    and C3: "\<And>r. valid_sector n r \<Longrightarrow> r \<notin> ?A \<Longrightarrow> cache_content s3 r = cache_content s r"
    and s5: "give n ?K (s3\<lparr>inodes := (inodes s3)(?i := None), open_inodes := remove1 ?i (open_inodes s3)\<rparr>) s5"
      "map_area (s3\<lparr>inodes := (inodes s3)(?i := None), open_inodes := remove1 ?i (open_inodes s3)\<rparr>) = map_area s" by (auto simp: Let_def)
  let ?t = "s3\<lparr>inodes := (inodes s3)(?i := None), open_inodes := remove1 ?i (open_inodes s3)\<rparr>"
  have "free_sectors ?t = free_sectors s" by (simp add: free_sectors_def r(8))
  then have g: "fm_inv n s5" "same_tables ?t s5" "map_area s5 = map_area s" "free_sectors s5 = free_sectors s \<union> ?K"
    "\<And>r. valid_sector n r \<Longrightarrow> r \<notin> map_area s \<Longrightarrow> cache_content s5 r = cache_content s3 r"
    using s5 by (simp_all add: give_def)
  note t5 = same_tablesD [OF g(2)]
  have tabs: "inodes s5 = inodes s" "open_inodes s5 = open_inodes s" "dirs s5 = dirs s" "cwd s5 = cwd s"
    using t5 r(4-7) mem(2) by (simp_all add: fun_upd_idem)
  have us: "used s5 r" if "used s r" "r \<notin> ?K" for r
    using give_used [OF s5(1), of r] used_same [OF r(8), of r] that by (simp add: used_def)
  have ag5: "agree (all_sectors (cache_content s3) (i_data inode)) (cache_content s3) (cache_content s5)"
    unfolding A3 using g(5) used_valid [OF i(1)] i(6) by (auto simp: agree_def)
  have "inodes s (dir_inode dr) = Some inode" using i(2) dr(1) by (simp add: dir_inv_def dir_ok_def inode_ok_def)
  then have "inodes s5 (dir_inode dr) = inodes s3 (dir_inode dr)" using mem(2) tabs(1) r(4) by auto
  then have d5: "dir_inv n d inode s5" "inode_content inode s5 = inode_content inode s3"
    using dir_inv_frame [OF r(2) ag5] g(1) r(6) t5(1) dr(1) tabs by (simp_all add: fm_inv_def)
  have "fs_inv n d inode s5" unfolding fs_inv_def
  proof (intro conjI)
    show "\<forall>r\<in>all_sectors (cache_content s5) (i_data inode). used s5 r \<and> r \<notin> map_area s5"
      using untouched_bytes(2) [OF ag5] A3 i(6) us o(6) g(3) by (metis (no_types, lifting))
    show "\<forall>i\<in>set (open_inodes s5). \<exists>ino. inodes s5 i = Some ino \<and> used s5 (i_sector ino)"
      using i(7) o(7) us tabs(1,2) by metis
  qed (use g(1) d5(1) tabs(3,4) i(3) dr in auto)
  then show ?thesis using r(1,3) d5(2) g C3 used_valid [OF i(1)] by (intro exI [of _ s5]) auto
qed

section \<open>Creating and removing are inverse\<close>

text \<open>A file that has just been created is its own.\<close>

lemma created_own:
  fixes s s1 :: "'a dstate_scheme"
  assumes inv: "fs_inv n d inode s" and len: "len \<le> 123 * 512"
    and new: "new_file n q len s1" "same_tables s s1" "file_sectors q s1 \<subseteq> free_sectors s" "\<forall>r. used s r \<or> r \<in> file_sectors q s1 \<longrightarrow> used s1 r"
      "map_area s1 = map_area s" "all_sectors (cache_content s1) (i_data inode) = all_sectors (cache_content s) (i_data inode)"
  shows "own_file n inode q s1"
proof -
  note i = fs_invD [OF inv] and t = same_tablesD [OF new(2)]
  have apart: "\<not> used s r \<and> r \<notin> map_area s \<and> r \<noteq> 0" if "r \<in> file_sectors q s1" for r
    using that new(3) ms.free_valid [OF i(1), of r] by (auto simp: free_sectors_def used_def)
  have "i_sector ino \<notin> file_sectors q s1" if "k \<in> set (open_inodes s1)" "inodes s1 k = Some ino" for k ino
    using that i(7) [of k] apart t(2,3) by auto
  moreover have "used s1 r \<and> r \<notin> map_area s1 \<and> r \<notin> all_sectors (cache_content s1) (i_data inode) \<and> r \<noteq> 0"
    if "r \<in> file_sectors q s1" for r
    using apart [OF that] that new(4-6) i(6) [of r] by auto
  ultimately show ?thesis using new(1) len by (simp add: own_file_def new_file_def Let_def)
qed


lemma dir8_fresh: "inodes dir8 (next_inode dir8) = None"
  by (simp add: dir8_def fs8_def disk8_def tstate.defs fstate.defs cstate.defs dev.defs)




end
