(* ===== verification/Ready_Queue.thy ===== *)
theory Ready_Queue
  imports Prelude "HOL-Library.Product_Lexorder" "HOL-Library.Multiset"
begin

text \<open>
  The ready queue of the second program (\<^verbatim>\<open>a2/ready_queue.c\<close>): a singly linked list of processes,
  modelled with its pointers. A \<^verbatim>\<open>QueueNode *\<close> is an address, the null pointer is \<^term>\<open>None\<close>, and the heap
  maps the allocated addresses to their nodes; a node owns its PCB, which is kept inside it. Loops
  that follow pointers are \<^theory_text>\<open>partial_function\<close>s: they have no result on a dangling pointer or a cycle.
  The operations are shown to implement operations on lists of addresses, and the queue
  discipline of both kernels is stated in the locale \<open>deque\<close>.
\<close>

section \<open>Data\<close>

definition MAX_INT :: int where
  "MAX_INT = 2147483646"

text \<open>The page table of a process, an array that grows as pages are loaded, is a map from page numbers to
  frame numbers (\<^term>\<open>None\<close> where it is not initialised). \<open>fp\<close> is what is left to read of the stream.\<close>

record PCB =
  priority :: bool
  pid :: int
  curr_page :: int
  curr_line :: int
  pagetable :: "int \<Rightarrow> int option"
  num_pages :: int
  job_length_score :: int
  fp :: "string option"

record QueueNode =
  pcb :: PCB
  "next" :: "nat option"

record rq =
  nodes :: "nat \<Rightarrow> QueueNode option"
  head :: "nat option"

definition set_next :: "nat \<Rightarrow> nat option \<Rightarrow> 'a rq_scheme \<Rightarrow> 'a rq_scheme option" where
  "set_next p q s = map_option (\<lambda>nd. s\<lparr>nodes := (nodes s)(p \<mapsto> nd\<lparr>next := q\<rparr>)\<rparr>) (nodes s p)"

definition get_next :: "nat \<Rightarrow> 'a rq_scheme \<Rightarrow> nat option option" where
  "get_next p s = map_option next (nodes s p)"

definition get_pcb :: "nat \<Rightarrow> 'a rq_scheme \<Rightarrow> PCB option" where
  "get_pcb p s = map_option pcb (nodes s p)"

definition upd_pcb :: "nat \<Rightarrow> (PCB \<Rightarrow> PCB) \<Rightarrow> 'a rq_scheme \<Rightarrow> 'a rq_scheme option" where
  "upd_pcb p f s = map_option (\<lambda>nd. s\<lparr>nodes := (nodes s)(p \<mapsto> nd\<lparr>pcb := f (pcb nd)\<rparr>)\<rparr>) (nodes s p)"

definition free_node :: "nat \<Rightarrow> 'a rq_scheme \<Rightarrow> 'a rq_scheme option" where
  "free_node p s = (case nodes s p of None \<Rightarrow> None | Some _ \<Rightarrow> Some (s\<lparr>nodes := (nodes s)(p := None)\<rparr>))"

section \<open>Operations\<close>

partial_function (option) destroy_loop :: "nat \<Rightarrow> 'a rq_scheme \<Rightarrow> 'a rq_scheme option" where
  "destroy_loop cur s =
     do { nx \<leftarrow> get_next cur s;
          s' \<leftarrow> free_node cur s;
          (case nx of None \<Rightarrow> Some s' | Some tmp \<Rightarrow> destroy_loop tmp s') }"

declare destroy_loop.simps [code]

text \<open>\<^verbatim>\<open>head\<close> is left dangling; the program exits next.\<close>

definition ready_queue_destory :: "'a rq_scheme \<Rightarrow> 'a rq_scheme option" where
  "ready_queue_destory s = (case head s of None \<Rightarrow> Some s | Some cur \<Rightarrow> destroy_loop cur s)"

partial_function (option) find_tail :: "nat \<Rightarrow> 'a rq_scheme \<Rightarrow> nat option" where
  "find_tail cur s =
     do { nx \<leftarrow> get_next cur s; (case nx of None \<Rightarrow> Some cur | Some q \<Rightarrow> find_tail q s) }"

declare find_tail.simps [code]

definition ready_queue_add_to_tail :: "nat \<Rightarrow> 'a rq_scheme \<Rightarrow> 'a rq_scheme option" where
  "ready_queue_add_to_tail node s =
     (case head s of
        None \<Rightarrow> set_next node None (s\<lparr>head := Some node\<rparr>)
      | Some h \<Rightarrow> do { cur \<leftarrow> find_tail h s;
                       s1 \<leftarrow> set_next cur (Some node) s;
                       set_next node None s1 })"

definition ready_queue_add_to_head :: "nat \<Rightarrow> 'a rq_scheme \<Rightarrow> 'a rq_scheme option" where
  "ready_queue_add_to_head node s =
     (case head s of
        None \<Rightarrow> set_next node None (s\<lparr>head := Some node\<rparr>)
      | Some h \<Rightarrow> do { s1 \<leftarrow> set_next node (Some h) s; Some (s1\<lparr>head := Some node\<rparr>) })"

partial_function (option) print_queue_loop :: "nat option \<Rightarrow> 'a rq_scheme \<Rightarrow> string list option" where
  "print_queue_loop cur s =
     (case cur of
        None \<Rightarrow> Some []
      | Some p \<Rightarrow>
          do { b \<leftarrow> get_pcb p s;
               nx \<leftarrow> get_next p s;
               out \<leftarrow> print_queue_loop nx s;
               Some (([CHR 0x09] @ ''PID: '' @ int_str (pid b) @ '', length: '' @ int_str (job_length_score b) @
                      '', priority: '' @ (if priority b then ''1'' else ''0'') @ [CHR 0x0A]) # out) })"

declare print_queue_loop.simps [code]

definition print_ready_queue :: "'a rq_scheme \<Rightarrow> string list option" where
  "print_ready_queue s =
     (case head s of
        None \<Rightarrow> Some [''ready queue is empty'' @ [CHR 0x0A]]
      | Some _ \<Rightarrow> map_option (\<lambda>out. (''Ready queue: '' @ [CHR 0x0A]) # out) (print_queue_loop (head s) s))"

text \<open>\<^verbatim>\<open>terminate_process\<close> frees the PCB (its page table, closing its stream) and the node.\<close>

definition terminate_process :: "nat \<Rightarrow> 'a rq_scheme \<Rightarrow> 'a rq_scheme option" where
  "terminate_process node s = free_node node s"

definition is_ready_empty :: "'a rq_scheme \<Rightarrow> bool" where
  "is_ready_empty s \<longleftrightarrow> head s = None"

definition ready_queue_pop_head :: "'a rq_scheme \<Rightarrow> (nat option \<times> 'a rq_scheme) option" where
  "ready_queue_pop_head s =
     (case head s of
        None \<Rightarrow> Some (None, s)
      | Some h \<Rightarrow> do { nx \<leftarrow> get_next h s; Some (Some h, s\<lparr>head := nx\<rparr>) })"

partial_function (option) decrement_loop :: "nat option \<Rightarrow> 'a rq_scheme \<Rightarrow> 'a rq_scheme option" where
  "decrement_loop cur s =
     (case cur of
        None \<Rightarrow> Some s
      | Some p \<Rightarrow>
          do { s1 \<leftarrow> upd_pcb p (\<lambda>b. if job_length_score b > 0
                                    then b\<lparr>job_length_score := job_length_score b - 1\<rparr> else b) s;
               nx \<leftarrow> get_next p s1;
               decrement_loop nx s1 })"

declare decrement_loop.simps [code]

definition ready_queue_decrement_job_length_score :: "'a rq_scheme \<Rightarrow> 'a rq_scheme option" where
  "ready_queue_decrement_job_length_score s = decrement_loop (head s) s"

text \<open>The search for the predecessor of \<open>toSwap\<close>: the inner \<^term>\<open>None\<close> is the null pointer.\<close>

partial_function (option) find_pred :: "nat option \<Rightarrow> nat \<Rightarrow> 'a rq_scheme \<Rightarrow> nat option option" where
  "find_pred cur toSwap s =
     (case cur of
        None \<Rightarrow> Some None
      | Some p \<Rightarrow>
          do { nx \<leftarrow> get_next p s;
               if nx = Some toSwap then Some (Some p) else find_pred nx toSwap s })"

declare find_pred.simps [code]

definition deref :: "nat option \<Rightarrow> nat option" where
  "deref p = p"

definition swap_head :: "nat \<Rightarrow> 'a rq_scheme \<Rightarrow> 'a rq_scheme option" where
  "swap_head h s =
     do { nx \<leftarrow> get_next h s; n \<leftarrow> deref nx;
          nn \<leftarrow> get_next n s;
          s1 \<leftarrow> set_next h nn s;
          s2 \<leftarrow> set_next n (Some h) s1;
          Some (s2\<lparr>head := Some n\<rparr>) }"

definition ready_queue_swap_with_next :: "nat \<Rightarrow> 'a rq_scheme \<Rightarrow> 'a rq_scheme option" where
  "ready_queue_swap_with_next toSwap s =
     do { let cur0 = head s;
          s1 \<leftarrow> (if head s = Some toSwap then swap_head toSwap s else Some s);
          pred \<leftarrow> find_pred cur0 toSwap s1;
          (case pred of
             None \<Rightarrow> Some s1
           | Some cur \<Rightarrow>
               do { sw \<leftarrow> get_next cur s1; sw \<leftarrow> deref sw;
                    nx \<leftarrow> get_next sw s1; n \<leftarrow> deref nx;
                    afterNext \<leftarrow> get_next n s1;
                    s2 \<leftarrow> set_next cur (Some n) s1;
                    s3 \<leftarrow> set_next n (Some toSwap) s2;
                    set_next toSwap afterNext s3 }) }"

definition swap_needed_pcb :: "PCB \<Rightarrow> PCB \<Rightarrow> bool" where
  "swap_needed_pcb c n =
     (if priority c \<and> priority n then job_length_score c > job_length_score n
      else if priority c \<and> \<not> priority n then False
      else if \<not> priority c \<and> priority n then True
      else job_length_score c > job_length_score n)"

definition swap_needed :: "nat \<Rightarrow> 'a rq_scheme \<Rightarrow> bool option" where
  "swap_needed cur s =
     do { nx \<leftarrow> get_next cur s;
          (case nx of
             None \<Rightarrow> Some False
           | Some n \<Rightarrow> do { c \<leftarrow> get_pcb cur s; m \<leftarrow> get_pcb n s; Some (swap_needed_pcb c m) }) }"

text \<open>
  The two nested loops of \<^verbatim>\<open>sort_ready_queue\<close>. \<open>cur\<close> is not reset between the rounds of the outer loop.
  The inner loop returns where it stopped and whether nothing was swapped.
\<close>

partial_function (option) sort_inner ::
    "nat \<Rightarrow> bool \<Rightarrow> 'a rq_scheme \<Rightarrow> (nat \<times> bool \<times> 'a rq_scheme) option" where
  "sort_inner cur srt s =
     do { nx \<leftarrow> get_next cur s;
          (case nx of
             None \<Rightarrow> Some (cur, srt, s)
           | Some n \<Rightarrow>
               do { sw \<leftarrow> swap_needed cur s;
                    if sw
                    then do { s1 \<leftarrow> ready_queue_swap_with_next cur s; sort_inner cur False s1 }
                    else sort_inner n srt s }) }"

declare sort_inner.simps [code]

partial_function (option) sort_outer :: "nat \<Rightarrow> 'a rq_scheme \<Rightarrow> 'a rq_scheme option" where
  "sort_outer cur s =
     do { (cur', srt, s') \<leftarrow> sort_inner cur True s;
          if srt then Some s' else sort_outer cur' s' }"

declare sort_outer.simps [code]

definition sort_ready_queue :: "'a rq_scheme \<Rightarrow> 'a rq_scheme option" where
  "sort_ready_queue s = (case head s of None \<Rightarrow> Some s | Some cur \<Rightarrow> sort_outer cur s)"

definition ready_queue_pop_shortest_job :: "'a rq_scheme \<Rightarrow> (nat option \<times> 'a rq_scheme) option" where
  "ready_queue_pop_shortest_job s = Option.bind (sort_ready_queue s) ready_queue_pop_head"

partial_function (option) shortest_loop :: "nat option \<Rightarrow> int \<Rightarrow> 'a rq_scheme \<Rightarrow> int option" where
  "shortest_loop cur shortest s =
     (case cur of
        None \<Rightarrow> Some shortest
      | Some p \<Rightarrow>
          do { b \<leftarrow> get_pcb p s;
               nx \<leftarrow> get_next p s;
               shortest_loop nx (if job_length_score b < shortest then job_length_score b else shortest) s })"

declare shortest_loop.simps [code]

definition ready_queue_get_shortest_job_score :: "'a rq_scheme \<Rightarrow> int option" where
  "ready_queue_get_shortest_job_score s = shortest_loop (head s) MAX_INT s"

text \<open>The node whose successor has the score, or the last node.\<close>

partial_function (option) promote_loop :: "nat \<Rightarrow> int \<Rightarrow> 'a rq_scheme \<Rightarrow> nat option" where
  "promote_loop cur score s =
     do { nx \<leftarrow> get_next cur s;
          (case nx of
             None \<Rightarrow> Some cur
           | Some n \<Rightarrow> do { b \<leftarrow> get_pcb n s;
                            if job_length_score b = score then Some cur else promote_loop n score s }) }"

declare promote_loop.simps [code]

definition ready_queue_promote :: "int \<Rightarrow> 'a rq_scheme \<Rightarrow> 'a rq_scheme option" where
  "ready_queue_promote score s =
     do { h \<leftarrow> deref (head s);
          hb \<leftarrow> get_pcb h s;
          if job_length_score hb = score then Some s
          else do { cur \<leftarrow> promote_loop h score s;
                    nx \<leftarrow> get_next cur s;
                    (case nx of
                       None \<Rightarrow> Some s
                     | Some n \<Rightarrow>
                         do { b \<leftarrow> get_pcb n s;
                              if job_length_score b \<noteq> score then Some s
                              else do { nn \<leftarrow> get_next n s;
                                        s1 \<leftarrow> set_next cur nn s;
                                        s2 \<leftarrow> set_next n (Some h) s1;
                                        Some (s2\<lparr>head := Some n\<rparr>) } }) } }"

section \<open>Queues as lists of addresses\<close>

text \<open>\<open>chain h p as e\<close>: following the links from \<open>p\<close> visits \<open>as\<close> and arrives at \<open>e\<close>.\<close>

primrec chain :: "(nat \<Rightarrow> QueueNode option) \<Rightarrow> nat option \<Rightarrow> nat list \<Rightarrow> nat option \<Rightarrow> bool" where
  "chain h p [] e \<longleftrightarrow> p = e"
| "chain h p (a # as) e \<longleftrightarrow> p = Some a \<and> (\<exists>nd. h a = Some nd \<and> chain h (next nd) as e)"

definition queue :: "'a rq_scheme \<Rightarrow> nat list \<Rightarrow> bool" where
  "queue s ps \<longleftrightarrow> chain (nodes s) (head s) ps None \<and> distinct ps"

text \<open>The processes themselves, and all state outside the queue, are the same.\<close>

definition same_pcbs :: "'a rq_scheme \<Rightarrow> 'a rq_scheme \<Rightarrow> bool" where
  "same_pcbs s s' \<longleftrightarrow> (\<forall>p. get_pcb p s' = get_pcb p s) \<and> rq.more s' = rq.more s"

lemma same_pcbs_refl [simp]: "same_pcbs s s"
  by (simp add: same_pcbs_def)

lemma same_pcbs_trans: "same_pcbs s t \<Longrightarrow> same_pcbs t u \<Longrightarrow> same_pcbs s u"
  by (simp add: same_pcbs_def)

lemma chain_append: "chain h p (xs @ ys) e \<longleftrightarrow> (\<exists>q. chain h p xs q \<and> chain h q ys e)"
  by (induction xs arbitrary: p) auto

lemma chain_upd_other [simp]: "a \<notin> set ps \<Longrightarrow> chain (h(a := v)) p ps e = chain h p ps e"
  by (induction ps arbitrary: p) auto

lemma chain_upd_pcb: "h a = Some nd \<Longrightarrow> next nd' = next nd \<Longrightarrow> chain (h(a \<mapsto> nd')) p ps e = chain h p ps e"
  by (induction ps arbitrary: p) auto

lemma chain_allocated: "chain h p ps e \<Longrightarrow> a \<in> set ps \<Longrightarrow> \<exists>nd. h a = Some nd"
  by (induction ps arbitrary: p) auto

lemma chain_head_next:
  "chain h p (a # as) e \<longleftrightarrow> p = Some a \<and> (\<exists>nd. h a = Some nd \<and> next nd = (case as of [] \<Rightarrow> e | b # _ \<Rightarrow> Some b) \<and>
     chain h (next nd) as e)"
  by (cases as) auto

lemma set_next_chain:
  assumes "nodes s a = Some nd"
  shows "\<exists>s'. set_next a q s = Some s' \<and> same_pcbs s s' \<and> head s' = head s \<and>
              nodes s' = (nodes s)(a \<mapsto> nd\<lparr>next := q\<rparr>)"
  using assms by (auto simp: set_next_def same_pcbs_def get_pcb_def)

lemma find_tail_chain: "chain (nodes s) (Some a) (a # as) None \<Longrightarrow> find_tail a s = Some (last (a # as))"
proof (induction as arbitrary: a)
  case Nil
  then show ?case by (subst find_tail.simps) (auto simp: get_next_def)
next
  case (Cons b as)
  from Cons.prems obtain nd where "nodes s a = Some nd" "next nd = Some b" "chain (nodes s) (Some b) (b # as) None"
    by auto
  with Cons.IH [of b] show ?case by (subst find_tail.simps) (simp add: get_next_def)
qed

lemma add_to_tail_queue:
  assumes "queue s ps" "nodes s a = Some nd" "a \<notin> set ps"
  shows "\<exists>s'. ready_queue_add_to_tail a s = Some s' \<and> queue s' (ps @ [a]) \<and> same_pcbs s s'"
proof (cases "head s")
  case None
  with assms(1) have "ps = []" by (cases ps) (auto simp: queue_def)
  with None assms(2) show ?thesis
    by (auto simp: ready_queue_add_to_tail_def set_next_def queue_def same_pcbs_def get_pcb_def)
next
  case (Some h)
  with assms(1) obtain as where ps: "ps = h # as" by (cases ps) (auto simp: queue_def)
  define l where "l = last ps"
  have split: "ps = butlast ps @ [l]" using ps by (simp add: l_def)
  have l_notin: "l \<notin> set (butlast ps)" "l \<noteq> a" "a \<notin> set (butlast ps)"
    using assms(1,3) split unfolding queue_def
    by (metis distinct_append disjoint_insert(1) list.set(2) in_set_conv_decomp in_set_butlastD)+
  from assms(1) split have "chain (nodes s) (head s) (butlast ps @ [l]) None" by (simp add: queue_def)
  then obtain ln where ln: "nodes s l = Some ln" "chain (nodes s) (head s) (butlast ps) (Some l)"
    by (auto simp: chain_append)
  have "find_tail h s = Some l" using find_tail_chain [of s h as] assms(1) Some ps by (simp add: queue_def l_def)
  moreover from set_next_chain [OF ln(1), of "Some a"] obtain s1 where
    s1: "set_next l (Some a) s = Some s1" "same_pcbs s s1" "head s1 = head s"
      "nodes s1 = (nodes s)(l \<mapsto> ln\<lparr>next := Some a\<rparr>)" by blast
  moreover from s1 assms(2) l_notin have "nodes s1 a = Some nd" by simp
  from set_next_chain [OF this, of None] obtain s2 where
    s2: "set_next a None s1 = Some s2" "same_pcbs s1 s2" "head s2 = head s1"
      "nodes s2 = (nodes s1)(a \<mapsto> nd\<lparr>next := None\<rparr>)" by blast
  ultimately have "ready_queue_add_to_tail a s = Some s2" using Some by (simp add: ready_queue_add_to_tail_def)
  moreover have "chain (nodes s2) (head s2) (butlast ps @ [l] @ [a]) None"
    using ln(2) s1(3,4) s2(3,4) l_notin by (simp add: chain_append)
  moreover have eq: "butlast ps @ [l] @ [a] = ps @ [a]" using split by (metis append_assoc)
  ultimately have "ready_queue_add_to_tail a s = Some s2" "queue s2 (ps @ [a])"
    using assms unfolding queue_def eq by simp_all
  then show ?thesis using s1(2) s2(2) same_pcbs_trans by blast
qed

lemma add_to_head_queue:
  assumes "queue s ps" "nodes s a = Some nd" "a \<notin> set ps"
  shows "\<exists>s'. ready_queue_add_to_head a s = Some s' \<and> queue s' (a # ps) \<and> same_pcbs s s'"
proof -
  from set_next_chain [OF assms(2), of "head s"] obtain s1 where
    s1: "set_next a (head s) s = Some s1" "same_pcbs s s1" "nodes s1 = (nodes s)(a \<mapsto> nd\<lparr>next := head s\<rparr>)" by blast
  have comm: "ready_queue_add_to_head a s = Some (s1\<lparr>head := Some a\<rparr>)"
    using s1(1) assms(2)
    by (cases "head s") (auto simp: ready_queue_add_to_head_def set_next_def)
  have "queue (s1\<lparr>head := Some a\<rparr>) (a # ps)" using assms s1(3) by (simp add: queue_def)
  with comm s1(2) show ?thesis by (auto simp: same_pcbs_def get_pcb_def)
qed

lemma pop_head_queue:
  "queue s [] \<Longrightarrow> ready_queue_pop_head s = Some (None, s)"
  "queue s (a # ps) \<Longrightarrow> \<exists>s'. ready_queue_pop_head s = Some (Some a, s') \<and> queue s' ps \<and> same_pcbs s s' \<and>
     nodes s' = nodes s"
  by (auto simp: queue_def ready_queue_pop_head_def get_next_def same_pcbs_def get_pcb_def)

section \<open>The queue discipline as an interface\<close>

text \<open>
  What the schedulers of both kernels use of their ready queue. \<open>rep s xs\<close> says that the state \<open>s\<close> holds
  the queue \<open>xs\<close>; \<open>addable x s\<close> that \<open>x\<close> may be entered.
\<close>

locale deque =
  fixes rep :: "'s \<Rightarrow> 'a list \<Rightarrow> bool"
    and addable :: "'a \<Rightarrow> 's \<Rightarrow> bool"
    and add_tail_op :: "'a \<Rightarrow> 's \<Rightarrow> 's option"
    and add_head_op :: "'a \<Rightarrow> 's \<Rightarrow> 's option"
    and pop_op :: "'s \<Rightarrow> ('a \<times> 's) option"
  assumes add_tail_law: "rep s xs \<Longrightarrow> addable x s \<Longrightarrow>
       \<exists>s'. add_tail_op x s = Some s' \<and> rep s' (xs @ [x]) \<and> (\<forall>y. y \<noteq> x \<and> addable y s \<longrightarrow> addable y s')"
    and add_head_law: "rep s xs \<Longrightarrow> addable x s \<Longrightarrow>
       \<exists>s'. add_head_op x s = Some s' \<and> rep s' (x # xs) \<and> (\<forall>y. y \<noteq> x \<and> addable y s \<longrightarrow> addable y s')"
    and pop_law: "rep s (x # xs) \<Longrightarrow> \<exists>s'. pop_op s = Some (x, s') \<and> rep s' xs \<and> addable x s'"
begin

text \<open>One turn of round robin: the first process runs and goes to the end of the queue.\<close>

definition turn :: "'s \<Rightarrow> 's option" where
  "turn s = do { (x, s1) \<leftarrow> pop_op s; add_tail_op x s1 }"

primrec turns :: "nat \<Rightarrow> 's \<Rightarrow> 's option" where
  "turns 0 s = Some s"
| "turns (Suc k) s = Option.bind (turn s) (turns k)"

primrec pops :: "nat \<Rightarrow> 's \<Rightarrow> ('a list \<times> 's) option" where
  "pops 0 s = Some ([], s)"
| "pops (Suc k) s = do { (x, s1) \<leftarrow> pop_op s; (xs, s2) \<leftarrow> pops k s1; Some (x # xs, s2) }"

primrec add_all :: "'a list \<Rightarrow> 's \<Rightarrow> 's option" where
  "add_all [] s = Some s"
| "add_all (x # xs) s = Option.bind (add_tail_op x s) (add_all xs)"

lemma turn_rotates: "rep s (x # xs) \<Longrightarrow> \<exists>s'. turn s = Some s' \<and> rep s' (xs @ [x])"
proof -
  assume "rep s (x # xs)"
  from pop_law [OF this] obtain s1 where s1: "pop_op s = Some (x, s1)" "rep s1 xs" "addable x s1" by blast
  with add_tail_law [OF s1(2,3)] show ?thesis by (auto simp: turn_def)
qed

lemma turns_rotate: "rep s xs \<Longrightarrow> xs \<noteq> [] \<Longrightarrow> \<exists>s'. turns k s = Some s' \<and> rep s' (rotate k xs)"
proof (induction k arbitrary: s xs)
  case (Suc k)
  then obtain x ys where xs: "xs = x # ys" by (cases xs) auto
  with Suc.prems turn_rotates [of s x ys] obtain s1 where "turn s = Some s1" "rep s1 (rotate1 xs)" by auto
  with Suc.IH [of s1 "rotate1 xs"] xs show ?case by (simp add: rotate1_rotate_swap)
qed simp

text \<open>After a full round every process had its turn and the queue is as before.\<close>

lemma full_round: "rep s xs \<Longrightarrow> xs \<noteq> [] \<Longrightarrow> \<exists>s'. turns (length xs) s = Some s' \<and> rep s' xs"
  using turns_rotate [of s xs "length xs"] by simp

lemma pops_order: "rep s (xs @ ys) \<Longrightarrow> \<exists>s'. pops (length xs) s = Some (xs, s') \<and> rep s' ys"
proof (induction xs arbitrary: s)
  case (Cons x xs)
  from pop_law [of s x "xs @ ys"] Cons.prems obtain s1 where "pop_op s = Some (x, s1)" "rep s1 (xs @ ys)" by auto
  with Cons.IH [of s1] show ?case by auto
qed simp

lemma add_all_appends:
  "rep s xs \<Longrightarrow> distinct ys \<Longrightarrow> \<forall>y\<in>set ys. addable y s \<Longrightarrow> \<exists>s'. add_all ys s = Some s' \<and> rep s' (xs @ ys)"
proof (induction ys arbitrary: s xs)
  case (Cons y ys)
  from add_tail_law [of s xs y] Cons.prems obtain s1 where
    s1: "add_tail_op y s = Some s1" "rep s1 (xs @ [y])" "\<forall>z. z \<noteq> y \<and> addable z s \<longrightarrow> addable z s1" by auto
  have "\<forall>z\<in>set ys. addable z s1" using s1(3) Cons.prems by auto
  with s1 Cons.IH [of s1 "xs @ [y]"] Cons.prems(2) show ?case by auto
qed simp

text \<open>First come, first served.\<close>

lemma fifo:
  assumes "rep s []" "distinct ys" "\<forall>y\<in>set ys. addable y s"
  shows "\<exists>s'. do { s1 \<leftarrow> add_all ys s; pops (length ys) s1 } = Some (ys, s') \<and> rep s' []"
proof -
  from add_all_appends [OF assms] obtain s1 where "add_all ys s = Some s1" "rep s1 ys" by auto
  with pops_order [of s1 ys "[]"] show ?thesis by auto
qed

text \<open>A process put back at the head is the next one to run.\<close>

lemma add_head_pop:
  assumes "rep s xs" "addable x s"
  shows "\<exists>s'. do { s1 \<leftarrow> add_head_op x s; pop_op s1 } = Some (x, s') \<and> rep s' xs"
  using add_head_law [OF assms] pop_law by fastforce

end

definition in_queue :: "nat \<Rightarrow> 'a rq_scheme \<Rightarrow> bool" where
  "in_queue a s \<longleftrightarrow> (\<exists>ps. queue s ps \<and> a \<in> set ps)"

definition can_add :: "nat \<Rightarrow> 'a rq_scheme \<Rightarrow> bool" where
  "can_add a s \<longleftrightarrow> nodes s a \<noteq> None \<and> \<not> in_queue a s"

definition pop_node :: "'a rq_scheme \<Rightarrow> (nat \<times> 'a rq_scheme) option" where
  "pop_node s = do { (p, s') \<leftarrow> ready_queue_pop_head s; a \<leftarrow> deref p; Some (a, s') }"

lemma chain_determines: "chain h p ps None \<Longrightarrow> chain h p qs None \<Longrightarrow> ps = qs"
proof (induction ps arbitrary: p qs)
  case Nil
  then show ?case by (cases qs) auto
next
  case (Cons a ps)
  then show ?case by (cases qs) auto
qed

lemma queue_determines: "queue s ps \<Longrightarrow> queue s qs \<Longrightarrow> ps = qs"
  unfolding queue_def using chain_determines by blast

lemma in_queue_iff: "queue s ps \<Longrightarrow> in_queue a s \<longleftrightarrow> a \<in> set ps"
  unfolding in_queue_def using queue_determines by blast

lemma same_pcbs_allocated: "same_pcbs s s' \<Longrightarrow> (nodes s' a = None) = (nodes s a = None)"
  unfolding same_pcbs_def get_pcb_def by (metis option.map_disc_iff)

interpretation rdq: deque queue can_add ready_queue_add_to_tail ready_queue_add_to_head pop_node
proof unfold_locales
  fix s :: "'a rq_scheme" and xs x
  assume q: "queue s xs" and x: "can_add x s"
  then obtain nd where nd: "nodes s x = Some nd" "x \<notin> set xs" by (auto simp: can_add_def in_queue_iff)
  show "\<exists>s'. ready_queue_add_to_tail x s = Some s' \<and> queue s' (xs @ [x]) \<and> (\<forall>y. y \<noteq> x \<and> can_add y s \<longrightarrow> can_add y s')"
    using add_to_tail_queue [OF q nd] q
    by (fastforce simp: can_add_def in_queue_iff same_pcbs_allocated)
  show "\<exists>s'. ready_queue_add_to_head x s = Some s' \<and> queue s' (x # xs) \<and> (\<forall>y. y \<noteq> x \<and> can_add y s \<longrightarrow> can_add y s')"
    using add_to_head_queue [OF q nd] q
    by (fastforce simp: can_add_def in_queue_iff same_pcbs_allocated)
next
  fix s :: "'a rq_scheme" and xs x
  assume q: "queue s (x # xs)"
  from pop_head_queue(2) [OF this] obtain s' where
    s': "ready_queue_pop_head s = Some (Some x, s')" "queue s' xs" "nodes s' = nodes s" by blast
  moreover from q have "nodes s x \<noteq> None" "x \<notin> set xs" by (auto simp: queue_def)
  ultimately show "\<exists>s'. pop_node s = Some (x, s') \<and> queue s' xs \<and> can_add x s'"
    by (auto simp: pop_node_def deref_def can_add_def in_queue_iff)
qed

section \<open>Sorting\<close>

lemma find_pred_none:
  "chain (nodes s) p as None \<Longrightarrow> t \<notin> set (tl as) \<Longrightarrow> find_pred p t s = Some None"
proof (induction as arbitrary: p)
  case Nil
  then show ?case by (subst find_pred.simps) simp
next
  case (Cons a as)
  from Cons.prems obtain nd where nd: "p = Some a" "nodes s a = Some nd" "chain (nodes s) (next nd) as None" by auto
  have "next nd \<noteq> Some t" using nd(3) Cons.prems(2) by (cases as) auto
  moreover have "t \<notin> set (tl as)" using Cons.prems(2) by (cases as) auto
  ultimately show ?case using nd Cons.IH [OF nd(3)]
    by (subst find_pred.simps) (simp add: get_next_def)
qed

lemma find_pred_some:
  "chain (nodes s) p (us @ c # t # ys) None \<Longrightarrow> t \<notin> set (tl (us @ [c])) \<Longrightarrow> find_pred p t s = Some (Some c)"
proof (induction us arbitrary: p)
  case Nil
  then show ?case by (subst find_pred.simps) (auto simp: get_next_def)
next
  case (Cons a us)
  from Cons.prems obtain nd where
    nd: "p = Some a" "nodes s a = Some nd" "chain (nodes s) (next nd) (us @ c # t # ys) None" by auto
  have "next nd \<noteq> Some t" using nd(3) Cons.prems(2) by (cases us) auto
  moreover have "t \<notin> set (tl (us @ [c]))" using Cons.prems(2) by (cases us) auto
  ultimately show ?case using nd Cons.IH [OF nd(3)]
    by (subst find_pred.simps) (simp add: get_next_def)
qed

lemma same_pcbs_nodes:
  assumes "rq.more s' = rq.more s"
    and "\<And>p. map_option pcb (nodes s' p) = map_option pcb (nodes s p)"
  shows "same_pcbs s s'"
  using assms by (simp add: same_pcbs_def get_pcb_def)

lemma swap_with_next_queue:
  assumes "queue s (xs @ a # b # ys)"
  shows "\<exists>s'. ready_queue_swap_with_next a s = Some s' \<and> queue s' (xs @ b # a # ys) \<and> same_pcbs s s'"
proof (cases xs rule: rev_cases)
  case Nil
  with assms obtain na nb where
    nd: "head s = Some a" "nodes s a = Some na" "next na = Some b" "nodes s b = Some nb"
      "chain (nodes s) (next nb) ys None" "distinct (a # b # ys)"
    by (auto simp: queue_def)
  let ?h = "(nodes s)(a \<mapsto> na\<lparr>next := next nb\<rparr>, b \<mapsto> nb\<lparr>next := Some a\<rparr>)"
  let ?s1 = "s\<lparr>nodes := ?h, head := Some b\<rparr>"
  have sw: "swap_head a s = Some ?s1"
    using nd by (simp add: swap_head_def get_next_def set_next_def deref_def)
  have "chain (nodes ?s1) (Some a) (a # ys) None" using nd by simp
  then have "find_pred (Some a) a ?s1 = Some None" by (rule find_pred_none) (use nd(6) in simp)
  with sw nd(1) have "ready_queue_swap_with_next a s = Some ?s1"
    by (simp add: ready_queue_swap_with_next_def Let_def)
  moreover have "queue ?s1 (b # a # ys)" using nd by (simp add: queue_def)
  moreover have "same_pcbs s ?s1" by (rule same_pcbs_nodes) (use nd in auto)
  ultimately show ?thesis using Nil by auto
next
  case (snoc us c)
  with assms have ch: "chain (nodes s) (head s) (us @ c # a # b # ys) None" and d: "distinct (us @ c # a # b # ys)"
    by (simp_all add: queue_def)
  then obtain nc na nb where
    nd: "chain (nodes s) (head s) us (Some c)" "nodes s c = Some nc" "next nc = Some a"
      "nodes s a = Some na" "next na = Some b" "nodes s b = Some nb" "chain (nodes s) (next nb) ys None"
    by (auto simp: chain_append)
  let ?h = "(nodes s)(c \<mapsto> nc\<lparr>next := Some b\<rparr>, b \<mapsto> nb\<lparr>next := Some a\<rparr>, a \<mapsto> na\<lparr>next := next nb\<rparr>)"
  have "head s \<noteq> Some a" using nd(1) d by (cases us) auto
  moreover have "find_pred (head s) a s = Some (Some c)"
    by (rule find_pred_some [OF ch]) (use d in \<open>cases us; auto\<close>)
  ultimately have "ready_queue_swap_with_next a s = Some (s\<lparr>nodes := ?h\<rparr>)"
    using nd d by (simp add: ready_queue_swap_with_next_def get_next_def set_next_def deref_def Let_def)
  moreover have "chain ?h (head s) (us @ c # b # a # ys) None" using nd d by (simp add: chain_append)
  then have "queue (s\<lparr>nodes := ?h\<rparr>) (us @ c # b # a # ys)" using d by (auto simp: queue_def)
  moreover have "same_pcbs s (s\<lparr>nodes := ?h\<rparr>)" by (rule same_pcbs_nodes) (use nd in auto)
  ultimately show ?thesis using snoc by auto
qed

text \<open>What one pass of bubble sort does to a list.\<close>

fun bubble_pass :: "('a \<Rightarrow> 'a \<Rightarrow> bool) \<Rightarrow> 'a list \<Rightarrow> 'a list" where
  "bubble_pass sw (x # y # zs) = (if sw x y then y # bubble_pass sw (x # zs) else x # bubble_pass sw (y # zs))"
| "bubble_pass sw xs = xs"

definition swaps :: "'a rq_scheme \<Rightarrow> nat \<Rightarrow> nat \<Rightarrow> bool" where
  "swaps s a b \<longleftrightarrow> swap_needed_pcb (the (get_pcb a s)) (the (get_pcb b s))"

lemma same_pcbs_swaps: "same_pcbs s s' \<Longrightarrow> swaps s' = swaps s"
  by (simp add: same_pcbs_def swaps_def fun_eq_iff)

lemma sort_inner_queue:
  "queue s (xs @ x # ys) \<Longrightarrow>
   \<exists>srt' s'. sort_inner x srt s = Some (last (bubble_pass (swaps s) (x # ys)), srt', s') \<and>
     queue s' (xs @ bubble_pass (swaps s) (x # ys)) \<and> same_pcbs s s'"
proof (induction ys arbitrary: xs x srt s)
  case Nil
  then have "get_next x s = Some None" by (auto simp: queue_def chain_append get_next_def)
  with Nil show ?case by (subst sort_inner.simps) auto
next
  case (Cons y ys)
  from Cons.prems obtain nx ny where n: "nodes s x = Some nx" "next nx = Some y" "nodes s y = Some ny"
    by (auto simp: queue_def chain_append)
  then have sw: "swap_needed x s = Some (swaps s x y)" "get_next x s = Some (Some y)"
    by (simp_all add: swap_needed_def get_next_def get_pcb_def swaps_def)
  show ?case
  proof (cases "swaps s x y")
    case True
    from swap_with_next_queue [OF Cons.prems] obtain s1 where
      s1: "ready_queue_swap_with_next x s = Some s1" "queue s1 ((xs @ [y]) @ x # ys)" "same_pcbs s s1" by auto
    from Cons.IH [OF s1(2), of False] same_pcbs_swaps [OF s1(3)] obtain srt' s' where
      "sort_inner x False s1 = Some (last (bubble_pass (swaps s) (x # ys)), srt', s')"
      "queue s' ((xs @ [y]) @ bubble_pass (swaps s) (x # ys))" "same_pcbs s1 s'" by auto
    moreover have "bubble_pass (swaps s) (x # ys) \<noteq> []" by (cases ys) auto
    ultimately show ?thesis using True sw s1 same_pcbs_trans
      by (subst sort_inner.simps) (auto split: if_splits)
  next
    case False
    have "queue s ((xs @ [x]) @ y # ys)" using Cons.prems by simp
    from Cons.IH [OF this, of srt] obtain srt' s' where
      "sort_inner y srt s = Some (last (bubble_pass (swaps s) (y # ys)), srt', s')"
      "queue s' ((xs @ [x]) @ bubble_pass (swaps s) (y # ys))" "same_pcbs s s'" by auto
    moreover have "bubble_pass (swaps s) (y # ys) \<noteq> []" by (cases ys) auto
    ultimately show ?thesis using False sw by (subst sort_inner.simps) auto
  qed
qed

lemma sort_outer_at_end: "get_next x s = Some None \<Longrightarrow> sort_outer x s = Some s"
  by (subst sort_outer.simps, subst sort_inner.simps) simp

lemma bubble_pass_Nil [simp]: "bubble_pass sw xs = [] \<longleftrightarrow> xs = []"
  by (cases "(sw, xs)" rule: bubble_pass.cases) auto

lemma queue_last_next: "queue s ps \<Longrightarrow> ps \<noteq> [] \<Longrightarrow> get_next (last ps) s = Some None"
  by (cases ps rule: rev_cases) (auto simp: queue_def chain_append get_next_def)

lemma sort_queue:
  assumes "queue s ps"
  shows "\<exists>s'. sort_ready_queue s = Some s' \<and> queue s' (bubble_pass (swaps s) ps) \<and> same_pcbs s s'"
proof (cases ps)
  case Nil
  with assms show ?thesis by (auto simp: sort_ready_queue_def queue_def)
next
  case (Cons x xs)
  with assms have h: "head s = Some x" by (simp add: queue_def)
  from sort_inner_queue [of s "[]" x xs True] assms Cons obtain srt s' where
    s': "sort_inner x True s = Some (last (bubble_pass (swaps s) ps), srt, s')"
      "queue s' (bubble_pass (swaps s) ps)" "same_pcbs s s'" by auto
  have "sort_outer (last (bubble_pass (swaps s) ps)) s' = Some s'"
    using queue_last_next [OF s'(2)] Cons by (intro sort_outer_at_end) simp
  with s' have "sort_outer x s = Some s'" by (subst sort_outer.simps) simp
  with s' h show ?thesis by (auto simp: sort_ready_queue_def)
qed

lemma mset_bubble_pass [simp]: "mset (bubble_pass sw xs) = mset xs"
  by (induction sw xs rule: bubble_pass.induct) auto

text \<open>The order the queue is meant to be in: processes with priority first, then shorter jobs.\<close>

definition job_key :: "PCB \<Rightarrow> bool \<times> int" where
  "job_key b = (\<not> priority b, job_length_score b)"

lemma swap_needed_key: "swap_needed_pcb c n \<longleftrightarrow> job_key n < job_key c"
  by (auto simp: swap_needed_pcb_def job_key_def)

definition node_key :: "'a rq_scheme \<Rightarrow> nat \<Rightarrow> bool \<times> int" where
  "node_key s a = job_key (the (get_pcb a s))"

lemma swaps_key: "swaps s a b \<longleftrightarrow> node_key s b < node_key s a"
  by (simp add: swaps_def node_key_def swap_needed_key)

lemma bubble_pass_last_max:
  fixes key :: "'a \<Rightarrow> 'k :: linorder"
  shows "xs \<noteq> [] \<Longrightarrow> x \<in> set xs \<Longrightarrow> key x \<le> key (last (bubble_pass (\<lambda>a b. key b < key a) xs))"
proof (induction "\<lambda>a b. key b < key a" xs arbitrary: x rule: bubble_pass.induct)
  case (1 a b zs)
  then show ?case by (auto intro: order_trans less_imp_le dest: leI)
qed auto

lemma bubble_pass_sorted:
  fixes key :: "'a \<Rightarrow> 'k :: linorder"
  assumes "sorted (map key xs)"
  shows "bubble_pass (\<lambda>a b. key b < key a) xs = xs"
  using assms by (induction "\<lambda>a b. key b < key a" xs rule: bubble_pass.induct) auto

section \<open>Scores\<close>

definition score :: "'a rq_scheme \<Rightarrow> nat \<Rightarrow> int" where
  "score s a = job_length_score (the (get_pcb a s))"

definition age :: "PCB \<Rightarrow> PCB" where
  "age b = (if job_length_score b > 0 then b\<lparr>job_length_score := job_length_score b - 1\<rparr> else b)"

lemma decrement_loop_chain:
  "chain (nodes s) p ps None \<Longrightarrow> distinct ps \<Longrightarrow>
   \<exists>s'. decrement_loop p s = Some s' \<and> head s' = head s \<and> rq.more s' = rq.more s \<and>
        (\<forall>a. nodes s' a = (if a \<in> set ps then map_option (\<lambda>nd. nd\<lparr>pcb := age (pcb nd)\<rparr>) (nodes s a) else nodes s a))"
proof (induction ps arbitrary: p s)
  case Nil
  then show ?case by (subst decrement_loop.simps) auto
next
  case (Cons a ps)
  from Cons.prems obtain nd where nd: "p = Some a" "nodes s a = Some nd" "chain (nodes s) (next nd) ps None" by auto
  let ?s1 = "s\<lparr>nodes := (nodes s)(a \<mapsto> nd\<lparr>pcb := age (pcb nd)\<rparr>)\<rparr>"
  have "chain (nodes ?s1) (next nd) ps None" using nd Cons.prems(2) by simp
  from Cons.IH [OF this] Cons.prems(2) obtain s' where
    s': "decrement_loop (next nd) ?s1 = Some s'" "head s' = head s" "rq.more s' = rq.more s"
      "\<And>b. nodes s' b = (if b \<in> set ps then map_option (\<lambda>nd. nd\<lparr>pcb := age (pcb nd)\<rparr>) (nodes ?s1 b) else nodes ?s1 b)"
    by auto
  have "decrement_loop p s = Some s'" using nd(1,2) s'(1)
    by (subst decrement_loop.simps) (simp add: upd_pcb_def get_next_def age_def [abs_def])
  with s' nd(2) Cons.prems(2) show ?case by (intro exI [of _ s']) auto
qed

lemma chain_same_next:
  "(\<And>a. a \<in> set ps \<Longrightarrow> map_option next (h' a) = map_option next (h a)) \<Longrightarrow> chain h p ps e \<Longrightarrow> chain h' p ps e"
proof (induction ps arbitrary: p)
  case (Cons a ps)
  from Cons.prems(2) obtain nd where nd: "p = Some a" "h a = Some nd" "chain h (next nd) ps e" by auto
  from Cons.prems(1) [of a] nd(2) obtain nd' where "h' a = Some nd'" "next nd' = next nd" by auto
  with Cons.IH [OF _ nd(3)] Cons.prems(1) nd(1) show ?case by auto
qed simp

lemma decrement_queue:
  assumes "queue s ps"
  shows "\<exists>s'. ready_queue_decrement_job_length_score s = Some s' \<and> queue s' ps \<and> rq.more s' = rq.more s \<and>
     (\<forall>a. get_pcb a s' = (if a \<in> set ps then map_option age (get_pcb a s) else get_pcb a s))"
proof -
  from decrement_loop_chain [of s "head s" ps] assms obtain s' where
    s': "decrement_loop (head s) s = Some s'" "head s' = head s" "rq.more s' = rq.more s"
      "\<And>a. nodes s' a = (if a \<in> set ps then map_option (\<lambda>nd. nd\<lparr>pcb := age (pcb nd)\<rparr>) (nodes s a) else nodes s a)"
    by (auto simp: queue_def)
  have "chain (nodes s') (head s) ps None"
    by (rule chain_same_next [where h = "nodes s"]) (use s'(4) assms in \<open>auto simp: queue_def option.map_comp comp_def\<close>)
  then have "queue s' ps" using assms s'(2) by (simp add: queue_def)
  with s' show ?thesis
    by (auto simp: ready_queue_decrement_job_length_score_def get_pcb_def option.map_comp comp_def)
qed

lemma shortest_loop_chain:
  "chain (nodes s) p ps None \<Longrightarrow> shortest_loop p m s = Some (foldl min m (map (score s) ps))"
proof (induction ps arbitrary: p m)
  case Nil
  then show ?case by (subst shortest_loop.simps) simp
next
  case (Cons a ps)
  from Cons.prems obtain nd where nd: "p = Some a" "nodes s a = Some nd" "chain (nodes s) (next nd) ps None" by auto
  then have sc: "score s a = job_length_score (pcb nd)" by (simp add: score_def get_pcb_def)
  have "(if job_length_score (pcb nd) < m then job_length_score (pcb nd) else m) = min m (score s a)"
    using sc by auto
  with nd Cons.IH [OF nd(3), of "min m (score s a)"] show ?case
    by (subst shortest_loop.simps) (simp add: get_pcb_def get_next_def)
qed

lemma foldl_min: "foldl min (m :: int) xs = Min (insert m (set xs))"
proof (induction xs arbitrary: m)
  case (Cons x xs)
  have "foldl min m (x # xs) = Min (insert (min m x) (set xs))" using Cons by simp
  also have "\<dots> = Min (insert m (insert x (set xs)))"
    by (cases "set xs = {}") (simp_all add: min.assoc)
  finally show ?case by (simp add: insert_commute)
qed simp

lemma promote_loop_chain:
  "chain (nodes s) (Some c) (c # xs @ n # ys) None \<Longrightarrow> \<forall>a\<in>set xs. score s a \<noteq> k \<Longrightarrow> score s n = k \<Longrightarrow>
   promote_loop c k s = Some (last (c # xs))"
proof (induction xs arbitrary: c)
  case Nil
  then show ?case by (subst promote_loop.simps) (auto simp: get_next_def get_pcb_def score_def)
next
  case (Cons x xs)
  from Cons.prems(1) obtain nc nx where nd: "nodes s c = Some nc" "next nc = Some x" "nodes s x = Some nx"
    "chain (nodes s) (Some x) (x # xs @ n # ys) None" by auto
  from Cons.prems(2) have "score s x \<noteq> k" by simp
  then have "job_length_score (pcb nx) \<noteq> k" using nd(3) by (simp add: score_def get_pcb_def)
  with nd Cons.IH [OF nd(4)] Cons.prems show ?case
    by (subst promote_loop.simps) (simp add: get_next_def get_pcb_def)
qed

lemma promote_queue:
  assumes "queue s (h # xs @ n # ys)" "\<forall>a\<in>set (h # xs). score s a \<noteq> k" "score s n = k"
  shows "\<exists>s'. ready_queue_promote k s = Some s' \<and> queue s' (n # h # xs @ ys) \<and> same_pcbs s s'"
proof -
  define l where "l = last (h # xs)"
  have split: "h # xs = butlast (h # xs) @ [l]" by (simp add: l_def)
  let ?us = "butlast (h # xs)"
  have "chain (nodes s) (head s) (?us @ [l] @ n # ys) None"
    using assms(1) split unfolding queue_def by (metis append_Cons append_assoc)
  then obtain ln nn where
    nd: "chain (nodes s) (head s) ?us (Some l)" "nodes s l = Some ln" "next ln = Some n"
      "nodes s n = Some nn" "chain (nodes s) (next nn) ys None" by (auto simp: chain_append)
  have d: "distinct (?us @ [l] @ n # ys)" using assms(1) split unfolding queue_def by (metis append_Cons append_assoc)
  have hd: "head s = Some h" "nodes s h \<noteq> None" using assms(1) by (auto simp: queue_def)
  have "job_length_score (pcb nn) = k" using assms(3) nd(4) by (simp add: score_def get_pcb_def)
  moreover have "promote_loop h k s = Some l"
    using promote_loop_chain [of s h xs n ys k] assms hd by (simp add: queue_def l_def)
  moreover obtain hn where "nodes s h = Some hn" "job_length_score (pcb hn) \<noteq> k"
    using assms(2) hd(2) by (auto simp: score_def get_pcb_def)
  moreover let ?h = "(nodes s)(l \<mapsto> ln\<lparr>next := next nn\<rparr>, n \<mapsto> nn\<lparr>next := Some h\<rparr>)"
  let ?s' = "s\<lparr>nodes := ?h, head := Some n\<rparr>"
  note calculation
  moreover have "l \<noteq> n" using d by simp
  ultimately have "ready_queue_promote k s = Some ?s'"
    using hd nd by (simp add: ready_queue_promote_def deref_def get_pcb_def get_next_def set_next_def)
  moreover have "chain ?h (Some h) (?us @ [l] @ ys) None"
    using nd d hd(1) by (simp add: chain_append)
  then have "chain ?h (Some h) (h # xs @ ys) None" using split by (metis append_Cons append_assoc)
  moreover have "distinct (n # h # xs @ ys)" using assms(1) by (auto simp: queue_def)
  ultimately have "ready_queue_promote k s = Some ?s' \<and> queue ?s' (n # h # xs @ ys)" by (auto simp: queue_def)
  moreover have "same_pcbs s ?s'" by (rule same_pcbs_nodes) (use nd \<open>l \<noteq> n\<close> in auto)
  ultimately show ?thesis by blast
qed

lemma promote_shortest_exists:
  assumes "queue s ps" "ps \<noteq> []" "\<forall>a\<in>set ps. score s a \<le> MAX_INT"
  shows "\<exists>m s' xs n ys. ready_queue_get_shortest_job_score s = Some m \<and> m = Min (score s ` set ps) \<and>
     ready_queue_promote m s = Some s' \<and> ps = xs @ n # ys \<and> score s n = m \<and>
     (\<forall>a\<in>set xs. score s a \<noteq> m) \<and> queue s' (n # xs @ ys) \<and> same_pcbs s s'"
proof -
  define m where "m = Min (score s ` set ps)"
  have mem: "m \<in> score s ` set ps" using assms(2) by (simp add: m_def)
  have "foldl min MAX_INT (map (score s) ps) = min MAX_INT m"
    using assms(2) by (simp add: foldl_min m_def)
  also have "\<dots> = m" using assms(3) mem by auto
  finally have short: "ready_queue_get_shortest_job_score s = Some m"
    using shortest_loop_chain [of s "head s" ps MAX_INT] assms(1)
    by (simp add: ready_queue_get_shortest_job_score_def queue_def)
  from mem have "\<exists>a\<in>set ps. score s a = m" by auto
  from split_list_first_prop [OF this] obtain xs n ys where
    ps: "ps = xs @ n # ys" "score s n = m" "\<forall>a\<in>set xs. score s a \<noteq> m" by blast
  have "\<exists>s'. ready_queue_promote m s = Some s' \<and> queue s' (n # xs @ ys) \<and> same_pcbs s s'"
  proof (cases xs)
    case Nil
    with ps assms(1) have "ready_queue_promote m s = Some s"
      by (auto simp: ready_queue_promote_def deref_def queue_def get_pcb_def score_def)
    with Nil ps(1) assms(1) show ?thesis by auto
  next
    case (Cons h hs)
    with promote_queue [of s h hs n ys m] ps assms(1) show ?thesis by simp
  qed
  with short ps m_def show ?thesis by blast
qed

section \<open>Properties\<close>

text \<open>A queue of three processes, at the addresses 1, 2 and 3.\<close>

definition example_pcb :: "int \<Rightarrow> int \<Rightarrow> PCB" where
  "example_pcb p sc = \<lparr>priority = False, pid = p, curr_page = 0, curr_line = 0, pagetable = Map.empty, num_pages = 0,
                       job_length_score = sc, fp = None\<rparr>"

definition example_queue :: "int \<Rightarrow> int \<Rightarrow> int \<Rightarrow> rq" where
  "example_queue i j k =
     \<lparr>nodes = [1 \<mapsto> \<lparr>pcb = example_pcb 1 i, next = Some 2\<rparr>, 2 \<mapsto> \<lparr>pcb = example_pcb 2 j, next = Some 3\<rparr>,
               3 \<mapsto> \<lparr>pcb = example_pcb 3 k, next = None\<rparr>, 4 \<mapsto> \<lparr>pcb = example_pcb 4 0, next = None\<rparr>],
      head = Some 1\<rparr>"

lemma example_queue_ok: "queue (example_queue i j k) [1, 2, 3]"
  by (simp add: queue_def example_queue_def)

lemma example_scores:
  "score (example_queue i j k) (Suc 0) = i" "score (example_queue i j k) 2 = j" "score (example_queue i j k) 3 = k"
  by (simp_all add: score_def get_pcb_def example_queue_def example_pcb_def)

text \<open>
  C15. The pointer operations on the ready queue implement the operations on the list of its nodes:
  adding at the tail appends, adding at the head prepends, popping removes the first node (and
  returns a null pointer exactly when the queue is empty), and no process is changed.
\<close>

theorem ready_queue_refines_list:
  assumes "queue s ps" "nodes s a \<noteq> None" "a \<notin> set ps"
  shows "(\<exists>s1. ready_queue_add_to_tail a s = Some s1 \<and> queue s1 (ps @ [a]) \<and> same_pcbs s s1) \<and>
    (\<exists>s2. ready_queue_add_to_head a s = Some s2 \<and> queue s2 (a # ps) \<and> same_pcbs s s2) \<and>
    (\<exists>s3. ready_queue_pop_head s = Some ((case ps of [] \<Rightarrow> None | p # _ \<Rightarrow> Some p), s3) \<and>
          queue s3 (tl ps) \<and> same_pcbs s s3) \<and>
    is_ready_empty s = (ps = [])"
proof -
  from assms(2) obtain nd where nd: "nodes s a = Some nd" by blast
  have "\<exists>s3. ready_queue_pop_head s = Some ((case ps of [] \<Rightarrow> None | p # _ \<Rightarrow> Some p), s3) \<and>
          queue s3 (tl ps) \<and> same_pcbs s s3"
    using pop_head_queue assms(1) by (cases ps) fastforce+
  moreover have "is_ready_empty s = (ps = [])"
    using assms(1) by (cases ps) (auto simp: is_ready_empty_def queue_def)
  ultimately show ?thesis
    using add_to_tail_queue [OF assms(1) nd assms(3)] add_to_head_queue [OF assms(1) nd assms(3)] by blast
qed

theorem ready_queue_refines_list_witness:
  "\<exists>s1. ready_queue_add_to_tail 4 (example_queue 3 2 1) = Some s1 \<and> queue s1 [1, 2, 3, 4]"
proof -
  have "nodes (example_queue 3 2 1) 4 \<noteq> None" by (simp add: example_queue_def)
  with ready_queue_refines_list [OF example_queue_ok this] show ?thesis by auto
qed

text \<open>
  \<^verbatim>\<open>sort_ready_queue\<close> terminates and performs exactly one pass of bubble sort: the processes are the
  same, the one with the greatest key (no priority, longest job) ends up last, and a queue that is
  already in order stays as it is.
\<close>

theorem sort_ready_queue_is_one_pass:
  assumes "queue s ps"
  shows "\<exists>s' qs. sort_ready_queue s = Some s' \<and> queue s' qs \<and> same_pcbs s s' \<and> mset qs = mset ps \<and>
     qs = bubble_pass (\<lambda>a b. node_key s b < node_key s a) ps \<and>
     (\<forall>a\<in>set ps. node_key s a \<le> node_key s (last qs)) \<and>
     (sorted (map (node_key s) ps) \<longrightarrow> qs = ps)"
proof -
  have sw: "swaps s = (\<lambda>a b. node_key s b < node_key s a)" by (simp add: swaps_key fun_eq_iff)
  from sort_queue [OF assms] obtain s' where
    s': "sort_ready_queue s = Some s'" "queue s' (bubble_pass (\<lambda>a b. node_key s b < node_key s a) ps)" "same_pcbs s s'"
    unfolding sw by blast
  moreover have "node_key s a \<le> node_key s (last (bubble_pass (\<lambda>a b. node_key s b < node_key s a) ps))"
    if "a \<in> set ps" for a
    using that by (intro bubble_pass_last_max) auto
  ultimately show ?thesis using bubble_pass_sorted [of "node_key s" ps] by (intro exI [of _ s'] exI) auto
qed

theorem sort_ready_queue_is_one_pass_witness:
  "\<exists>s'. sort_ready_queue (example_queue 3 2 1) = Some s' \<and> queue s' [2, 3, 1]"
  using sort_ready_queue_is_one_pass [OF example_queue_ok, of 3 2 1]
  by (auto simp: node_key_def get_pcb_def example_queue_def example_pcb_def job_key_def)

text \<open>
  One pass is not enough to sort: with three processes of lengths 3, 2 and 1 in the queue,
  \<^verbatim>\<open>ready_queue_pop_shortest_job\<close> returns the process of length 2, not the shortest one.
\<close>

theorem pop_shortest_job_is_not_shortest:
  "\<exists>s'. ready_queue_pop_shortest_job (example_queue 3 2 1) = Some (Some 2, s') \<and> queue s' [3, 1] \<and>
        score s' 3 < score (example_queue 3 2 1) 2"
proof -
  let ?s = "example_queue 3 2 1"
  from sort_queue [OF example_queue_ok, of 3 2 1] obtain s1 where
    s1: "sort_ready_queue ?s = Some s1" "queue s1 (bubble_pass (swaps ?s) [1, 2, 3])" "same_pcbs ?s s1" by blast
  have "bubble_pass (swaps ?s) [1, 2, 3] = [2, 3, 1]"
    by (simp add: swaps_def swap_needed_pcb_def get_pcb_def example_queue_def example_pcb_def)
  with s1(2) have "queue s1 (2 # [3, 1])" by simp
  from pop_head_queue(2) [OF this] obtain s2 where
    s2: "ready_queue_pop_head s1 = Some (Some 2, s2)" "queue s2 [3, 1]" "same_pcbs s1 s2" by blast
  have "score s2 3 = score ?s 3" using s1(3) s2(3) by (simp add: score_def same_pcbs_def)
  with s1(1) s2 show ?thesis by (simp add: ready_queue_pop_shortest_job_def example_scores)
qed

text \<open>
  With the shortest score as its argument, \<^verbatim>\<open>ready_queue_promote\<close> moves the first process with that
  score to the head of the queue and keeps the others in their order.
\<close>

theorem promote_shortest_to_head:
  assumes "queue s ps" "ps \<noteq> []" "\<forall>a\<in>set ps. score s a \<le> MAX_INT"
  shows "\<exists>m s' xs n ys. ready_queue_get_shortest_job_score s = Some m \<and> m = Min (score s ` set ps) \<and>
     ready_queue_promote m s = Some s' \<and> ps = xs @ n # ys \<and> score s n = m \<and>
     (\<forall>a\<in>set xs. score s a \<noteq> m) \<and> queue s' (n # xs @ ys) \<and> same_pcbs s s'"
  by (rule promote_shortest_exists [OF assms])

theorem promote_shortest_to_head_witness:
  "\<exists>s'. ready_queue_promote 1 (example_queue 3 1 2) = Some s' \<and> queue s' [2, 1, 3]"
proof -
  have "\<forall>a\<in>set [1, 2, 3]. score (example_queue 3 1 2) a \<le> MAX_INT" by (simp add: example_scores MAX_INT_def)
  from promote_shortest_to_head [OF example_queue_ok _ this] obtain m s' xs n ys where
    *: "m = Min (score (example_queue 3 1 2) ` set [1, 2, 3])" "ready_queue_promote m (example_queue 3 1 2) = Some s'"
      "[1, 2, 3] = xs @ n # ys" "score (example_queue 3 1 2) n = m" "queue s' (n # xs @ ys)" by blast
  from *(1) have m: "m = 1" by (simp add: example_scores)
  from *(3) have "n \<in> set [1, 2, 3]" by (metis in_set_conv_decomp)
  then have "n = 1 \<or> n = 2 \<or> n = 3" by simp
  with *(4) m have n: "n = 2" by (auto simp: example_scores)
  have "xs = [1] \<and> ys = [3]" using *(3) n by (auto simp: Cons_eq_append_conv)
  with * m n show ?thesis by auto
qed

end
