(* ===== verification/Kernel_List.thy ===== *)
theory Kernel_List
  imports Ready_Queue
begin

text \<open>
  The doubly linked list of the file system (\<^verbatim>\<open>a3/fs/list.c\<close>, \<^verbatim>\<open>a3/fs/list.h\<close>): a list has two header
  elements, before its first and after its last element. Elements live in an explicit heap; a pointer is
  \<^term>\<open>None\<close> when it is null, and an access through a null or dangling pointer makes the whole operation
  \<^term>\<open>None\<close>. A list is given by the addresses of its two headers and is never null, so the assertions that say
  so have no counterpart. The comparison function reads the structures around the elements, which no operation here
  changes: it is a parameter, a function of two addresses.
\<close>

section \<open>Elements\<close>

record list_elem =
  l_prev :: "nat option"
  l_next :: "nat option"

record klist =
  head_at :: nat
  tail_at :: nat

record lheap =
  elems :: "nat \<Rightarrow> list_elem option"
  lcon :: console

type_synonym ptr = "nat option"

definition rd_prev :: "ptr \<Rightarrow> lheap \<Rightarrow> ptr option" where
  "rd_prev p h = do { a \<leftarrow> p; e \<leftarrow> elems h a; Some (l_prev e) }"

definition rd_next :: "ptr \<Rightarrow> lheap \<Rightarrow> ptr option" where
  "rd_next p h = do { a \<leftarrow> p; e \<leftarrow> elems h a; Some (l_next e) }"

definition wr_prev :: "ptr \<Rightarrow> ptr \<Rightarrow> lheap \<Rightarrow> lheap option" where
  "wr_prev p v h = do { a \<leftarrow> p; e \<leftarrow> elems h a; Some (h\<lparr>elems := (elems h)(a \<mapsto> e\<lparr>l_prev := v\<rparr>)\<rparr>) }"

definition wr_next :: "ptr \<Rightarrow> ptr \<Rightarrow> lheap \<Rightarrow> lheap option" where
  "wr_next p v h = do { a \<leftarrow> p; e \<leftarrow> elems h a; Some (h\<lparr>elems := (elems h)(a \<mapsto> e\<lparr>l_next := v\<rparr>)\<rparr>) }"

definition l_assert :: "string \<Rightarrow> bool \<Rightarrow> lheap \<Rightarrow> lheap" where
  "l_assert fn c h = h\<lparr>lcon := c_assert fn c (lcon h)\<rparr>"

definition is_head :: "ptr \<Rightarrow> lheap \<Rightarrow> bool option" where
  "is_head elem h =
     (if elem = None then Some False
      else do { p \<leftarrow> rd_prev elem h; n \<leftarrow> rd_next elem h; Some (p = None \<and> n \<noteq> None) })"

definition is_interior :: "ptr \<Rightarrow> lheap \<Rightarrow> bool option" where
  "is_interior elem h =
     (if elem = None then Some False
      else do { p \<leftarrow> rd_prev elem h; n \<leftarrow> rd_next elem h; Some (p \<noteq> None \<and> n \<noteq> None) })"

definition is_tail :: "ptr \<Rightarrow> lheap \<Rightarrow> bool option" where
  "is_tail elem h =
     (if elem = None then Some False
      else do { p \<leftarrow> rd_prev elem h; n \<leftarrow> rd_next elem h; Some (p \<noteq> None \<and> n = None) })"

section \<open>Traversal\<close>

definition llist_init :: "klist \<Rightarrow> lheap \<Rightarrow> lheap option" where
  "llist_init l h =
     do { h1 \<leftarrow> wr_prev (Some (head_at l)) None h;
          h2 \<leftarrow> wr_next (Some (head_at l)) (Some (tail_at l)) h1;
          h3 \<leftarrow> wr_prev (Some (tail_at l)) (Some (head_at l)) h2;
          wr_next (Some (tail_at l)) None h3 }"

definition list_begin :: "klist \<Rightarrow> lheap \<Rightarrow> ptr option" where
  "list_begin l h = rd_next (Some (head_at l)) h"

definition list_next :: "ptr \<Rightarrow> lheap \<Rightarrow> (ptr \<times> lheap) option" where
  "list_next elem h =
     do { a \<leftarrow> is_head elem h; b \<leftarrow> is_interior elem h;
          let h1 = l_assert ''list_next'' (a \<or> b) h;
          n \<leftarrow> rd_next elem h1;
          Some (n, h1) }"

definition list_end :: "klist \<Rightarrow> ptr" where
  "list_end l = Some (tail_at l)"

definition list_rbegin :: "klist \<Rightarrow> lheap \<Rightarrow> ptr option" where
  "list_rbegin l h = rd_prev (Some (tail_at l)) h"

definition list_prev :: "ptr \<Rightarrow> lheap \<Rightarrow> (ptr \<times> lheap) option" where
  "list_prev elem h =
     do { a \<leftarrow> is_interior elem h; b \<leftarrow> is_tail elem h;
          let h1 = l_assert ''list_prev'' (a \<or> b) h;
          p \<leftarrow> rd_prev elem h1;
          Some (p, h1) }"

definition list_rend :: "klist \<Rightarrow> ptr" where
  "list_rend l = Some (head_at l)"

definition list_head :: "klist \<Rightarrow> ptr" where
  "list_head l = Some (head_at l)"

definition list_tail :: "klist \<Rightarrow> ptr" where
  "list_tail l = Some (tail_at l)"

definition list_empty :: "klist \<Rightarrow> lheap \<Rightarrow> bool option" where
  "list_empty l h = do { b \<leftarrow> list_begin l h; Some (b = list_end l) }"

partial_function (option) size_loop :: "klist \<Rightarrow> ptr \<Rightarrow> nat \<Rightarrow> lheap \<Rightarrow> (nat \<times> lheap) option" where
  "size_loop l e cnt h =
     (if e = list_end l then Some (cnt, h)
      else do { (e', h1) \<leftarrow> list_next e h; size_loop l e' (size_add cnt 1) h1 })"

declare size_loop.simps [code]

definition list_size :: "klist \<Rightarrow> lheap \<Rightarrow> (nat \<times> lheap) option" where
  "list_size l h = do { b \<leftarrow> list_begin l h; size_loop l b 0 h }"

section \<open>Insertion and removal\<close>

definition list_insert :: "ptr \<Rightarrow> ptr \<Rightarrow> lheap \<Rightarrow> lheap option" where
  "list_insert before elem h =
     do { a \<leftarrow> is_interior before h; b \<leftarrow> is_tail before h;
          let h1 = l_assert ''list_insert'' (elem \<noteq> None) (l_assert ''list_insert'' (a \<or> b) h);
          p \<leftarrow> rd_prev before h1;
          h2 \<leftarrow> wr_prev elem p h1;
          h3 \<leftarrow> wr_next elem before h2;
          p' \<leftarrow> rd_prev before h3;
          h4 \<leftarrow> wr_next p' elem h3;
          wr_prev before elem h4 }"

definition list_splice :: "ptr \<Rightarrow> ptr \<Rightarrow> ptr \<Rightarrow> lheap \<Rightarrow> lheap option" where
  "list_splice before first last0 h =
     do { a \<leftarrow> is_interior before h; b \<leftarrow> is_tail before h;
          let h1 = l_assert ''list_splice'' (a \<or> b) h;
          if first = last0 then Some h1
          else do {
            (last, h2) \<leftarrow> list_prev last0 h1;
            c \<leftarrow> is_interior first h2;
            d \<leftarrow> is_interior last h2;
            let h3 = l_assert ''list_splice'' d (l_assert ''list_splice'' c h2);
            fp \<leftarrow> rd_prev first h3; ln \<leftarrow> rd_next last h3;
            h4 \<leftarrow> wr_next fp ln h3;
            ln' \<leftarrow> rd_next last h4; fp' \<leftarrow> rd_prev first h4;
            h5 \<leftarrow> wr_prev ln' fp' h4;
            bp \<leftarrow> rd_prev before h5;
            h6 \<leftarrow> wr_prev first bp h5;
            h7 \<leftarrow> wr_next last before h6;
            bp' \<leftarrow> rd_prev before h7;
            h8 \<leftarrow> wr_next bp' first h7;
            wr_prev before last h8 } }"

definition list_push_front :: "klist \<Rightarrow> ptr \<Rightarrow> lheap \<Rightarrow> lheap option" where
  "list_push_front l elem h = do { b \<leftarrow> list_begin l h; list_insert b elem h }"

definition list_push_back :: "klist \<Rightarrow> ptr \<Rightarrow> lheap \<Rightarrow> lheap option" where
  "list_push_back l elem h = list_insert (list_end l) elem h"

definition list_remove :: "ptr \<Rightarrow> lheap \<Rightarrow> (ptr \<times> lheap) option" where
  "list_remove elem h =
     do { a \<leftarrow> is_interior elem h;
          let h1 = l_assert ''list_remove'' a h;
          p \<leftarrow> rd_prev elem h1; n \<leftarrow> rd_next elem h1;
          h2 \<leftarrow> wr_next p n h1;
          n' \<leftarrow> rd_next elem h2; p' \<leftarrow> rd_prev elem h2;
          h3 \<leftarrow> wr_prev n' p' h2;
          r \<leftarrow> rd_next elem h3;
          Some (r, h3) }"

definition list_front :: "klist \<Rightarrow> lheap \<Rightarrow> (ptr \<times> lheap) option" where
  "list_front l h =
     do { b \<leftarrow> list_empty l h;
          let h1 = l_assert ''list_front'' (\<not> b) h;
          p \<leftarrow> rd_next (Some (head_at l)) h1;
          Some (p, h1) }"

definition list_back :: "klist \<Rightarrow> lheap \<Rightarrow> (ptr \<times> lheap) option" where
  "list_back l h =
     do { b \<leftarrow> list_empty l h;
          let h1 = l_assert ''list_back'' (\<not> b) h;
          p \<leftarrow> rd_prev (Some (tail_at l)) h1;
          Some (p, h1) }"

definition list_pop_front :: "klist \<Rightarrow> lheap \<Rightarrow> (ptr \<times> lheap) option" where
  "list_pop_front l h = do { (front, h1) \<leftarrow> list_front l h; (_, h2) \<leftarrow> list_remove front h1; Some (front, h2) }"

definition list_pop_back :: "klist \<Rightarrow> lheap \<Rightarrow> (ptr \<times> lheap) option" where
  "list_pop_back l h = do { (back, h1) \<leftarrow> list_back l h; (_, h2) \<leftarrow> list_remove back h1; Some (back, h2) }"

section \<open>Reversal\<close>

datatype link = Prev | Next

definition rd_link :: "link \<Rightarrow> ptr \<Rightarrow> lheap \<Rightarrow> ptr option" where
  "rd_link f p h = (case f of Prev \<Rightarrow> rd_prev p h | Next \<Rightarrow> rd_next p h)"

definition wr_link :: "link \<Rightarrow> ptr \<Rightarrow> ptr \<Rightarrow> lheap \<Rightarrow> lheap option" where
  "wr_link f p v h = (case f of Prev \<Rightarrow> wr_prev p v h | Next \<Rightarrow> wr_next p v h)"

text \<open>\<^verbatim>\<open>swap\<close> takes the addresses of two links: a link of an element each.\<close>

definition swap_links :: "ptr \<times> link \<Rightarrow> ptr \<times> link \<Rightarrow> lheap \<Rightarrow> lheap option" where
  "swap_links a b h =
     do { t \<leftarrow> rd_link (snd a) (fst a) h;
          u \<leftarrow> rd_link (snd b) (fst b) h;
          h1 \<leftarrow> wr_link (snd a) (fst a) u h;
          wr_link (snd b) (fst b) t h1 }"

partial_function (option) reverse_loop :: "klist \<Rightarrow> ptr \<Rightarrow> lheap \<Rightarrow> lheap option" where
  "reverse_loop l e h =
     (if e = list_end l then Some h
      else do { h1 \<leftarrow> swap_links (e, Prev) (e, Next) h;
                e' \<leftarrow> rd_prev e h1;
                reverse_loop l e' h1 })"

declare reverse_loop.simps [code]

definition list_reverse :: "klist \<Rightarrow> lheap \<Rightarrow> lheap option" where
  "list_reverse l h =
     do { b \<leftarrow> list_empty l h;
          if b then Some h
          else do {
            e \<leftarrow> list_begin l h;
            h1 \<leftarrow> reverse_loop l e h;
            h2 \<leftarrow> swap_links (Some (head_at l), Next) (Some (tail_at l), Prev) h1;
            f \<leftarrow> rd_next (Some (head_at l)) h2;
            g \<leftarrow> rd_prev (Some (tail_at l)) h2;
            swap_links (f, Prev) (g, Next) h2 } }"

section \<open>Ordered lists\<close>

definition call_less :: "(nat \<Rightarrow> nat \<Rightarrow> bool) \<Rightarrow> ptr \<Rightarrow> ptr \<Rightarrow> bool option" where
  "call_less lt p q = do { a \<leftarrow> p; b \<leftarrow> q; Some (lt a b) }"

partial_function (option) is_sorted_loop :: "(nat \<Rightarrow> nat \<Rightarrow> bool) \<Rightarrow> ptr \<Rightarrow> ptr \<Rightarrow> lheap \<Rightarrow> (bool \<times> lheap) option" where
  "is_sorted_loop lt a b h =
     do { (a', h1) \<leftarrow> list_next a h;
          if a' = b then Some (True, h1)
          else do { (p, h2) \<leftarrow> list_prev a' h1;
                    c \<leftarrow> call_less lt a' p;
                    if c then Some (False, h2) else is_sorted_loop lt a' b h2 } }"

declare is_sorted_loop.simps [code]

definition is_sorted :: "(nat \<Rightarrow> nat \<Rightarrow> bool) \<Rightarrow> ptr \<Rightarrow> ptr \<Rightarrow> lheap \<Rightarrow> (bool \<times> lheap) option" where
  "is_sorted lt a b h = (if a \<noteq> b then is_sorted_loop lt a b h else Some (True, h))"

partial_function (option) end_run_loop :: "(nat \<Rightarrow> nat \<Rightarrow> bool) \<Rightarrow> ptr \<Rightarrow> ptr \<Rightarrow> lheap \<Rightarrow> (ptr \<times> lheap) option" where
  "end_run_loop lt a b h =
     do { (a', h1) \<leftarrow> list_next a h;
          if a' = b then Some (a', h1)
          else do { (p, h2) \<leftarrow> list_prev a' h1;
                    c \<leftarrow> call_less lt a' p;
                    if c then Some (a', h2) else end_run_loop lt a' b h2 } }"

declare end_run_loop.simps [code]

definition find_end_of_run :: "(nat \<Rightarrow> nat \<Rightarrow> bool) \<Rightarrow> ptr \<Rightarrow> ptr \<Rightarrow> lheap \<Rightarrow> (ptr \<times> lheap) option" where
  "find_end_of_run lt a b h =
     (let h1 = l_assert ''find_end_of_run'' (a \<noteq> None) h;
          h2 = l_assert ''find_end_of_run'' (b \<noteq> None) h1;
          h3 = l_assert ''find_end_of_run'' (a \<noteq> b) h2
      in end_run_loop lt a b h3)"

partial_function (option) merge_loop :: "(nat \<Rightarrow> nat \<Rightarrow> bool) \<Rightarrow> ptr \<Rightarrow> ptr \<Rightarrow> ptr \<Rightarrow> lheap \<Rightarrow> lheap option" where
  "merge_loop lt a0 a1b0 b1 h =
     (if a0 = a1b0 \<or> a1b0 = b1 then Some h
      else do { c \<leftarrow> call_less lt a1b0 a0;
                if \<not> c then do { (a0', h1) \<leftarrow> list_next a0 h; merge_loop lt a0' a1b0 b1 h1 }
                else do { (n, h1) \<leftarrow> list_next a1b0 h;
                          (p, h2) \<leftarrow> list_prev n h1;
                          h3 \<leftarrow> list_splice a0 p n h2;
                          merge_loop lt a0 n b1 h3 } })"

declare merge_loop.simps [code]

definition inplace_merge :: "(nat \<Rightarrow> nat \<Rightarrow> bool) \<Rightarrow> ptr \<Rightarrow> ptr \<Rightarrow> ptr \<Rightarrow> lheap \<Rightarrow> lheap option" where
  "inplace_merge lt a0 a1b0 b1 h =
     do { let h1 = l_assert ''inplace_merge'' (b1 \<noteq> None)
                     (l_assert ''inplace_merge'' (a1b0 \<noteq> None) (l_assert ''inplace_merge'' (a0 \<noteq> None) h));
          (s, h2) \<leftarrow> is_sorted lt a0 a1b0 h1;
          let h3 = l_assert ''inplace_merge'' s h2;
          (t, h4) \<leftarrow> is_sorted lt a1b0 b1 h3;
          merge_loop lt a0 a1b0 b1 (l_assert ''inplace_merge'' t h4) }"

text \<open>One pass of \<^verbatim>\<open>list_sort\<close>: the number of runs it leaves.\<close>

partial_function (option) pass_loop :: "(nat \<Rightarrow> nat \<Rightarrow> bool) \<Rightarrow> klist \<Rightarrow> ptr \<Rightarrow> nat \<Rightarrow> lheap \<Rightarrow> (nat \<times> lheap) option" where
  "pass_loop lt l a0 cnt h =
     (if a0 = list_end l then Some (cnt, h)
      else do { let cnt' = size_add cnt 1;
                (a1b0, h1) \<leftarrow> find_end_of_run lt a0 (list_end l) h;
                if a1b0 = list_end l then Some (cnt', h1)
                else do { (b1, h2) \<leftarrow> find_end_of_run lt a1b0 (list_end l) h1;
                          h3 \<leftarrow> inplace_merge lt a0 a1b0 b1 h2;
                          pass_loop lt l b1 cnt' h3 } })"

declare pass_loop.simps [code]

partial_function (option) sort_loop :: "(nat \<Rightarrow> nat \<Rightarrow> bool) \<Rightarrow> klist \<Rightarrow> lheap \<Rightarrow> lheap option" where
  "sort_loop lt l h =
     do { a0 \<leftarrow> list_begin l h;
          (output_run_cnt, h1) \<leftarrow> pass_loop lt l a0 0 h;
          if output_run_cnt > 1 then sort_loop lt l h1 else Some h1 }"

declare sort_loop.simps [code]

definition list_sort :: "(nat \<Rightarrow> nat \<Rightarrow> bool) \<Rightarrow> klist \<Rightarrow> lheap \<Rightarrow> lheap option" where
  "list_sort lt l h =
     do { h1 \<leftarrow> sort_loop lt l h;
          b \<leftarrow> list_begin l h1;
          (s, h2) \<leftarrow> is_sorted lt b (list_end l) h1;
          Some (l_assert ''list_sort'' s h2) }"

partial_function (option) ordered_loop :: "(nat \<Rightarrow> nat \<Rightarrow> bool) \<Rightarrow> klist \<Rightarrow> ptr \<Rightarrow> ptr \<Rightarrow> lheap \<Rightarrow> (ptr \<times> lheap) option" where
  "ordered_loop lt l elem e h =
     (if e = list_end l then Some (e, h)
      else do { c \<leftarrow> call_less lt elem e;
                if c then Some (e, h)
                else do { (e', h1) \<leftarrow> list_next e h; ordered_loop lt l elem e' h1 } })"

declare ordered_loop.simps [code]

definition list_insert_ordered :: "(nat \<Rightarrow> nat \<Rightarrow> bool) \<Rightarrow> klist \<Rightarrow> ptr \<Rightarrow> lheap \<Rightarrow> lheap option" where
  "list_insert_ordered lt l elem h =
     do { let h0 = l_assert ''list_insert_ordered'' (elem \<noteq> None) h;
          b \<leftarrow> list_begin l h0;
          (e, h1) \<leftarrow> ordered_loop lt l elem b h0;
          list_insert e elem h1 }"

partial_function (option) unique_loop ::
    "(nat \<Rightarrow> nat \<Rightarrow> bool) \<Rightarrow> klist \<Rightarrow> klist option \<Rightarrow> ptr \<Rightarrow> lheap \<Rightarrow> lheap option" where
  "unique_loop lt l duplicates elem h =
     do { (nxt, h1) \<leftarrow> list_next elem h;
          if nxt = list_end l then Some h1
          else do {
            c \<leftarrow> call_less lt elem nxt;
            d \<leftarrow> call_less lt nxt elem;
            if \<not> c \<and> \<not> d
            then do { (_, h2) \<leftarrow> list_remove nxt h1;
                      h3 \<leftarrow> (case duplicates of Some dl \<Rightarrow> list_push_back dl nxt h2 | None \<Rightarrow> Some h2);
                      unique_loop lt l duplicates elem h3 }
            else unique_loop lt l duplicates nxt h1 } }"

declare unique_loop.simps [code]

definition list_unique :: "(nat \<Rightarrow> nat \<Rightarrow> bool) \<Rightarrow> klist \<Rightarrow> klist option \<Rightarrow> lheap \<Rightarrow> lheap option" where
  "list_unique lt l duplicates h =
     do { b \<leftarrow> list_empty l h;
          if b then Some h
          else do { elem \<leftarrow> list_begin l h; unique_loop lt l duplicates elem h } }"

partial_function (option) max_loop :: "(nat \<Rightarrow> nat \<Rightarrow> bool) \<Rightarrow> klist \<Rightarrow> ptr \<Rightarrow> ptr \<Rightarrow> lheap \<Rightarrow> (ptr \<times> lheap) option" where
  "max_loop lt l m e h =
     (if e = list_end l then Some (m, h)
      else do { c \<leftarrow> call_less lt m e;
                (e', h1) \<leftarrow> list_next e h;
                max_loop lt l (if c then e else m) e' h1 })"

declare max_loop.simps [code]

definition list_max :: "(nat \<Rightarrow> nat \<Rightarrow> bool) \<Rightarrow> klist \<Rightarrow> lheap \<Rightarrow> (ptr \<times> lheap) option" where
  "list_max lt l h =
     do { m \<leftarrow> list_begin l h;
          if m \<noteq> list_end l then do { (e, h1) \<leftarrow> list_next m h; max_loop lt l m e h1 } else Some (m, h) }"

partial_function (option) min_loop :: "(nat \<Rightarrow> nat \<Rightarrow> bool) \<Rightarrow> klist \<Rightarrow> ptr \<Rightarrow> ptr \<Rightarrow> lheap \<Rightarrow> (ptr \<times> lheap) option" where
  "min_loop lt l m e h =
     (if e = list_end l then Some (m, h)
      else do { c \<leftarrow> call_less lt e m;
                (e', h1) \<leftarrow> list_next e h;
                min_loop lt l (if c then e else m) e' h1 })"

declare min_loop.simps [code]

definition list_min :: "(nat \<Rightarrow> nat \<Rightarrow> bool) \<Rightarrow> klist \<Rightarrow> lheap \<Rightarrow> (ptr \<times> lheap) option" where
  "list_min lt l h =
     do { m \<leftarrow> list_begin l h;
          if m \<noteq> list_end l then do { (e, h1) \<leftarrow> list_next m h; min_loop lt l m e h1 } else Some (m, h) }"

end
