(* ===== verification/Kernel_Links.thy ===== *)
theory Kernel_Links
  imports Kernel_List "HOL-Library.Multiset"
begin

text \<open>
  The operations of the doubly linked list implement operations on the list of its elements. A list of nodes, headers
  included, is well-linked when the two links between neighbours point at each other; the operations are shown to turn
  one well-linked list into another, without a failed assertion.
\<close>

section \<open>Links as updates\<close>

definition set_nx :: "nat \<Rightarrow> ptr \<Rightarrow> lheap \<Rightarrow> lheap" where
  "set_nx a v h = h\<lparr>elems := (elems h)(a := map_option (l_next_update (\<lambda>_. v)) (elems h a))\<rparr>"

definition set_pv :: "nat \<Rightarrow> ptr \<Rightarrow> lheap \<Rightarrow> lheap" where
  "set_pv a v h = h\<lparr>elems := (elems h)(a := map_option (l_prev_update (\<lambda>_. v)) (elems h a))\<rparr>"

definition live :: "nat \<Rightarrow> lheap \<Rightarrow> bool" where
  "live a h \<longleftrightarrow> elems h a \<noteq> None"

abbreviation nx :: "lheap \<Rightarrow> nat \<Rightarrow> ptr option" where
  "nx h a \<equiv> rd_next (Some a) h"

abbreviation pv :: "lheap \<Rightarrow> nat \<Rightarrow> ptr option" where
  "pv h a \<equiv> rd_prev (Some a) h"

lemma nx_live: "nx h a = Some v \<Longrightarrow> live a h"
  by (auto simp: rd_next_def live_def split: bind_splits)

lemma pv_live: "pv h a = Some v \<Longrightarrow> live a h"
  by (auto simp: rd_prev_def live_def split: bind_splits)

lemma wr_next_eq: "live a h \<Longrightarrow> wr_next (Some a) v h = Some (set_nx a v h)"
  by (auto simp: wr_next_def set_nx_def live_def)

lemma wr_prev_eq: "live a h \<Longrightarrow> wr_prev (Some a) v h = Some (set_pv a v h)"
  by (auto simp: wr_prev_def set_pv_def live_def)

lemma set_link_simps [simp]:
  "live b (set_nx a v h) = live b h" "live b (set_pv a v h) = live b h"
  "nx (set_nx a v h) b = (if b = a \<and> live a h then Some v else nx h b)" "pv (set_nx a v h) b = pv h b"
  "pv (set_pv a v h) b = (if b = a \<and> live a h then Some v else pv h b)" "nx (set_pv a v h) b = nx h b"
  "lcon (set_nx a v h) = lcon h" "lcon (set_pv a v h) = lcon h"
  by (auto simp: live_def set_nx_def set_pv_def rd_next_def rd_prev_def split: option.splits)
     (cases "elems h a"; simp)+

lemma l_assert_True [simp]: "l_assert fn True h = h"
  by (simp add: l_assert_def)

text \<open>Steps along the links, with the assertions they satisfy.\<close>

lemma list_next_eq:
  assumes "nx h a = Some (Some b)"
  shows "list_next (Some a) h = Some (Some b, h)"
proof -
  obtain p where p: "pv h a = Some p" using nx_live [OF assms] by (auto simp: live_def rd_prev_def)
  then show ?thesis using assms by (cases p) (simp_all add: list_next_def is_head_def is_interior_def)
qed

lemma list_prev_eq:
  assumes "pv h a = Some (Some b)"
  shows "list_prev (Some a) h = Some (Some b, h)"
proof -
  obtain n where n: "nx h a = Some n" using pv_live [OF assms] by (auto simp: live_def rd_next_def)
  then show ?thesis using assms by (cases n) (simp_all add: list_prev_def is_tail_def is_interior_def)
qed

lemma interior_eq: "nx h a = Some (Some b) \<Longrightarrow> pv h a = Some (Some c) \<Longrightarrow> is_interior (Some a) h = Some True"
  by (simp add: is_interior_def)

lemma not_head:
  assumes "pv h a = Some (Some c)"
  shows "\<exists>i t. is_interior (Some a) h = Some i \<and> is_tail (Some a) h = Some t \<and> (i \<or> t)"
  using assms pv_live [OF assms] by (auto simp: is_interior_def is_tail_def rd_next_def live_def)

section \<open>Well-linked lists of nodes\<close>

fun links :: "lheap \<Rightarrow> nat list \<Rightarrow> bool" where
  "links h (a # b # zs) \<longleftrightarrow> nx h a = Some (Some b) \<and> pv h b = Some (Some a) \<and> links h (b # zs)"
| "links h zs \<longleftrightarrow> True"

lemma links_append:
  "links h (xs @ ys) \<longleftrightarrow> links h xs \<and> links h ys \<and>
     (xs \<noteq> [] \<longrightarrow> ys \<noteq> [] \<longrightarrow> nx h (last xs) = Some (Some (hd ys)) \<and> pv h (hd ys) = Some (Some (last xs)))"
proof (induction h xs rule: links.induct)
  case "2_2"
  then show ?case by (cases ys) auto
qed auto

lemma links_Cons: "links h (x # ys) \<longleftrightarrow> links h ys \<and> (ys \<noteq> [] \<longrightarrow> nx h x = Some (Some (hd ys)) \<and> pv h (hd ys) = Some (Some x))"
  by (cases ys) auto

lemma links_cong:
  "(\<And>a. a \<in> set (butlast zs) \<Longrightarrow> nx h' a = nx h a) \<Longrightarrow> (\<And>a. a \<in> set (tl zs) \<Longrightarrow> pv h' a = pv h a) \<Longrightarrow> links h' zs = links h zs"
proof (induction h zs rule: links.induct)
  case (1 h a b zs)
  then show ?case by (cases zs) auto
qed auto

lemma links_set [simp]:
  "a \<notin> set (butlast zs) \<Longrightarrow> links (set_nx a v h) zs = links h zs"
  "a \<notin> set (tl zs) \<Longrightarrow> links (set_pv a v h) zs = links h zs"
  by (rule links_cong; auto)+

text \<open>\<open>lst h zs\<close>: the nodes \<open>zs\<close> form a list between its two headers.\<close>

definition lst :: "lheap \<Rightarrow> nat list \<Rightarrow> bool" where
  "lst h zs \<longleftrightarrow> distinct zs \<and> 2 \<le> length zs \<and> links h zs \<and> pv h (hd zs) = Some None \<and> nx h (last zs) = Some None"

definition list_ok :: "klist \<Rightarrow> nat list \<Rightarrow> lheap \<Rightarrow> bool" where
  "list_ok l xs h \<longleftrightarrow> lst h (head_at l # xs @ [tail_at l])"

lemma last_notin_butlast: "distinct zs \<Longrightarrow> zs \<noteq> [] \<Longrightarrow> last zs \<notin> set (butlast zs)"
  by (induction zs) (auto split: if_splits)

lemma hd_notin_tl: "distinct zs \<Longrightarrow> zs \<noteq> [] \<Longrightarrow> hd zs \<notin> set (tl zs)"
  by (cases zs) auto

lemma in_butlast: "a \<notin> set zs \<Longrightarrow> a \<notin> set (butlast zs)" "a \<notin> set zs \<Longrightarrow> a \<notin> set (tl zs)"
  by (auto dest: in_set_butlastD simp: list.set_sel(2)) (metis list.set_sel(2) tl_Nil)


lemma ends_apart:
  assumes "set xs \<inter> set ys = {}" "xs \<noteq> []" "ys \<noteq> []"
  shows "last xs \<notin> set ys" "hd xs \<notin> set ys" "last ys \<notin> set xs" "hd ys \<notin> set xs"
    "last xs \<noteq> last ys" "last xs \<noteq> hd ys" "hd xs \<noteq> last ys" "hd xs \<noteq> hd ys"
proof -
  have "last xs \<in> set xs" "hd xs \<in> set xs" "last ys \<in> set ys" "hd ys \<in> set ys" using assms(2,3) by simp_all
  with assms(1) show "last xs \<notin> set ys" "hd xs \<notin> set ys" "last ys \<notin> set xs" "hd ys \<notin> set xs"
    "last xs \<noteq> last ys" "last xs \<noteq> hd ys" "hd xs \<noteq> last ys" "hd xs \<noteq> hd ys" by (metis disjoint_iff)+
qed

lemma lst_frame:
  assumes "\<And>a. a \<in> set zs \<Longrightarrow> nx h' a = nx h a" "\<And>a. a \<in> set zs \<Longrightarrow> pv h' a = pv h a"
  shows "lst h' zs = lst h zs"
proof (cases zs)
  case (Cons z zs')
  have "links h' zs = links h zs" by (rule links_cong) (use assms Cons in \<open>auto dest: in_set_butlastD split: if_splits\<close>)
  moreover have "last zs \<in> set zs" using Cons by simp
  ultimately show ?thesis using assms Cons by (simp add: lst_def del: last.simps)
qed (simp add: lst_def)

section \<open>Insertion, removal and splicing\<close>

text \<open>What entering and taking out a node means for the links, whatever the order of the assignments.\<close>

lemma insert_links:
  assumes "lst h (P @ b # R)" "P \<noteq> []" "a \<notin> set (P @ b # R)"
    and nx': "\<And>c. nx h' c = (if c = last P then Some (Some a) else if c = a then Some (Some b) else nx h c)"
    and pv': "\<And>c. pv h' c = (if c = b then Some (Some a) else if c = a then Some (Some (last P)) else pv h c)"
  shows "lst h' (P @ a # b # R)"
proof -
  let ?p = "last P"
  have l: "links h P" "links h (b # R)" "pv h (hd P) = Some None" "nx h (last (b # R)) = Some None" "distinct (P @ b # R)"
    using assms(1,2) by (auto simp: lst_def links_append)
  have d: "?p \<in> set P" "?p \<notin> set (b # R)" "b \<notin> set P" "hd P \<in> set P" "hd P \<noteq> b" "last (b # R) \<noteq> ?p" "a \<noteq> ?p" "a \<noteq> b"
    using l(5) assms(2,3) ends_apart [of P "b # R"] by auto
  have "links h' P = links h P" "links h' (b # R) = links h (b # R)"
    using l(5) d assms(2,3) last_notin_butlast [of P] in_butlast [of _ P] in_butlast [of _ "b # R"]
    by (intro links_cong; fastforce simp: nx' pv')+
  moreover have "nx h' (last (b # R)) = Some None"
    using l(4) d assms(3) last_in_set [of "b # R"] by (auto simp: nx')
  moreover have "pv h' (hd P) = Some None" using l(3) d assms(3) by (auto simp: pv')
  ultimately show ?thesis
    using assms(1-3) l d by (auto simp: lst_def links_append links_Cons nx' pv')
qed

lemma remove_links:
  assumes "lst h (P @ a # R)" "P \<noteq> []" "R \<noteq> []"
    and nx': "\<And>c. nx h' c = (if c = last P then Some (Some (hd R)) else nx h c)"
    and pv': "\<And>c. pv h' c = (if c = hd R then Some (Some (last P)) else pv h c)"
  shows "lst h' (P @ R)"
proof -
  have l: "links h P" "links h R" "pv h (hd P) = Some None" "nx h (last R) = Some None" "distinct (P @ a # R)"
    using assms by (auto simp: lst_def links_append links_Cons)
  have d: "last P \<notin> set R" "hd R \<notin> set P" "hd P \<noteq> hd R" "last R \<noteq> last P"
    using l(5) assms(2,3) ends_apart [of P R] by auto
  have "links h' P = links h P" "links h' R = links h R"
    using l(5) d assms(2,3) last_notin_butlast [of P] hd_notin_tl [of R] in_butlast [of _ P] in_butlast [of _ R]
    by (intro links_cong; fastforce simp: nx' pv')+
  moreover have "2 \<le> length (P @ R)" using assms(2,3) by (cases P; cases R) auto
  ultimately show ?thesis using assms(2,3) l d by (auto simp: lst_def links_append nx' pv')
qed

lemma list_insert_lst:
  assumes "lst h (P @ b # R)" "P \<noteq> []" "a \<notin> set (P @ b # R)" "live a h"
  shows "\<exists>h'. list_insert (Some b) (Some a) h = Some h' \<and> lst h' (P @ a # b # R) \<and> lcon h' = lcon h \<and>
              (\<forall>c. live c h' = live c h) \<and> (\<forall>zs. set zs \<inter> set (P @ a # b # R) = {} \<longrightarrow> lst h' zs = lst h zs)"
proof -
  let ?p = "last P"
  have l: "nx h ?p = Some (Some b)" "pv h b = Some (Some ?p)" using assms(1,2) by (auto simp: lst_def links_append)
  have d: "?p \<in> set P" "a \<noteq> ?p" "a \<noteq> b" using assms(2,3) last_in_set [OF assms(2)] by auto
  let ?h = "set_pv b (Some a) (set_nx ?p (Some a) (set_nx a (Some b) (set_pv a (Some ?p) h)))"
  have live: "live ?p h" "live b h" using l nx_live pv_live by blast+
  have "list_insert (Some b) (Some a) h = Some ?h"
    using not_head [OF l(2)] l live d assms(4) by (auto simp: list_insert_def wr_next_eq wr_prev_eq)
  moreover have "lst ?h (P @ a # b # R)" by (rule insert_links [OF assms(1-3)]) (use live assms(4) in auto)
  moreover have "lst ?h zs = lst h zs" if "set zs \<inter> set (P @ a # b # R) = {}" for zs
    by (rule lst_frame) (use that d(1) in auto)
  ultimately show ?thesis by auto
qed

lemma list_remove_lst:
  assumes "lst h (P @ a # R)" "P \<noteq> []" "R \<noteq> []"
  shows "\<exists>h'. list_remove (Some a) h = Some (Some (hd R), h') \<and> lst h' (P @ R) \<and> lcon h' = lcon h \<and>
              (\<forall>c. live c h' = live c h) \<and> (\<forall>zs. set zs \<inter> set (P @ R) = {} \<longrightarrow> lst h' zs = lst h zs)"
proof -
  let ?p = "last P" and ?n = "hd R"
  have l: "nx h ?p = Some (Some a)" "pv h a = Some (Some ?p)" "nx h a = Some (Some ?n)" "pv h ?n = Some (Some a)" "distinct (P @ a # R)"
    using assms by (auto simp: lst_def links_append links_Cons)
  have d: "?p \<in> set P" "?n \<in> set R" "a \<noteq> ?p" "a \<noteq> ?n" "?p \<noteq> ?n"
    using l(5) assms(2,3) ends_apart [of P R] by auto
  let ?h = "set_pv ?n (Some ?p) (set_nx ?p (Some ?n) h)"
  have live: "live ?p h" "live ?n h" using l nx_live pv_live by blast+
  have "list_remove (Some a) h = Some (Some ?n, ?h)"
    using l live d by (simp add: list_remove_def interior_eq wr_next_eq wr_prev_eq)
  moreover have "lst ?h (P @ R)" by (rule remove_links [OF assms]) (use live in auto)
  moreover have "lst ?h zs = lst h zs" if "set zs \<inter> set (P @ R) = {}" for zs
    by (rule lst_frame) (use that d(1,2) in auto)
  ultimately show ?thesis by auto
qed

lemma list_splice_lst:
  assumes "lst h (P @ U @ S @ R)" "P \<noteq> []" "U \<noteq> []" "S \<noteq> []" "R \<noteq> []"
  shows "\<exists>h'. list_splice (Some (hd U)) (Some (hd S)) (Some (hd R)) h = Some h' \<and> lst h' (P @ S @ U @ R) \<and> lcon h' = lcon h \<and>
              (\<forall>c. live c h' = live c h)"
proof -
  let ?p = "last P" and ?b = "hd U" and ?u = "last U" and ?f = "hd S" and ?t = "last S" and ?z = "hd R"
  have l: "links h P" "links h U" "links h S" "links h R" "nx h ?p = Some (Some ?b)" "pv h ?b = Some (Some ?p)"
      "nx h ?u = Some (Some ?f)" "pv h ?f = Some (Some ?u)" "nx h ?t = Some (Some ?z)" "pv h ?z = Some (Some ?t)"
      "pv h (hd P) = Some None" "nx h (last R) = Some None" "distinct (P @ U @ S @ R)"
    using assms by (auto simp: lst_def links_append)
  have dj: "set P \<inter> set U = {}" "set P \<inter> set S = {}" "set P \<inter> set R = {}" "set U \<inter> set S = {}" "set U \<inter> set R = {}" "set S \<inter> set R = {}"
    using l(13) by auto
  note e = ends_apart [OF dj(1) assms(2,3)] ends_apart [OF dj(2) assms(2,4)] ends_apart [OF dj(3) assms(2,5)]
    ends_apart [OF dj(4) assms(3,4)] ends_apart [OF dj(5) assms(3,5)] ends_apart [OF dj(6) assms(4,5)]
  have live: "live ?p h" "live ?b h" "live ?u h" "live ?f h" "live ?t h" "live ?z h" using l nx_live pv_live by blast+
  obtain m where m: "nx h ?f = Some (Some m)"
    using l(3,9) assms(4) by (cases S rule: list.exhaust; cases "tl S") auto
  obtain m' where m': "pv h ?t = Some (Some m')"
    using l(3,8) assms(4) by (cases S rule: rev_cases) (auto simp: links_append)
  let ?h = "set_pv ?b (Some ?t) (set_nx ?p (Some ?f) (set_nx ?t (Some ?b) (set_pv ?f (Some ?p) (set_pv ?z (Some ?u) (set_nx ?u (Some ?z) h)))))"
  have "list_splice (Some ?b) (Some ?f) (Some ?z) h = Some ?h"
    using not_head [OF l(6)] l m m' live e
    by (auto simp: list_splice_def list_prev_eq interior_eq wr_next_eq wr_prev_eq)
  moreover have "links ?h P" "links ?h U" "links ?h S" "links ?h R"
    using l e assms(2-5) last_notin_butlast [of P] last_notin_butlast [of U] last_notin_butlast [of S] last_notin_butlast [of R]
      hd_notin_tl [of U] hd_notin_tl [of S] hd_notin_tl [of R] by (simp_all add: in_butlast)
  moreover have "nx ?h (last R) = Some None" "pv ?h (hd P) = Some None" using l e by auto
  ultimately show ?thesis using assms(1-5) l(13) e live by (auto simp: lst_def links_append)
qed
end
