(* ===== verification/Kernel_Sort.thy ===== *)
theory Kernel_Sort
  imports Kernel_Links
begin

text \<open>
  \<^verbatim>\<open>list_sort\<close> of the doubly linked list: the natural merge sort as a function on lists, which is a stable sort and needs fewer runs
  with each pass, and the loops over the links that implement it.
\<close>

section \<open>Sorting on lists\<close>

text \<open>The sort as a function on lists: merging, splitting off a run, one pass over pairs of runs.\<close>

fun merge_runs :: "(nat \<Rightarrow> nat \<Rightarrow> bool) \<Rightarrow> nat list \<Rightarrow> nat list \<Rightarrow> nat list" where
  "merge_runs lt (x # xs) (y # ys) = (if lt y x then y # merge_runs lt (x # xs) ys else x # merge_runs lt xs (y # ys))"
| "merge_runs lt xs [] = xs"
| "merge_runs lt [] ys = ys"

lemma mset_merge_runs: "mset (merge_runs lt xs ys) = mset xs + mset ys"
  by (induction lt xs ys rule: merge_runs.induct) auto

lemma set_merge_runs: "set (merge_runs lt xs ys) = set xs \<union> set ys"
  using mset_merge_runs [of lt xs ys] by (metis set_mset_mset set_mset_union)

fun ascend :: "(nat \<Rightarrow> nat \<Rightarrow> bool) \<Rightarrow> nat list \<Rightarrow> nat list \<times> nat list" where
  "ascend lt (x # y # zs) = (if lt y x then ([x], y # zs) else map_prod (Cons x) id (ascend lt (y # zs)))"
| "ascend lt zs = (zs, [])"

lemma ascend_append: "fst (ascend lt xs) @ snd (ascend lt xs) = xs"
  by (induction lt xs rule: ascend.induct) auto

lemma ascend_nonempty: "xs \<noteq> [] \<Longrightarrow> fst (ascend lt xs) \<noteq> []"
  by (induction lt xs rule: ascend.induct) auto

lemma ascend_shorter: "xs \<noteq> [] \<Longrightarrow> length (snd (ascend lt xs)) < length xs"
  by (induction lt xs rule: ascend.induct) auto

function sort_pass :: "(nat \<Rightarrow> nat \<Rightarrow> bool) \<Rightarrow> nat list \<Rightarrow> nat \<times> nat list" where
  "sort_pass lt xs =
     (if xs = [] then (0, [])
      else let (r1, xs1) = ascend lt xs
           in if xs1 = [] then (1, r1)
              else let (r2, xs2) = ascend lt xs1; (n, ys) = sort_pass lt xs2 in (Suc n, merge_runs lt r1 r2 @ ys))"
  by pat_completeness auto
termination
proof (relation "measure (length \<circ> snd)")
  fix lt and xs r1 xs1 r2 xs2 :: "nat list" and p q
  assume "xs \<noteq> []" "p = ascend lt xs" "(r1, xs1) = p" "xs1 \<noteq> []" "q = ascend lt xs1" "(r2, xs2) = q"
  then show "((lt, xs2), (lt, xs)) \<in> measure (length \<circ> snd)"
    using ascend_shorter [of xs lt] ascend_shorter [of xs1 lt] by (metis in_measure comp_apply snd_conv less_trans)
qed simp

declare sort_pass.simps [simp del]

lemma sort_pass_cases:
  shows "sort_pass lt [] = (0, [])"
    "xs \<noteq> [] \<Longrightarrow> ascend lt xs = (r1, []) \<Longrightarrow> sort_pass lt xs = (1, r1)"
    "ascend lt xs = (r1, xs1) \<Longrightarrow> xs1 \<noteq> [] \<Longrightarrow> ascend lt xs1 = (r2, xs2) \<Longrightarrow>
     sort_pass lt xs = (Suc (fst (sort_pass lt xs2)), merge_runs lt r1 r2 @ snd (sort_pass lt xs2))"
proof -
  show "sort_pass lt [] = (0, [])" by (subst sort_pass.simps) simp
  show "sort_pass lt xs = (1, r1)" if "xs \<noteq> []" "ascend lt xs = (r1, [])"
    by (subst sort_pass.simps) (simp add: that)
  show "sort_pass lt xs = (Suc (fst (sort_pass lt xs2)), merge_runs lt r1 r2 @ snd (sort_pass lt xs2))"
    if "ascend lt xs = (r1, xs1)" "xs1 \<noteq> []" "ascend lt xs1 = (r2, xs2)"
  proof -
    have "xs \<noteq> []" using that by (cases xs) auto
    then have "sort_pass lt xs = (let (n, ys) = sort_pass lt xs2 in (Suc n, merge_runs lt r1 r2 @ ys))"
      unfolding sort_pass.simps [of lt xs] that(1) Let_def prod.case that(3) using that(2) by (simp only: if_False)
    then show ?thesis by (simp add: case_prod_beta)
  qed
qed

text \<open>Induction over the passes of two runs.\<close>

lemma two_runs_induct [consumes 0, case_names Nil one two]:
  assumes "P []" "\<And>xs r1. xs \<noteq> [] \<Longrightarrow> ascend lt xs = (r1, []) \<Longrightarrow> P xs"
    "\<And>xs r1 xs1 r2 xs2. xs \<noteq> [] \<Longrightarrow> ascend lt xs = (r1, xs1) \<Longrightarrow> xs1 \<noteq> [] \<Longrightarrow> ascend lt xs1 = (r2, xs2) \<Longrightarrow> P xs2 \<Longrightarrow> P xs"
  shows "P xs"
proof (induction xs rule: length_induct)
  case (1 xs)
  obtain r1 xs1 where r1: "ascend lt xs = (r1, xs1)" by force
  obtain r2 xs2 where r2: "ascend lt xs1 = (r2, xs2)" by force
  show ?case
  proof (cases "xs = [] \<or> xs1 = []")
    case True
    then show ?thesis using assms(1) assms(2) [of xs r1] r1 by (cases "xs = []") simp_all
  next
    case False
    then have "length xs2 < length xs" using ascend_shorter [of xs lt] ascend_shorter [of xs1 lt] r1 r2 by simp
    with 1 have "P xs2" by blast
    with False show ?thesis by (intro assms(3) [OF _ r1 _ r2]) auto
  qed
qed

lemma ascend_split: "ascend lt xs = (r, xs') \<Longrightarrow> xs = r @ xs'"
  using ascend_append [of lt xs] by simp

lemma sort_pass_length: "fst (sort_pass lt xs) \<le> length xs"
proof (induction xs rule: two_runs_induct [of _ lt])
  case (two xs r1 xs1 r2 xs2)
  then show ?case using ascend_shorter [of xs lt] ascend_shorter [of xs1 lt] by (simp add: sort_pass_cases(3) [of lt xs r1 xs1 r2 xs2])
qed (auto simp: sort_pass_cases Suc_le_eq)

lemma mset_sort_pass: "mset (snd (sort_pass lt xs)) = mset xs"
proof (induction xs rule: two_runs_induct [of _ lt])
  case (two xs r1 xs1 r2 xs2)
  have "mset xs = mset r1 + (mset r2 + mset xs2)" using ascend_split [OF two(2)] ascend_split [OF two(4)] by simp
  then show ?case using two by (simp add: sort_pass_cases(3) [of lt xs r1 xs1 r2 xs2] mset_merge_runs)
qed (auto simp: sort_pass_cases dest: ascend_split)

fun descents :: "('a \<Rightarrow> 'k::linorder) \<Rightarrow> 'a list \<Rightarrow> nat" where
  "descents key (x # y # zs) = (if key y < key x then 1 else 0) + descents key (y # zs)"
| "descents key zs = 0"

lemma descents_0: "descents key xs = 0 \<longleftrightarrow> sorted (map key xs)"
  by (induction key xs rule: descents.induct) (auto simp: not_less intro: order_trans)

lemma descents_append: "descents key (xs @ ys) \<le> descents key xs + descents key ys + 1"
proof (induction key xs rule: descents.induct)
  case "2_2"
  then show ?case by (cases ys) auto
qed auto

abbreviation by_key :: "(nat \<Rightarrow> 'k::linorder) \<Rightarrow> nat \<Rightarrow> nat \<Rightarrow> bool" where
  "by_key key a b \<equiv> key a < key b"

lemma ascend_hd: "\<exists>r. fst (ascend lt (x # xs)) = x # r"
  by (cases xs) auto

lemma ascend_sorted: "sorted (map key (fst (ascend (by_key key) xs)))"
proof (induction "by_key key" xs rule: ascend.induct)
  case (1 x y zs)
  obtain r where "fst (ascend (by_key key) (y # zs)) = y # r" using ascend_hd by blast
  with 1 show ?case by (auto simp: not_less intro: order_trans)
qed auto

lemma ascend_descents:
  "snd (ascend (by_key key) xs) \<noteq> [] \<Longrightarrow> descents key xs = Suc (descents key (snd (ascend (by_key key) xs)))"
  by (induction "by_key key" xs rule: ascend.induct) (auto split: if_splits)

lemma sorted_merge_runs:
  "sorted (map key xs) \<Longrightarrow> sorted (map key ys) \<Longrightarrow> sorted (map key (merge_runs (by_key key) xs ys))"
  by (induction "by_key key" xs ys rule: merge_runs.induct) (auto simp: set_merge_runs not_less less_imp_le intro: order_trans less_imp_le)

lemma filter_merge_runs:
  "sorted (map key xs) \<Longrightarrow> filter (\<lambda>x. key x = k) (merge_runs (by_key key) xs ys) = filter (\<lambda>x. key x = k) xs @ filter (\<lambda>x. key x = k) ys"
proof (induction "by_key key" xs ys rule: merge_runs.induct)
  case (1 x xs y ys)
  have "filter (\<lambda>x. key x = k) (x # xs) = []" if "key y < key x" "key y = k"
    using that "1.prems" by (auto simp: filter_empty_conv)
  with 1 show ?case by auto
qed auto

lemma sort_pass_stable: "filter (\<lambda>x. key x = k) (snd (sort_pass (by_key key) xs)) = filter (\<lambda>x. key x = k) xs"
proof (induction xs rule: two_runs_induct [of _ "by_key key"])
  case (two xs r1 xs1 r2 xs2)
  have "sorted (map key r1)" using ascend_sorted [of key xs] two(2) by simp
  moreover have "filter (\<lambda>x. key x = k) xs = filter (\<lambda>x. key x = k) r1 @ filter (\<lambda>x. key x = k) r2 @ filter (\<lambda>x. key x = k) xs2"
    using ascend_split [OF two(2)] ascend_split [OF two(4)] by simp
  ultimately show ?case using two by (simp add: sort_pass_cases(3) [of _ xs r1 xs1 r2 xs2] filter_merge_runs)
qed (auto simp: sort_pass_cases dest: ascend_split)

lemma sort_pass_descents: "descents key (snd (sort_pass (by_key key) xs)) \<le> fst (sort_pass (by_key key) xs) - 1"
proof (induction xs rule: two_runs_induct [of _ "by_key key"])
  case (one xs r1)
  then show ?case using ascend_sorted [of key xs] by (simp add: sort_pass_cases(2) descents_0)
next
  case (two xs r1 xs1 r2 xs2)
  have "sorted (map key r1)" "sorted (map key r2)" using ascend_sorted [of key xs] ascend_sorted [of key xs1] two(2,4) by simp_all
  then have m: "descents key (merge_runs (by_key key) r1 r2) = 0" by (simp add: descents_0 sorted_merge_runs)
  let ?ys = "snd (sort_pass (by_key key) xs2)"
  have "descents key (merge_runs (by_key key) r1 r2 @ ?ys) \<le> fst (sort_pass (by_key key) xs2)"
  proof (cases "xs2 = []")
    case False
    then have "0 < fst (sort_pass (by_key key) xs2)" by (subst sort_pass.simps) (simp add: case_prod_beta)
    then show ?thesis using descents_append [of key "merge_runs (by_key key) r1 r2" ?ys] m two(5) by simp
  qed (simp add: sort_pass_cases m)
  then show ?case using two by (simp add: sort_pass_cases(3) [of _ xs r1 xs1 r2 xs2])
qed (simp add: sort_pass_cases)

lemma sort_pass_count: "fst (sort_pass (by_key key) xs) \<le> descents key xs div 2 + 1"
proof (induction xs rule: two_runs_induct [of _ "by_key key"])
  case (two xs r1 xs1 r2 xs2)
  have 1: "descents key xs = Suc (descents key xs1)" using ascend_descents [of key xs] two(2,3) by simp
  show ?case
  proof (cases "xs2 = []")
    case True
    then show ?thesis using two by (simp add: sort_pass_cases(1) sort_pass_cases(3) [of _ xs r1 xs1 r2 xs2])
  next
    case False
    then have "descents key xs1 = Suc (descents key xs2)" using ascend_descents [of key xs1] two(4) by simp
    then show ?thesis using two(1-5) 1 by (simp add: sort_pass_cases(3) [of _ xs r1 xs1 r2 xs2])
  qed
qed (auto simp: sort_pass_cases)

lemma sort_pass_progress:
  "1 < fst (sort_pass (by_key key) xs) \<Longrightarrow> descents key (snd (sort_pass (by_key key) xs)) < descents key xs"
  using sort_pass_descents [of key xs] sort_pass_count [of key xs] by linarith

lemma sort_pass_last: "fst (sort_pass (by_key key) xs) \<le> 1 \<Longrightarrow> snd (sort_pass (by_key key) xs) = sort_key key xs"
proof (rule sym, rule properties_for_sort_key)
  assume "fst (sort_pass (by_key key) xs) \<le> 1"
  then show "sorted (map key (snd (sort_pass (by_key key) xs)))" using sort_pass_descents [of key xs] by (simp add: descents_0 [symmetric])
  show "filter (\<lambda>x. key k = key x) (snd (sort_pass (by_key key) xs)) = filter (\<lambda>x. key k = key x) xs" for k
    using sort_pass_stable [of key "key k" xs] by (simp add: eq_commute)
qed (simp add: mset_sort_pass)

lemma sort_key_stable_eq:
  assumes "mset ys = mset xs" "\<And>k. filter (\<lambda>x. key x = k) ys = filter (\<lambda>x. key x = k) xs"
  shows "sort_key key ys = sort_key key xs"
proof (rule properties_for_sort_key)
  show "filter (\<lambda>x. key k = key x) (sort_key key xs) = filter (\<lambda>x. key k = key x) ys" for k
    using sort_key_stable [of key "key k" xs] assms(2) [of "key k"] by (simp add: eq_commute)
qed (use assms(1) in simp_all)

section \<open>Traversals\<close>

lemma lst_step:
  assumes "lst h (P @ a # R)"
  shows "R \<noteq> [] \<Longrightarrow> nx h a = Some (Some (hd R))" "R \<noteq> [] \<Longrightarrow> pv h (hd R) = Some (Some a)" "distinct (P @ a # R)"
  using assms by (auto simp: lst_def links_append links_Cons)

lemma list_begin_ok: "list_ok l xs h \<Longrightarrow> list_begin l h = Some (Some (hd (xs @ [tail_at l])))"
  using lst_step(1) [of h "[]" "head_at l" "xs @ [tail_at l]"] by (simp add: list_ok_def list_begin_def)

lemma list_empty_ok: "list_ok l xs h \<Longrightarrow> list_empty l h = Some (xs = [])"
  using list_begin_ok [of l xs h] by (cases xs) (auto simp: list_empty_def list_end_def list_ok_def lst_def)

text \<open>The comparison of an element with its predecessor, as both loops over runs do it.\<close>

lemma step_back:
  assumes "lst h (P @ x # R)" "R \<noteq> []"
  shows "list_next (Some x) h = Some (Some (hd R), h)" "list_prev (Some (hd R)) h = Some (Some x, h)"
  using lst_step(1,2) [OF assms] by (simp_all add: list_next_eq list_prev_eq)

lemma end_run_loop_finds:
  "lst h (P @ xs @ b # R) \<Longrightarrow> xs \<noteq> [] \<Longrightarrow> end_run_loop lt (Some (hd xs)) (Some b) h = Some (Some (hd (snd (ascend lt xs) @ [b])), h)"
proof (induction lt xs arbitrary: P rule: ascend.induct)
  case (1 lt x y zs)
  have st: "list_next (Some x) h = Some (Some y, h)" "list_prev (Some y) h = Some (Some x, h)"
    using step_back [of h P x "y # zs @ b # R"] "1.prems" by simp_all
  have "y \<noteq> b" using lst_step(3) [of h P x "y # zs @ b # R"] "1.prems"(1) by auto
  with st 1(1) [of "P @ [x]"] "1.prems" show ?case
    by (subst end_run_loop.simps) (auto simp: call_less_def)
next
  case "2_2"
  then show ?case using step_back [of h P _ "b # R"] by (subst end_run_loop.simps) simp
qed simp

lemma is_sorted_decides:
  "lst h (P @ xs @ b # R) \<Longrightarrow> xs \<noteq> [] \<Longrightarrow> is_sorted_loop (by_key key) (Some (hd xs)) (Some b) h = Some (sorted (map key xs), h)"
proof (induction key xs arbitrary: P rule: descents.induct)
  case (1 key x y zs)
  have st: "list_next (Some x) h = Some (Some y, h)" "list_prev (Some y) h = Some (Some x, h)"
    using step_back [of h P x "y # zs @ b # R"] "1.prems" by simp_all
  have "y \<noteq> b" using lst_step(3) [of h P x "y # zs @ b # R"] "1.prems"(1) by auto
  moreover have "is_sorted_loop (by_key key) (Some y) (Some b) h = Some (sorted (map key (y # zs)), h)"
    using "1.IH" [of "P @ [x]"] "1.prems" by simp
  ultimately show ?case using st
    by (subst is_sorted_loop.simps) (auto simp: call_less_def not_less intro: order_trans)
next
  case "2_2"
  then show ?case using step_back [of h P _ "b # R"] by (subst is_sorted_loop.simps) simp
qed simp

section \<open>The sort in place\<close>

lemma merge_loop_merges:
  "lst h (P @ A @ B @ b1 # R) \<Longrightarrow> P \<noteq> [] \<Longrightarrow>
   \<exists>h'. merge_loop lt (Some (hd (A @ B @ [b1]))) (Some (hd (B @ [b1]))) (Some b1) h = Some h' \<and>
        lst h' (P @ merge_runs lt A B @ b1 # R) \<and> lcon h' = lcon h \<and> (\<forall>c. live c h' = live c h)"
proof (induction lt A B arbitrary: P h rule: merge_runs.induct)
  case (1 lt x xs y ys)
  have d: "x \<noteq> y" "y \<noteq> b1" using "1.prems"(1) by (auto simp: lst_def)
  show ?case
  proof (cases "lt y x")
    case True
    let ?n = "hd (ys @ b1 # R)"
    have st: "list_next (Some y) h = Some (Some ?n, h)" "list_prev (Some ?n) h = Some (Some y, h)"
      using step_back [of h "P @ x # xs" y "ys @ b1 # R"] "1.prems" by simp_all
    have "lst h (P @ (x # xs) @ [y] @ (ys @ b1 # R))" using "1.prems" by simp
    from list_splice_lst [OF this] "1.prems"(2) obtain h1 where
      h1: "list_splice (Some x) (Some y) (Some ?n) h = Some h1" "lst h1 ((P @ [y]) @ (x # xs) @ ys @ b1 # R)" "lcon h1 = lcon h"
        "\<forall>c. live c h1 = live c h"
      by auto
    from "1.IH"(1) [OF True h1(2)] obtain h' where
      h': "merge_loop lt (Some x) (Some (hd (ys @ [b1]))) (Some b1) h1 = Some h'"
        "lst h' (P @ y # merge_runs lt (x # xs) ys @ b1 # R)" "lcon h' = lcon h1" "\<forall>c. live c h' = live c h1" by auto
    have "hd (ys @ [b1]) = ?n" by (cases ys) auto
    then show ?thesis using d st h1 h' True by (subst merge_loop.simps) (simp add: call_less_def)
  next
    case False
    have st: "list_next (Some x) h = Some (Some (hd (xs @ y # ys @ b1 # R)), h)"
      using step_back(1) [of h P x "xs @ y # ys @ b1 # R"] "1.prems" by simp
    from "1.IH"(2) [OF False, of h "P @ [x]"] "1.prems" obtain h' where
      h': "merge_loop lt (Some (hd (xs @ y # ys @ [b1]))) (Some y) (Some b1) h = Some h'"
        "lst h' (P @ x # merge_runs lt xs (y # ys) @ b1 # R)" "lcon h' = lcon h" "\<forall>c. live c h' = live c h" by auto
    have "hd (xs @ y # ys @ b1 # R) = hd (xs @ y # ys @ [b1])" by (cases xs) auto
    then show ?thesis using d st h' False by (subst merge_loop.simps) (simp add: call_less_def)
  qed
qed (subst merge_loop.simps; auto)+

lemma inplace_merge_merges:
  assumes "lst h (P @ A @ B @ b1 # R)" "P \<noteq> []" "A \<noteq> []" "B \<noteq> []" "sorted (map key A)" "sorted (map key B)"
  shows "\<exists>h'. inplace_merge (by_key key) (Some (hd A)) (Some (hd B)) (Some b1) h = Some h' \<and>
           lst h' (P @ merge_runs (by_key key) A B @ b1 # R) \<and> lcon h' = lcon h \<and> (\<forall>c. live c h' = live c h)"
proof -
  obtain y ys where B: "B = y # ys" using assms(4) by (cases B) auto
  have "is_sorted_loop (by_key key) (Some (hd A)) (Some y) h = Some (True, h)"
    using is_sorted_decides [of h P A y "ys @ b1 # R" key] assms B by simp
  moreover have "is_sorted_loop (by_key key) (Some y) (Some b1) h = Some (True, h)"
    using is_sorted_decides [of h "P @ A" B b1 R key] assms B by simp
  moreover have "hd A \<noteq> y" "y \<noteq> b1" using assms(1,3) B by (auto simp: lst_def)
  ultimately show ?thesis using merge_loop_merges [OF assms(1,2), of "by_key key"] assms(3) B
    by (simp add: inplace_merge_def is_sorted_def)
qed

lemma find_end_of_run_finds:
  assumes "lst h (P @ xs @ b # R)" "xs \<noteq> []" "ascend lt xs = (r, xs')"
  shows "find_end_of_run lt (Some (hd xs)) (Some b) h = Some (Some (hd (xs' @ [b])), h)"
proof -
  have "hd xs \<noteq> b" using assms(1,2) by (auto simp: lst_def)
  then show ?thesis using end_run_loop_finds [OF assms(1,2), of lt] assms(3) by (simp add: find_end_of_run_def Let_def)
qed

lemma pass_loop_passes:
  assumes "tail_at l = t"
  shows "lst h (P @ xs @ [t]) \<Longrightarrow> P \<noteq> [] \<Longrightarrow> cnt + length xs < 2 ^ 64 \<Longrightarrow>
   \<exists>h'. pass_loop (by_key key) l (Some (hd (xs @ [t]))) cnt h = Some (cnt + fst (sort_pass (by_key key) xs), h') \<and>
        lst h' (P @ snd (sort_pass (by_key key) xs) @ [t]) \<and> lcon h' = lcon h \<and> (\<forall>c. live c h' = live c h)"
proof (induction xs arbitrary: P h cnt rule: two_runs_induct [of _ "by_key key"])
  case Nil
  then show ?case using assms by (subst pass_loop.simps) (simp add: list_end_def sort_pass_cases)
next
  case (one xs r1)
  have "hd xs \<noteq> t" "xs = r1" using one ascend_split [OF one(2)] by (auto simp: lst_def)
  moreover have "size_add cnt 1 = Suc cnt" using one(1,5) by (cases xs) (auto simp: size_add_def)
  moreover have "find_end_of_run (by_key key) (Some (hd xs)) (Some t) h = Some (Some t, h)"
    using find_end_of_run_finds [OF _ one(1,2), of h P t "[]"] one(3) by simp
  ultimately show ?case using one assms
    by (subst pass_loop.simps) (simp add: list_end_def sort_pass_cases(2) Let_def)
next
  case (two xs r1 xs1 r2 xs2)
  note xs = ascend_split [OF two(2)] and xs1 = ascend_split [OF two(4)]
  have ne: "r1 \<noteq> []" "r2 \<noteq> []" using ascend_nonempty [of xs "by_key key"] ascend_nonempty [of xs1 "by_key key"] two(1-4) by auto
  have srt: "sorted (map key r1)" "sorted (map key r2)" using ascend_sorted [of key xs] ascend_sorted [of key xs1] two(2,4) by simp_all
  have len: "length xs = length r1 + length r2 + length xs2" using xs xs1 by simp
  have hds: "hd (xs @ [t]) = hd r1" "hd xs = hd r1" "hd xs1 = hd r2" "hd (xs1 @ [t]) = hd r2" using xs xs1 ne by auto
  have nt: "hd r1 \<noteq> t" "hd r2 \<noteq> t" using two.prems(1) xs xs1 ne by (auto simp: lst_def)
  have cnt: "size_add cnt 1 = Suc cnt" using two.prems(3) len ne by (cases r1) (auto simp: size_add_def)
  have e1: "find_end_of_run (by_key key) (Some (hd r1)) (Some t) h = Some (Some (hd r2), h)"
    using find_end_of_run_finds [OF _ two(1,2), of h P t "[]"] two.prems(1) hds by simp
  have e2: "find_end_of_run (by_key key) (Some (hd r2)) (Some t) h = Some (Some (hd (xs2 @ [t])), h)"
    using find_end_of_run_finds [OF _ two(3,4), of h "P @ r1" t "[]"] two.prems(1) xs hds by simp
  obtain b R where b: "xs2 @ [t] = b # R" by (cases "xs2 @ [t]") auto
  have "lst h (P @ r1 @ r2 @ b # R)" using two.prems(1) xs xs1 b by simp
  from inplace_merge_merges [OF this two.prems(2) ne srt] obtain h1 where
    h1: "inplace_merge (by_key key) (Some (hd r1)) (Some (hd r2)) (Some b) h = Some h1"
      "lst h1 ((P @ merge_runs (by_key key) r1 r2) @ xs2 @ [t])" "lcon h1 = lcon h" "\<forall>c. live c h1 = live c h" by (auto simp: b)
  from two.IH [OF h1(2), of "Suc cnt"] two.prems(2,3) len ne obtain h' where
    h': "pass_loop (by_key key) l (Some b) (Suc cnt) h1 = Some (Suc cnt + fst (sort_pass (by_key key) xs2), h')"
      "lst h' (P @ merge_runs (by_key key) r1 r2 @ snd (sort_pass (by_key key) xs2) @ [t])" "lcon h' = lcon h1"
      "\<forall>c. live c h' = live c h1"
    by (cases r1; auto simp: b)
  have "pass_loop (by_key key) l (Some (hd r1)) cnt h = pass_loop (by_key key) l (Some b) (Suc cnt) h1"
    using nt e1 e2 h1(1) cnt assms b by (subst pass_loop.simps) (simp add: list_end_def Let_def)
  then show ?case using h' h1(3,4) hds by (simp add: sort_pass_cases(3) [OF two(2-4)])
qed

lemma sort_loop_sorts:
  "list_ok l xs h \<Longrightarrow> length xs < 2 ^ 64 \<Longrightarrow>
   \<exists>h'. sort_loop (by_key key) l h = Some h' \<and> list_ok l (sort_key key xs) h' \<and> lcon h' = lcon h \<and> (\<forall>c. live c h' = live c h)"
proof (induction "descents key xs" arbitrary: xs h rule: less_induct)
  case less
  let ?n = "fst (sort_pass (by_key key) xs)" and ?ys = "snd (sort_pass (by_key key) xs)"
  have lst: "lst h ([head_at l] @ xs @ [tail_at l])" using less.prems(1) by (simp add: list_ok_def)
  from pass_loop_passes [OF refl lst, of 0 key] less.prems(2) obtain h1 where
    h1: "pass_loop (by_key key) l (Some (hd (xs @ [tail_at l]))) 0 h = Some (?n, h1)" "list_ok l ?ys h1" "lcon h1 = lcon h"
      "\<forall>c. live c h1 = live c h"
    by (auto simp: list_ok_def)
  have step: "sort_loop (by_key key) l h = (if 1 < ?n then sort_loop (by_key key) l h1 else Some h1)"
    using h1(1) list_begin_ok [OF less.prems(1)] by (subst sort_loop.simps) simp
  show ?case
  proof (cases "1 < ?n")
    case True
    have "length ?ys = length xs" using mset_sort_pass [of "by_key key" xs] by (metis mset_eq_length)
    with less.hyps [OF sort_pass_progress [OF True] h1(2)] less.prems(2) obtain h' where
      "sort_loop (by_key key) l h1 = Some h'" "list_ok l (sort_key key ?ys) h'" "lcon h' = lcon h1" "\<forall>c. live c h' = live c h1" by auto
    moreover have "sort_key key ?ys = sort_key key xs" by (rule sort_key_stable_eq) (simp_all add: mset_sort_pass sort_pass_stable)
    ultimately show ?thesis using step True h1(3,4) by simp
  next
    case False
    then show ?thesis using step h1(2-4) sort_pass_last [of key xs] by simp
  qed
qed

lemma list_sort_sorts:
  assumes "list_ok l xs h" "length xs < 2 ^ 64"
  shows "\<exists>h'. list_sort (by_key key) l h = Some h' \<and> list_ok l (sort_key key xs) h' \<and> lcon h' = lcon h \<and> (\<forall>c. live c h' = live c h)"
proof -
  from sort_loop_sorts [OF assms, of key] obtain h' where
    h': "sort_loop (by_key key) l h = Some h'" "list_ok l (sort_key key xs) h'" "lcon h' = lcon h" "\<forall>c. live c h' = live c h" by blast
  let ?ys = "sort_key key xs" and ?t = "tail_at l"
  have "is_sorted (by_key key) (Some (hd (?ys @ [?t]))) (Some ?t) h' = Some (True, h')"
  proof (cases "?ys = []")
    case False
    then have "hd ?ys \<noteq> ?t" using h'(2) hd_in_set [of ?ys] by (auto simp: list_ok_def lst_def)
    then show ?thesis
      using is_sorted_decides [of h' "[head_at l]" ?ys ?t "[]" key] False h'(2) by (simp add: is_sorted_def list_ok_def)
  qed (simp add: is_sorted_def)
  then show ?thesis using h' list_begin_ok [OF h'(2)] by (simp add: list_sort_def list_end_def)
qed

end
