(* ===== verification/Kernel_List_Spec.thy ===== *)
theory Kernel_List_Spec
  imports Kernel_Sort
begin

text \<open>
  The other operations of the doubly linked list: reversal, the two ends (the contract \<open>deque\<close> of the ready queue holds for it too), extrema, ordered
  insertion and the removal of duplicates; and the properties of the list.
\<close>

section \<open>Reversal\<close>

text \<open>The loop has exchanged the two links of the elements \<open>xs\<close> it has passed.\<close>

lemma reverse_loop_swaps:
  assumes "tail_at l = t"
  shows "distinct (xs @ [t]) \<Longrightarrow> (\<forall>a \<in> set xs. live a h) \<Longrightarrow>
    (\<forall>i < length xs. nx h (xs ! i) = Some (Some ((xs @ [t]) ! Suc i))) \<Longrightarrow>
    \<exists>h'. reverse_loop l (Some (hd (xs @ [t]))) h = Some h' \<and> lcon h' = lcon h \<and> (\<forall>c. live c h' = live c h) \<and>
      (\<forall>a. nx h' a = (if a \<in> set xs then pv h a else nx h a)) \<and> (\<forall>a. pv h' a = (if a \<in> set xs then nx h a else pv h a))"
proof (induction xs arbitrary: h)
  case Nil
  then show ?case using assms by (subst reverse_loop.simps) (simp add: list_end_def)
next
  case (Cons x xs)
  obtain p where p: "pv h x = Some p" using Cons.prems(2) by (auto simp: live_def rd_prev_def)
  have n: "nx h x = Some (Some (hd (xs @ [t])))" using Cons.prems(3) [rule_format, of 0] by (cases xs) auto
  let ?h = "set_nx x p (set_pv x (Some (hd (xs @ [t]))) h)"
  have sw: "swap_links (Some x, Prev) (Some x, Next) h = Some ?h"
    using p n Cons.prems(2) by (simp add: swap_links_def rd_link_def wr_link_def wr_next_eq wr_prev_eq)
  have nx: "nx ?h (xs ! i) = Some (Some ((xs @ [t]) ! Suc i))" if "i < length xs" for i
    using Cons.prems(1) Cons.prems(3) [rule_format, of "Suc i"] that by (auto simp: nth_mem)
  from Cons.IH [of ?h] Cons.prems(1,2) nx obtain h' where
    h': "reverse_loop l (Some (hd (xs @ [t]))) ?h = Some h'" "lcon h' = lcon h" "\<forall>c. live c h' = live c h"
      "\<forall>a. nx h' a = (if a \<in> set xs then pv ?h a else nx ?h a)" "\<forall>a. pv h' a = (if a \<in> set xs then nx ?h a else pv ?h a)" by auto
  have "reverse_loop l (Some x) h = reverse_loop l (Some (hd (xs @ [t]))) ?h"
    using Cons.prems(1,2) sw assms by (subst reverse_loop.simps) (simp add: list_end_def)
  moreover have "x \<notin> set xs" "live x h" using Cons.prems(1,2) by auto
  ultimately show ?case using h' p n by (intro exI [of _ h']) auto
qed

text \<open>A well-linked list read backwards is well-linked in the other direction.\<close>

fun rlinks :: "lheap \<Rightarrow> nat list \<Rightarrow> bool" where
  "rlinks h (a # b # zs) \<longleftrightarrow> pv h a = Some (Some b) \<and> nx h b = Some (Some a) \<and> rlinks h (b # zs)"
| "rlinks h zs \<longleftrightarrow> True"

lemma rlinks_rev: "links h (rev zs) = rlinks h zs"
proof (induction h zs rule: rlinks.induct)
  case (1 h a b zs)
  have "links h (rev (a # b # zs)) \<longleftrightarrow> links h (rev (b # zs)) \<and> nx h b = Some (Some a) \<and> pv h a = Some (Some b)"
    using links_append [of h "rev (b # zs)" "[a]"] by simp
  with 1 show ?case by auto
qed auto

lemma rlinks_swapped:
  "links h zs \<Longrightarrow> (\<And>a. a \<in> set zs \<Longrightarrow> nx h' a = pv h a) \<Longrightarrow> (\<And>a. a \<in> set zs \<Longrightarrow> pv h' a = nx h a) \<Longrightarrow> rlinks h' zs"
  by (induction h zs rule: links.induct) auto

lemma links_nth: "links h zs \<Longrightarrow> Suc i < length zs \<Longrightarrow> nx h (zs ! i) = Some (Some (zs ! Suc i))"
proof (induction h zs arbitrary: i rule: links.induct)
  case (1 h a b zs)
  then show ?case by (cases i) auto
qed auto

lemma list_reverse_reverses:
  assumes "list_ok l xs h"
  shows "\<exists>h'. list_reverse l h = Some h' \<and> list_ok l (rev xs) h' \<and> lcon h' = lcon h"
proof (cases "xs = []")
  case True
  then show ?thesis using assms list_empty_ok [OF assms] by (simp add: list_reverse_def)
next
  case False
  let ?hd = "head_at l" and ?t = "tail_at l" and ?f = "hd xs" and ?g = "last xs"
  have d: "distinct (?hd # xs @ [?t])" and lk: "links h (?hd # xs @ [?t])"
    and e: "pv h ?hd = Some None" "nx h ?t = Some None" using assms by (auto simp: list_ok_def lst_def)
  have ends: "nx h ?hd = Some (Some ?f)" "pv h ?f = Some (Some ?hd)" "nx h ?g = Some (Some ?t)" "pv h ?t = Some (Some ?g)" "links h xs"
    using lk False by (auto simp: links_append links_Cons)
  have nth: "nx h (xs ! i) = Some (Some ((xs @ [?t]) ! Suc i))" if "i < length xs" for i
    using links_nth [of h "xs @ [?t]" i] lk that by (simp add: nth_append links_Cons)
  then have lv: "\<forall>a \<in> set xs. live a h" by (metis in_set_conv_nth nx_live)
  from reverse_loop_swaps [OF refl, of xs l h] d lv nth obtain h1 where
    h1: "reverse_loop l (Some (hd (xs @ [?t]))) h = Some h1" "lcon h1 = lcon h" "\<forall>c. live c h1 = live c h"
      "\<forall>a. nx h1 a = (if a \<in> set xs then pv h a else nx h a)" "\<forall>a. pv h1 a = (if a \<in> set xs then nx h a else pv h a)" by auto
  have m: "?f \<in> set xs" "?g \<in> set xs" "?hd \<notin> set xs" "?t \<notin> set xs" "?hd \<noteq> ?t" using d False by auto
  have live: "live ?hd h" "live ?t h" "live ?f h" "live ?g h" using ends nx_live pv_live by blast+
  let ?h2 = "set_pv ?t (Some ?f) (set_nx ?hd (Some ?g) h1)"
  let ?h3 = "set_nx ?f (Some ?t) (set_pv ?g (Some ?hd) ?h2)"
  have s2: "swap_links (Some ?hd, Next) (Some ?t, Prev) h1 = Some ?h2"
    using h1 m ends live by (simp add: swap_links_def rd_link_def wr_link_def wr_next_eq wr_prev_eq)
  have s3: "swap_links (Some ?g, Prev) (Some ?f, Next) ?h2 = Some ?h3"
    using h1 m ends live by (auto simp: swap_links_def rd_link_def wr_link_def wr_next_eq wr_prev_eq)
  have run: "list_reverse l h = Some ?h3"
    using list_empty_ok [OF assms] list_begin_ok [OF assms] False h1 m live s2 s3 by (auto simp: list_reverse_def)
  have "rlinks h1 xs" by (rule rlinks_swapped [OF ends(5)]) (use h1 in auto)
  then have "links h1 (rev xs)" by (simp add: rlinks_rev)
  moreover have "?f \<notin> set (butlast (rev xs))" "?g \<notin> set (tl (rev xs))" "?hd \<notin> set (butlast (rev xs))" "?t \<notin> set (tl (rev xs))"
    using d False last_notin_butlast [of "rev xs"] hd_notin_tl [of "rev xs"] m by (simp_all add: last_rev hd_rev in_butlast)
  ultimately have "links ?h3 (rev xs)" by simp
  moreover have "nx ?h3 ?hd = Some (Some ?g)" "pv ?h3 ?g = Some (Some ?hd)" "nx ?h3 ?f = Some (Some ?t)" "pv ?h3 ?t = Some (Some ?f)"
      "pv ?h3 ?hd = Some None" "nx ?h3 ?t = Some None"
    using h1 m e live by auto
  ultimately have "list_ok l (rev xs) ?h3"
    using d False by (auto simp: list_ok_def lst_def links_append links_Cons hd_append hd_rev last_rev)
  then show ?thesis using run h1(2) by auto
qed

section \<open>The two ends\<close>

lemma links_determine:
  "links h (x # zs) \<Longrightarrow> links h (x # ws) \<Longrightarrow> nx h (last (x # zs)) = Some None \<Longrightarrow> nx h (last (x # ws)) = Some None \<Longrightarrow> zs = ws"
proof (induction zs arbitrary: x ws)
  case Nil
  then show ?case by (cases ws) (auto simp: links_Cons)
next
  case (Cons z zs)
  then have "nx h x = Some (Some z)" by (simp add: links_Cons)
  with Cons.prems obtain ws' where ws: "ws = z # ws'" by (cases ws) (auto simp: links_Cons)
  with Cons.IH [of z ws'] Cons.prems show ?case by (simp add: links_Cons)
qed

lemma list_ok_determines: "list_ok l xs h \<Longrightarrow> list_ok l ys h \<Longrightarrow> xs = ys"
  using links_determine [of h "head_at l" "xs @ [tail_at l]" "ys @ [tail_at l]"] by (simp add: list_ok_def lst_def)

definition in_list :: "klist \<Rightarrow> nat \<Rightarrow> lheap \<Rightarrow> bool" where
  "in_list l a h \<longleftrightarrow> (\<exists>xs. list_ok l xs h \<and> a \<in> set (head_at l # xs @ [tail_at l]))"

definition enterable :: "klist \<Rightarrow> nat \<Rightarrow> lheap \<Rightarrow> bool" where
  "enterable l a h \<longleftrightarrow> live a h \<and> \<not> in_list l a h"

lemma in_list_iff: "list_ok l xs h \<Longrightarrow> in_list l a h \<longleftrightarrow> a \<in> set (head_at l # xs @ [tail_at l])"
  unfolding in_list_def using list_ok_determines by blast

definition kpop :: "klist \<Rightarrow> lheap \<Rightarrow> (nat \<times> lheap) option" where
  "kpop l h = do { (p, h1) \<leftarrow> list_pop_front l h; a \<leftarrow> p; Some (a, h1) }"

lemma push_back_ok:
  assumes "list_ok l xs h" "live a h" "a \<notin> set (head_at l # xs @ [tail_at l])"
  shows "\<exists>h'. list_push_back l (Some a) h = Some h' \<and> list_ok l (xs @ [a]) h' \<and> lcon h' = lcon h \<and> (\<forall>c. live c h' = live c h) \<and>
           (\<forall>zs. set zs \<inter> set (head_at l # xs @ [a, tail_at l]) = {} \<longrightarrow> lst h' zs = lst h zs)"
  using list_insert_lst [of h "head_at l # xs" "tail_at l" "[]" a] assms by (simp add: list_ok_def list_push_back_def list_end_def)

lemma push_front_ok:
  assumes "list_ok l xs h" "live a h" "a \<notin> set (head_at l # xs @ [tail_at l])"
  shows "\<exists>h'. list_push_front l (Some a) h = Some h' \<and> list_ok l (a # xs) h' \<and> lcon h' = lcon h \<and> (\<forall>c. live c h' = live c h)"
proof -
  obtain b R where b: "xs @ [tail_at l] = b # R" by (cases "xs @ [tail_at l]") auto
  have "lst h ([head_at l] @ b # R)" using assms(1) b by (simp add: list_ok_def)
  from list_insert_lst [OF this, of a] assms(2,3) b list_begin_ok [OF assms(1)] show ?thesis
    by (auto simp: list_ok_def list_push_front_def)
qed

lemma pop_front_ok:
  assumes "list_ok l (x # xs) h"
  shows "\<exists>h'. list_pop_front l h = Some (Some x, h') \<and> list_ok l xs h' \<and> lcon h' = lcon h \<and> (\<forall>c. live c h' = live c h)"
proof -
  have "nx h (head_at l) = Some (Some x)" using assms by (simp add: list_ok_def lst_def)
  moreover from list_remove_lst [of h "[head_at l]" x "xs @ [tail_at l]"] assms obtain h' where
    "list_remove (Some x) h = Some (Some (hd (xs @ [tail_at l])), h')" "list_ok l xs h'" "lcon h' = lcon h" "\<forall>c. live c h' = live c h"
    by (auto simp: list_ok_def)
  ultimately show ?thesis using list_empty_ok [OF assms] by (simp add: list_pop_front_def list_front_def)
qed

lemma pop_back_ok:
  assumes "list_ok l (xs @ [x]) h"
  shows "\<exists>h'. list_pop_back l h = Some (Some x, h') \<and> list_ok l xs h' \<and> lcon h' = lcon h \<and> (\<forall>c. live c h' = live c h)"
proof -
  have "pv h (tail_at l) = Some (Some x)" using assms lst_step(2) [of h "head_at l # xs" x "[tail_at l]"] by (simp add: list_ok_def)
  moreover from list_remove_lst [of h "head_at l # xs" x "[tail_at l]"] assms obtain h' where
    "list_remove (Some x) h = Some (Some (tail_at l), h')" "list_ok l xs h'" "lcon h' = lcon h" "\<forall>c. live c h' = live c h"
    by (auto simp: list_ok_def)
  ultimately show ?thesis using list_empty_ok [OF assms] by (simp add: list_pop_back_def list_back_def)
qed

interpretation kl: deque "\<lambda>h xs. list_ok l xs h" "enterable l" "\<lambda>a. list_push_back l (Some a)" "\<lambda>a. list_push_front l (Some a)" "kpop l" for l
proof unfold_locales
  fix h xs x
  assume q: "list_ok l xs h" and x: "enterable l x h"
  then have x': "live x h" "x \<notin> set (head_at l # xs @ [tail_at l])" by (simp_all add: enterable_def in_list_iff [OF q])
  show "\<exists>h'. list_push_back l (Some x) h = Some h' \<and> list_ok l (xs @ [x]) h' \<and> (\<forall>y. y \<noteq> x \<and> enterable l y h \<longrightarrow> enterable l y h')"
    using push_back_ok [OF q x'] in_list_iff [OF q] in_list_iff [of l "xs @ [x]"] by (fastforce simp: enterable_def)
  show "\<exists>h'. list_push_front l (Some x) h = Some h' \<and> list_ok l (x # xs) h' \<and> (\<forall>y. y \<noteq> x \<and> enterable l y h \<longrightarrow> enterable l y h')"
    using push_front_ok [OF q x'] in_list_iff [OF q] in_list_iff [of l "x # xs"] by (fastforce simp: enterable_def)
next
  fix h xs x
  assume q: "list_ok l (x # xs) h"
  have "live x h" "x \<notin> set (head_at l # xs @ [tail_at l])"
    using q nx_live [of x h] lst_step(1) [of h "[head_at l]" x "xs @ [tail_at l]"] by (auto simp: list_ok_def lst_def)
  with pop_front_ok [OF q] show "\<exists>h'. kpop l h = Some (x, h') \<and> list_ok l xs h' \<and> enterable l x h'"
    using in_list_iff [of l xs] by (fastforce simp: kpop_def enterable_def)
qed

section \<open>Counting, extrema and ordered insertion\<close>

lemma loop_step:
  assumes "lst h (P @ (x # xs) @ [t])"
  shows "list_next (Some x) h = Some (Some (hd (xs @ [t])), h)" "x \<noteq> t" "lst h ((P @ [x]) @ xs @ [t])"
  using step_back(1) [of h P x "xs @ [t]"] assms by (auto simp: lst_def)

lemma size_loop_counts:
  "lst h (P @ xs @ [tail_at l]) \<Longrightarrow> P \<noteq> [] \<Longrightarrow> cnt + length xs < 2 ^ 64 \<Longrightarrow> size_loop l (Some (hd (xs @ [tail_at l]))) cnt h = Some (cnt + length xs, h)"
proof (induction xs arbitrary: P cnt)
  case Nil
  then show ?case by (subst size_loop.simps) (simp add: list_end_def)
next
  case (Cons x xs)
  note st = loop_step [OF Cons.prems(1)]
  have "size_add cnt 1 = Suc cnt" using Cons.prems(3) by (simp add: size_add_def)
  then show ?case using st Cons.IH [OF st(3), of "Suc cnt"] Cons.prems by (subst size_loop.simps) (simp add: list_end_def)
qed

lemma max_loop_chooses:
  "lst h (P @ xs @ [tail_at l]) \<Longrightarrow> P \<noteq> [] \<Longrightarrow>
   max_loop lt l (Some m) (Some (hd (xs @ [tail_at l]))) h = Some (Some (foldl (\<lambda>m e. if lt m e then e else m) m xs), h)"
proof (induction xs arbitrary: P m)
  case Nil
  then show ?case by (subst max_loop.simps) (simp add: list_end_def)
next
  case (Cons x xs)
  note st = loop_step [OF Cons.prems(1)]
  show ?case using st Cons.IH [OF st(3)] by (subst max_loop.simps) (simp add: list_end_def call_less_def)
qed

lemma min_loop_chooses:
  "lst h (P @ xs @ [tail_at l]) \<Longrightarrow> P \<noteq> [] \<Longrightarrow>
   min_loop lt l (Some m) (Some (hd (xs @ [tail_at l]))) h = Some (Some (foldl (\<lambda>m e. if lt e m then e else m) m xs), h)"
proof (induction xs arbitrary: P m)
  case Nil
  then show ?case by (subst min_loop.simps) (simp add: list_end_def)
next
  case (Cons x xs)
  note st = loop_step [OF Cons.prems(1)]
  show ?case using st Cons.IH [OF st(3)] by (subst min_loop.simps) (simp add: list_end_def call_less_def)
qed

lemma ordered_loop_finds:
  "lst h (P @ xs @ [tail_at l]) \<Longrightarrow> P \<noteq> [] \<Longrightarrow>
   ordered_loop lt l (Some a) (Some (hd (xs @ [tail_at l]))) h = Some (Some (hd (dropWhile (\<lambda>x. \<not> lt a x) xs @ [tail_at l])), h)"
proof (induction xs arbitrary: P)
  case Nil
  then show ?case by (subst ordered_loop.simps) (simp add: list_end_def)
next
  case (Cons x xs)
  note st = loop_step [OF Cons.prems(1)]
  show ?case using st Cons.IH [OF st(3)] by (subst ordered_loop.simps) (simp add: list_end_def call_less_def)
qed

lemma foldl_first_best:
  fixes key :: "'a \<Rightarrow> 'k::linorder"
  assumes "r = foldl (\<lambda>m e. if key m < key e then e else m) (hd xs) (tl xs)" "xs \<noteq> []"
  shows "\<exists>i < length xs. r = xs ! i \<and> (\<forall>j < length xs. key (xs ! j) \<le> key (xs ! i)) \<and> (\<forall>j < i. key (xs ! j) < key (xs ! i))"
  using assms
proof (induction xs arbitrary: r rule: rev_induct)
  case (snoc x xs)
  show ?case
  proof (cases "xs = []")
    case False
    let ?m = "foldl (\<lambda>m e. if key m < key e then e else m) (hd xs) (tl xs)"
    from snoc.IH [OF refl False] obtain i where
      i: "i < length xs" "?m = xs ! i" "\<forall>j < length xs. key (xs ! j) \<le> key (xs ! i)" "\<forall>j < i. key (xs ! j) < key (xs ! i)" by blast
    have r: "r = (if key ?m < key x then x else ?m)" using snoc.prems(1) False by simp
    show ?thesis
    proof (cases "key ?m < key x")
      case True
      then show ?thesis using i r by (intro exI [of _ "length xs"]) (auto simp: nth_append less_Suc_eq intro: le_less_trans)
    next
      case False
      then show ?thesis using i r by (intro exI [of _ i]) (auto simp: nth_append less_Suc_eq)
    qed
  qed (use snoc.prems in simp)
qed simp

lemma list_max_first:
  assumes "list_ok l xs h" "xs \<noteq> []"
  shows "list_max lt l h = Some (Some (foldl (\<lambda>m e. if lt m e then e else m) (hd xs) (tl xs)), h)"
    "list_min lt l h = Some (Some (foldl (\<lambda>m e. if lt e m then e else m) (hd xs) (tl xs)), h)"
proof -
  obtain x ys where xs: "xs = x # ys" using assms(2) by (cases xs) auto
  then have "lst h ([head_at l] @ (x # ys) @ [tail_at l])" using assms(1) by (simp add: list_ok_def)
  note st = loop_step [OF this]
  show "list_max lt l h = Some (Some (foldl (\<lambda>m e. if lt m e then e else m) (hd xs) (tl xs)), h)"
    using list_begin_ok [OF assms(1)] st(1,2) max_loop_chooses [OF st(3)] xs by (simp add: list_max_def list_end_def)
  show "list_min lt l h = Some (Some (foldl (\<lambda>m e. if lt e m then e else m) (hd xs) (tl xs)), h)"
    using list_begin_ok [OF assms(1)] st(1,2) min_loop_chooses [OF st(3)] xs by (simp add: list_min_def list_end_def)
qed

lemma sorted_around:
  fixes key :: "'a \<Rightarrow> 'k::linorder"
  assumes "sorted (map key A)" "sorted (map key B)" "\<forall>x \<in> set A. \<forall>y \<in> set B. key x \<le> key y"
    and "\<forall>x \<in> set A. key x \<le> key a" "\<forall>x \<in> set B. key a < key x"
  shows "sorted (map key (A @ a # B))"
proof -
  have "\<forall>x \<in> set B. key a \<le> key x" using assms(5) less_imp_le by blast
  with assms(1-4) show ?thesis by (simp add: sorted_append)
qed

lemma sort_key_snoc:
  assumes "sorted (map key xs)"
  shows "sort_key key (xs @ [a]) = takeWhile (\<lambda>x. \<not> key a < key x) xs @ a # dropWhile (\<lambda>x. \<not> key a < key x) xs"
proof (rule properties_for_sort_key)
  let ?A = "takeWhile (\<lambda>x. \<not> key a < key x) xs" and ?B = "dropWhile (\<lambda>x. \<not> key a < key x) xs"
  have srt: "sorted (map key (?A @ ?B))" using assms by simp
  have fl: "filter P xs = filter P ?A @ filter P ?B" for P by (metis filter_append takeWhile_dropWhile_id)
  have "mset xs = mset ?A + mset ?B" by (metis mset_append takeWhile_dropWhile_id)
  then show "mset (?A @ a # ?B) = mset (xs @ [a])" by (simp only: mset_append mset.simps) simp
  have s: "sorted (map key ?A)" "sorted (map key ?B)" "\<forall>x \<in> set ?A. \<forall>y \<in> set ?B. key x \<le> key y"
    using srt by (auto simp only: map_append sorted_append set_map)
  have A: "\<forall>x \<in> set ?A. key x \<le> key a" by (auto dest: set_takeWhileD)
  have B: "\<forall>x \<in> set ?B. key a < key x"
  proof (cases ?B)
    case (Cons y ys)
    then have "key a < key y" using hd_dropWhile [of "\<lambda>x. \<not> key a < key x" xs] by simp
    then show ?thesis using s(2) Cons by auto
  next
    case Nil
    then show ?thesis by (simp only: list.set ball_empty)
  qed
  show "sorted (map key (?A @ a # ?B))" by (rule sorted_around [OF s A B])
  show "filter (\<lambda>x. key k = key x) (?A @ a # ?B) = filter (\<lambda>x. key k = key x) (xs @ [a])" for k
  proof (cases "key k = key a")
    case True
    have "\<forall>x \<in> set ?B. key k \<noteq> key x" using B True by (metis less_irrefl)
    then have "filter (\<lambda>x. key k = key x) ?B = []" unfolding filter_empty_conv .
    then show ?thesis unfolding filter_append fl using True by (simp only: filter.simps append_Nil append_Nil2 if_True simp_thms)
  qed (simp only: fl filter_append filter.simps append_Nil2 if_False append_assoc)
qed

lemma insert_ordered_ok:
  assumes "list_ok l xs h" "live a h" "a \<notin> set (head_at l # xs @ [tail_at l])" "sorted (map key xs)"
  shows "\<exists>h'. list_insert_ordered (by_key key) l (Some a) h = Some h' \<and> list_ok l (sort_key key (xs @ [a])) h' \<and> lcon h' = lcon h"
proof -
  let ?A = "takeWhile (\<lambda>x. \<not> key a < key x) xs" and ?B = "dropWhile (\<lambda>x. \<not> key a < key x) xs"
  obtain b R where b: "?B @ [tail_at l] = b # R" by (cases "?B @ [tail_at l]") auto
  have e: "xs @ [tail_at l] = ?A @ b # R" using b by (metis append_assoc takeWhile_dropWhile_id)
  then have lst: "lst h ((head_at l # ?A) @ b # R)" using assms(1) by (simp add: list_ok_def)
  have "a \<notin> set ((head_at l # ?A) @ b # R)" using assms(3) e by (metis append_Cons)
  from list_insert_lst [OF lst _ this assms(2)] obtain h' where
    h': "list_insert (Some b) (Some a) h = Some h'" "lst h' (head_at l # ?A @ a # b # R)" "lcon h' = lcon h" by auto
  have "ordered_loop (by_key key) l (Some a) (Some (hd (xs @ [tail_at l]))) h = Some (Some b, h)"
    using ordered_loop_finds [of h "[head_at l]" xs l "by_key key" a] assms(1) b by (simp add: list_ok_def)
  with h'(1) list_begin_ok [OF assms(1)] have "list_insert_ordered (by_key key) l (Some a) h = Some h'"
    by (simp add: list_insert_ordered_def Let_def)
  then show ?thesis using h'(2,3) b by (auto simp: sort_key_snoc [OF assms(4)] list_ok_def)
qed

section \<open>Removing duplicates\<close>

text \<open>The elements kept after \<open>x\<close>, and the ones removed.\<close>

fun uniq_split :: "(nat \<Rightarrow> 'k::linorder) \<Rightarrow> nat \<Rightarrow> nat list \<Rightarrow> nat list \<times> nat list" where
  "uniq_split key x [] = ([], [])"
| "uniq_split key x (y # ys) =
     (if key x = key y then map_prod id (Cons y) (uniq_split key x ys) else map_prod (Cons y) id (uniq_split key y ys))"

lemma unique_loop_splits:
  "lst h (P @ (x # xs) @ [t]) \<Longrightarrow> P \<noteq> [] \<Longrightarrow> tail_at l = t \<Longrightarrow> list_ok dl ds h \<Longrightarrow>
   set (P @ x # xs @ [t]) \<inter> set (head_at dl # ds @ [tail_at dl]) = {} \<Longrightarrow>
   \<exists>h'. unique_loop (by_key key) l (Some dl) (Some x) h = Some h' \<and> lst h' (P @ (x # fst (uniq_split key x xs)) @ [t]) \<and>
        list_ok dl (ds @ snd (uniq_split key x xs)) h' \<and> lcon h' = lcon h"
proof (induction xs arbitrary: x P h ds)
  case Nil
  then show ?case using loop_step(1) [OF Nil.prems(1)] by (subst unique_loop.simps) (simp add: list_end_def)
next
  case (Cons y xs)
  note st = loop_step [OF Cons.prems(1)]
  have yt: "y \<noteq> t" using loop_step(2) [OF st(3) [simplified append_Cons, folded append_Cons]] by simp
  show ?case
  proof (cases "key x = key y")
    case True
    have "lst h ((P @ [x]) @ y # (xs @ [t]))" using Cons.prems(1) by simp
    from list_remove_lst [OF this] obtain h1 where
      h1: "list_remove (Some y) h = Some (Some (hd (xs @ [t])), h1)" "lst h1 (P @ (x # xs) @ [t])" "lcon h1 = lcon h"
        "\<forall>c. live c h1 = live c h" "\<forall>zs. set zs \<inter> set ((P @ [x]) @ xs @ [t]) = {} \<longrightarrow> lst h1 zs = lst h zs" by auto
    have "set (head_at dl # ds @ [tail_at dl]) \<inter> set ((P @ [x]) @ xs @ [t]) = {}" using Cons.prems(5) by auto
    with h1(5) Cons.prems(4) have dl1: "list_ok dl ds h1" by (simp only: list_ok_def)
    have "live y h1" using h1(4) lst_step(1) [of h "P @ [x]" y "xs @ [t]"] Cons.prems(1) nx_live by fastforce
    moreover have "y \<notin> set (head_at dl # ds @ [tail_at dl])" using Cons.prems(5) by auto
    ultimately obtain h2 where
      h2: "list_push_back dl (Some y) h1 = Some h2" "list_ok dl (ds @ [y]) h2" "lcon h2 = lcon h1"
        "\<forall>zs. set zs \<inter> set (head_at dl # ds @ [y, tail_at dl]) = {} \<longrightarrow> lst h2 zs = lst h1 zs"
      using push_back_ok [OF dl1, of y] by blast
    have ynot: "y \<notin> set (P @ (x # xs) @ [t])" using Cons.prems(1) by (auto simp: lst_def)
    then have dj: "set (P @ (x # xs) @ [t]) \<inter> set (head_at dl # (ds @ [y]) @ [tail_at dl]) = {}" using Cons.prems(5) by auto
    have "lst h2 (P @ (x # xs) @ [t])" using h2(4) [rule_format, of "P @ (x # xs) @ [t]"] h1(2) dj by simp
    from Cons.IH [OF this Cons.prems(2,3) h2(2)] dj obtain h' where
      h': "unique_loop (by_key key) l (Some dl) (Some x) h2 = Some h'" "lst h' (P @ (x # fst (uniq_split key x xs)) @ [t])"
        "list_ok dl (ds @ y # snd (uniq_split key x xs)) h'" "lcon h' = lcon h2" by auto
    have "unique_loop (by_key key) l (Some dl) (Some x) h = unique_loop (by_key key) l (Some dl) (Some x) h2"
      using st(1) h1(1) h2(1) True yt Cons.prems(3) by (subst unique_loop.simps) (simp add: call_less_def list_end_def)
    then show ?thesis using h' h1(3) h2(3) True by simp
  next
    case False
    from Cons.IH [of h "P @ [x]" y ds] Cons.prems obtain h' where
      h': "unique_loop (by_key key) l (Some dl) (Some y) h = Some h'" "lst h' (P @ x # (y # fst (uniq_split key y xs)) @ [t])"
        "list_ok dl (ds @ snd (uniq_split key y xs)) h'" "lcon h' = lcon h" by auto
    have "unique_loop (by_key key) l (Some dl) (Some x) h = unique_loop (by_key key) l (Some dl) (Some y) h"
      using st(1) False yt Cons.prems(3) by (subst unique_loop.simps) (auto simp: call_less_def list_end_def)
    then show ?thesis using h' False by simp
  qed
qed

lemma uniq_split_props:
  "mset (fst (uniq_split key x xs)) + mset (snd (uniq_split key x xs)) = mset xs"
  "sorted (map key (x # xs)) \<Longrightarrow> sorted (map key (x # fst (uniq_split key x xs))) \<and> distinct (map key (x # fst (uniq_split key x xs)))"
proof (induction xs arbitrary: x)
  case (Cons y ys)
  { case 1 show ?case using Cons.IH(1) [of x] Cons.IH(1) [of y] by auto }
  { case 2
    then have s: "sorted (map key (x # ys))" "sorted (map key (y # ys))" "key x \<le> key y" by auto
    from Cons.IH(2) [OF s(1)] Cons.IH(2) [OF s(2)] s(3) show ?case by (auto simp: order.strict_iff_order intro: order_trans) }
qed auto

lemma uniq_split_keys: "key ` set (x # fst (uniq_split key x xs)) = key ` set (x # xs)"
proof (induction xs arbitrary: x)
  case (Cons y ys)
  show ?case
  proof (cases "key x = key y")
    case True
    then show ?thesis using Cons.IH [of x] by (simp add: insert_absorb2)
  qed (use Cons.IH [of y] in simp)
qed simp

section \<open>An example\<close>

text \<open>A list with headers 0 and 1 and elements 2, 3, 4; an empty one with headers 6 and 7; and a free element 5.\<close>

definition list_a :: klist where
  "list_a = \<lparr>head_at = 0, tail_at = 1\<rparr>"

definition list_b :: klist where
  "list_b = \<lparr>head_at = 6, tail_at = 7\<rparr>"

definition heap8 :: lheap where
  "heap8 = \<lparr>elems = [0 \<mapsto> \<lparr>l_prev = None, l_next = Some 2\<rparr>, 2 \<mapsto> \<lparr>l_prev = Some 0, l_next = Some 3\<rparr>,
      3 \<mapsto> \<lparr>l_prev = Some 2, l_next = Some 4\<rparr>, 4 \<mapsto> \<lparr>l_prev = Some 3, l_next = Some 1\<rparr>,
      1 \<mapsto> \<lparr>l_prev = Some 4, l_next = None\<rparr>, 5 \<mapsto> \<lparr>l_prev = None, l_next = None\<rparr>,
      6 \<mapsto> \<lparr>l_prev = None, l_next = Some 7\<rparr>, 7 \<mapsto> \<lparr>l_prev = Some 6, l_next = None\<rparr>], lcon = []\<rparr>"

lemma heap8_ok: "list_ok list_a [2, 3, 4] heap8" "list_ok list_b [] heap8" "live 5 heap8" "lcon heap8 = []"
  by (simp_all add: list_ok_def lst_def list_a_def list_b_def heap8_def rd_next_def rd_prev_def live_def)

section \<open>Properties\<close>

text \<open>
  C7. \<^verbatim>\<open>list_sort\<close> is a stable sort in place: on a well-linked list of any length, with the comparison of any key, the natural merge
  sort terminates, no assertion fails, and the list is again well-linked, with its elements in the order that the stable sort of the
  library gives them.
\<close>

theorem list_sort_is_stable_sort:
  fixes key :: "nat \<Rightarrow> 'k::linorder"
  assumes "list_ok l xs h" "length xs < 2 ^ 64"
  shows "\<exists>h'. list_sort (\<lambda>a b. key a < key b) l h = Some h' \<and> list_ok l (sort_key key xs) h' \<and> lcon h' = lcon h"
  using list_sort_sorts [OF assms, of key] by blast

theorem list_sort_is_stable_sort_witness:
  "\<exists>h'. list_sort (\<lambda>a b. 10 - a < 10 - b) list_a heap8 = Some h' \<and> list_ok list_a [4, 3, 2] h'"
  using list_sort_is_stable_sort [OF heap8_ok(1), of "\<lambda>a. 10 - a"] by auto

text \<open>
  \<^verbatim>\<open>list_reverse\<close> exchanges the links of a list in place: the list is again well-linked, with its elements in reverse order.
\<close>

theorem list_reverse_is_rev:
  assumes "list_ok l xs h"
  shows "\<exists>h'. list_reverse l h = Some h' \<and> list_ok l (rev xs) h' \<and> lcon h' = lcon h"
  using assms by (rule list_reverse_reverses)

theorem list_reverse_is_rev_witness:
  "\<exists>h'. list_reverse list_a heap8 = Some h' \<and> list_ok list_a [4, 3, 2] h'"
  using list_reverse_is_rev [OF heap8_ok(1)] by auto

text \<open>
  C28. The list is a double-ended queue: while the element is not in the list, \<^verbatim>\<open>list_push_back\<close> appends it and \<^verbatim>\<open>list_push_front\<close> puts
  it first; elements pushed at the back of an empty list are popped from the front in the same order.
\<close>

theorem kernel_list_is_deque:
  assumes "list_ok l xs h" "live a h" "a \<notin> set (head_at l # xs @ [tail_at l])"
  shows "\<exists>h1 h2 h3 h4. list_push_back l (Some a) h = Some h1 \<and> list_ok l (xs @ [a]) h1 \<and>
           list_pop_back l h1 = Some (Some a, h2) \<and> list_ok l xs h2 \<and>
           list_push_front l (Some a) h = Some h3 \<and> list_ok l (a # xs) h3 \<and>
           list_pop_front l h3 = Some (Some a, h4) \<and> list_ok l xs h4 \<and> lcon h2 = lcon h \<and> lcon h4 = lcon h"
proof -
  from push_back_ok [OF assms] obtain h1 where h1: "list_push_back l (Some a) h = Some h1" "list_ok l (xs @ [a]) h1" "lcon h1 = lcon h" by blast
  from push_front_ok [OF assms] obtain h3 where h3: "list_push_front l (Some a) h = Some h3" "list_ok l (a # xs) h3" "lcon h3 = lcon h" by blast
  from pop_back_ok [OF h1(2)] pop_front_ok [OF h3(2)] h1 h3 show ?thesis by auto
qed

theorem kernel_list_is_deque_witness:
  "\<exists>h1 h2. list_push_back list_a (Some 5) heap8 = Some h1 \<and> list_ok list_a [2, 3, 4, 5] h1 \<and> list_pop_back list_a h1 = Some (Some 5, h2)"
  using kernel_list_is_deque [OF heap8_ok(1,3)] by (auto simp: list_a_def)

text \<open>
  \<^verbatim>\<open>list_insert_ordered\<close> keeps a list in order: the element is inserted where the stable sort of the list with the element at
  its end would put it, after the elements that are equal to it.
\<close>

theorem list_insert_ordered_keeps_order:
  fixes key :: "nat \<Rightarrow> 'k::linorder"
  assumes "list_ok l xs h" "live a h" "a \<notin> set (head_at l # xs @ [tail_at l])" "sorted (map key xs)"
  shows "\<exists>h'. list_insert_ordered (\<lambda>a b. key a < key b) l (Some a) h = Some h' \<and> list_ok l (sort_key key (xs @ [a])) h' \<and> lcon h' = lcon h"
  using assms by (rule insert_ordered_ok)

theorem list_insert_ordered_keeps_order_witness:
  "\<exists>h'. list_insert_ordered (\<lambda>a b. a div 2 < b div 2) list_a (Some 5) heap8 = Some h' \<and> list_ok list_a [2, 3, 4, 5] h'"
  using list_insert_ordered_keeps_order [OF heap8_ok(1,3), of "\<lambda>a. a div 2"] by (auto simp: list_a_def)

text \<open>
  \<^verbatim>\<open>list_unique\<close> on an ordered list leaves exactly one element for each key, in order, and appends the others to the list of duplicates.
\<close>

theorem list_unique_keeps_one_per_key:
  fixes key :: "nat \<Rightarrow> 'k::linorder"
  assumes "list_ok l xs h" "sorted (map key xs)" "list_ok dl ds h"
    and "set (head_at l # xs @ [tail_at l]) \<inter> set (head_at dl # ds @ [tail_at dl]) = {}"
  shows "\<exists>h' ys zs. list_unique (\<lambda>a b. key a < key b) l (Some dl) h = Some h' \<and> list_ok l ys h' \<and> list_ok dl (ds @ zs) h' \<and>
           mset ys + mset zs = mset xs \<and> sorted (map key ys) \<and> distinct (map key ys) \<and> key ` set ys = key ` set xs \<and> lcon h' = lcon h"
proof (cases xs)
  case Nil
  then show ?thesis using assms list_empty_ok [OF assms(1)]
    by (intro exI [of _ h] exI [of _ "[]"]) (simp add: list_unique_def)
next
  case (Cons x ys)
  have "lst h ([head_at l] @ (x # ys) @ [tail_at l])" using assms(1) Cons by (simp add: list_ok_def)
  from unique_loop_splits [OF this _ refl assms(3), of key] assms(4) Cons obtain h' where
    h': "unique_loop (\<lambda>a b. key a < key b) l (Some dl) (Some x) h = Some h'" "list_ok l (x # fst (uniq_split key x ys)) h'"
      "list_ok dl (ds @ snd (uniq_split key x ys)) h'" "lcon h' = lcon h" by (auto simp: list_ok_def)
  have run: "list_unique (\<lambda>a b. key a < key b) l (Some dl) h = Some h'"
    using h'(1) list_empty_ok [OF assms(1)] list_begin_ok [OF assms(1)] Cons by (simp add: list_unique_def)
  show ?thesis using run h' uniq_split_props [of key x ys] uniq_split_keys [of key x ys] assms(2) Cons
    by (intro exI [of _ h'] exI [of _ "x # fst (uniq_split key x ys)"] exI [of _ "snd (uniq_split key x ys)"]) simp
qed

theorem list_unique_keeps_one_per_key_witness:
  "\<exists>h' ys zs. list_unique (\<lambda>a b. a div 2 < b div 2) list_a (Some list_b) heap8 = Some h' \<and> list_ok list_a ys h' \<and>
     list_ok list_b zs h' \<and> distinct (map (\<lambda>a. a div 2) ys)"
  using list_unique_keeps_one_per_key [OF heap8_ok(1) _ heap8_ok(2), of "\<lambda>a. a div 2"] by (auto simp: list_a_def list_b_def)

text \<open>
  \<^verbatim>\<open>list_max\<close> returns the first element with the largest key.
\<close>

theorem list_max_is_first_maximum:
  fixes key :: "nat \<Rightarrow> 'k::linorder"
  assumes "list_ok l xs h" "xs \<noteq> []"
  shows "\<exists>i < length xs. list_max (\<lambda>a b. key a < key b) l h = Some (Some (xs ! i), h) \<and>
           (\<forall>j < length xs. key (xs ! j) \<le> key (xs ! i)) \<and> (\<forall>j < i. key (xs ! j) < key (xs ! i))"
  using foldl_first_best [OF refl assms(2), of key] list_max_first(1) [OF assms, of "\<lambda>a b. key a < key b"] by auto

theorem list_max_is_first_maximum_witness:
  "\<exists>i < length [2, 3, 4 :: nat]. list_max (\<lambda>a b. a div 2 < b div 2) list_a heap8 = Some (Some ([2, 3, 4] ! i), heap8)"
proof -
  obtain i where "i < length [2, 3, 4 :: nat]" "list_max (\<lambda>a b. a div 2 < b div 2) list_a heap8 = Some (Some ([2, 3, 4] ! i), heap8)"
    using list_max_is_first_maximum [OF heap8_ok(1) list.distinct(2), of "\<lambda>a. a div 2"] by metis
  then show ?thesis by metis
qed

end
