(* ===== verification/Process_List.thy ===== *)
theory Process_List
  imports Kernel_Links
begin

text \<open>
  The doubly linked list of the third shell (\<^verbatim>\<open>a3/linked_list.c\<close>): nodes with a data pointer between two dummy nodes, and the
  number of nodes. Nodes are allocated in an explicit heap; \<^verbatim>\<open>malloc\<close> is taken to succeed, as the code never looks. A field that
  was never written (the data of the dummy nodes, the link before the first) is \<^term>\<open>None\<close>. The comparison function of a list is an argument, and
  may read the heap. A call of \<^verbatim>\<open>exit\<close> is \<^term>\<open>Inl\<close> of the final state.
\<close>

section \<open>State\<close>

record NODE =
  nd_data :: "nat option"
  nd_next :: ptr
  nd_prev :: ptr

record LINKED_LIST =
  ll_size :: int
  dummy_head :: nat
  dummy_tail :: nat

record heap3 =
  nodes3 :: "nat \<Rightarrow> NODE option"
  next_node3 :: nat
  out3 :: "string list"

definition put3 :: "string \<Rightarrow> 'a heap3_scheme \<Rightarrow> 'a heap3_scheme" where
  "put3 str s = s\<lparr>out3 := out3 s @ [str]\<rparr>"

definition node3 :: "ptr \<Rightarrow> 'a heap3_scheme \<Rightarrow> NODE option" where
  "node3 p s = do { a \<leftarrow> p; nodes3 s a }"

definition upd_node3 :: "ptr \<Rightarrow> (NODE \<Rightarrow> NODE) \<Rightarrow> 'a heap3_scheme \<Rightarrow> 'a heap3_scheme option" where
  "upd_node3 p f s = do { a \<leftarrow> p; n \<leftarrow> nodes3 s a; Some (s\<lparr>nodes3 := (nodes3 s)(a \<mapsto> f n)\<rparr>) }"

abbreviation set_next3 :: "ptr \<Rightarrow> ptr \<Rightarrow> 'a heap3_scheme \<Rightarrow> 'a heap3_scheme option" where
  "set_next3 p v \<equiv> upd_node3 p (nd_next_update (\<lambda>_. v))"

abbreviation set_prev3 :: "ptr \<Rightarrow> ptr \<Rightarrow> 'a heap3_scheme \<Rightarrow> 'a heap3_scheme option" where
  "set_prev3 p v \<equiv> upd_node3 p (nd_prev_update (\<lambda>_. v))"

definition malloc3 :: "'a heap3_scheme \<Rightarrow> nat \<times> 'a heap3_scheme" where
  "malloc3 s = (next_node3 s, s\<lparr>nodes3 := (nodes3 s)(next_node3 s \<mapsto> \<lparr>nd_data = None, nd_next = None, nd_prev = None\<rparr>),
                                next_node3 := Suc (next_node3 s)\<rparr>)"

section \<open>Operations\<close>

definition has_next :: "ptr \<Rightarrow> 'a heap3_scheme \<Rightarrow> bool option" where
  "has_next elem s = do { n \<leftarrow> node3 elem s; Some (nd_next n \<noteq> None) }"

text \<open>\<^verbatim>\<open>next_node\<close> and \<^verbatim>\<open>next\<close> move the pointer they are given: the new pointer is the second result.\<close>

definition next_node :: "ptr \<Rightarrow> 'a heap3_scheme \<Rightarrow> (ptr \<times> ptr) option" where
  "next_node node s = do { n \<leftarrow> node3 node s; Some (node, nd_next n) }"

definition next_data :: "ptr \<Rightarrow> 'a heap3_scheme \<Rightarrow> (nat option \<times> ptr) option" where
  "next_data elem s = do { (ret, elem') \<leftarrow> next_node elem s; n \<leftarrow> node3 ret s; Some (nd_data n, elem') }"

definition list_clear :: "LINKED_LIST \<Rightarrow> 'a heap3_scheme \<Rightarrow> (LINKED_LIST \<times> 'a heap3_scheme) option" where
  "list_clear l s =
     do { s1 \<leftarrow> set_next3 (Some (dummy_head l)) (Some (dummy_tail l)) s;
          s2 \<leftarrow> set_prev3 (Some (dummy_tail l)) (Some (dummy_head l)) s1;
          Some (l\<lparr>ll_size := 0\<rparr>, s2) }"

definition add_tail :: "nat \<Rightarrow> LINKED_LIST \<Rightarrow> 'a heap3_scheme \<Rightarrow> (int \<times> LINKED_LIST \<times> 'a heap3_scheme) option" where
  "add_tail data l s =
     do { let (new_node, s1) = malloc3 s;
          t \<leftarrow> node3 (Some (dummy_tail l)) s1;
          let old_tail = nd_prev t;
          s2 \<leftarrow> upd_node3 (Some new_node) (nd_data_update (\<lambda>_. Some data)) s1;
          s3 \<leftarrow> set_next3 old_tail (Some new_node) s2;
          s4 \<leftarrow> set_prev3 (Some new_node) old_tail s3;
          s5 \<leftarrow> set_next3 (Some new_node) (Some (dummy_tail l)) s4;
          s6 \<leftarrow> set_prev3 (Some (dummy_tail l)) (Some new_node) s5;
          n \<leftarrow> chk32 (ll_size l + 1);
          Some (0, l\<lparr>ll_size := n\<rparr>, s6) }"

definition add_head :: "nat \<Rightarrow> LINKED_LIST \<Rightarrow> 'a heap3_scheme \<Rightarrow> (int \<times> LINKED_LIST \<times> 'a heap3_scheme) option" where
  "add_head data l s =
     do { let (new_node, s1) = malloc3 s;
          h \<leftarrow> node3 (Some (dummy_head l)) s1;
          let old_head = nd_next h;
          s2 \<leftarrow> upd_node3 (Some new_node) (nd_data_update (\<lambda>_. Some data)) s1;
          s3 \<leftarrow> set_prev3 old_head (Some new_node) s2;
          s4 \<leftarrow> set_next3 (Some new_node) old_head s3;
          s5 \<leftarrow> set_prev3 (Some new_node) (Some (dummy_head l)) s4;
          s6 \<leftarrow> set_next3 (Some (dummy_head l)) (Some new_node) s5;
          n \<leftarrow> chk32 (ll_size l + 1);
          Some (0, l\<lparr>ll_size := n\<rparr>, s6) }"

text \<open>Taking a node out of its list, as the three removing operations do it.\<close>

definition unlink3 :: "ptr \<Rightarrow> LINKED_LIST \<Rightarrow> 'a heap3_scheme \<Rightarrow> (nat option \<times> LINKED_LIST \<times> 'a heap3_scheme) option" where
  "unlink3 to_be_deleted l s =
     do { n \<leftarrow> node3 to_be_deleted s;
          s1 \<leftarrow> set_next3 (nd_prev n) (nd_next n) s;
          n1 \<leftarrow> node3 to_be_deleted s1;
          s2 \<leftarrow> set_prev3 (nd_next n1) (nd_prev n1) s1;
          k \<leftarrow> chk32 (ll_size l - 1);
          n2 \<leftarrow> node3 to_be_deleted s2;
          Some (nd_data n2, l\<lparr>ll_size := k\<rparr>, s2) }"

definition pop_head :: "LINKED_LIST \<Rightarrow> 'a heap3_scheme \<Rightarrow> ('a heap3_scheme + nat option \<times> LINKED_LIST \<times> 'a heap3_scheme) option" where
  "pop_head l s =
     (if ll_size l \<le> 0 then Some (Inl (put3 (''Trying to pop head element from an empty linked list'' @ [CHR 0x0A]) s))
      else do { h \<leftarrow> node3 (Some (dummy_head l)) s; r \<leftarrow> unlink3 (nd_next h) l s; Some (Inr r) })"

definition pop_tail :: "LINKED_LIST \<Rightarrow> 'a heap3_scheme \<Rightarrow> ('a heap3_scheme + nat option \<times> LINKED_LIST \<times> 'a heap3_scheme) option" where
  "pop_tail l s =
     (if ll_size l \<le> 0 then Some (Inl (put3 (''Trying to pop tail element from an empty linked list'' @ [CHR 0x0A]) s))
      else do { t \<leftarrow> node3 (Some (dummy_tail l)) s; r \<leftarrow> unlink3 (nd_prev t) l s; Some (Inr r) })"

primrec steps3 :: "nat \<Rightarrow> ptr \<Rightarrow> 'a heap3_scheme \<Rightarrow> ptr option" where
  "steps3 0 cur s = Some cur"
| "steps3 (Suc k) cur s = do { n \<leftarrow> node3 cur s; steps3 k (nd_next n) s }"

definition get_node_by_index :: "LINKED_LIST \<Rightarrow> int \<Rightarrow> 'a heap3_scheme \<Rightarrow> (ptr \<times> 'a heap3_scheme) option" where
  "get_node_by_index l index s =
     (if index \<ge> ll_size l \<or> index < 0 then Some (None, put3 (''Invalid index to get from a linked list'' @ [CHR 0x0A]) s)
      else do { h \<leftarrow> node3 (Some (dummy_head l)) s; p \<leftarrow> steps3 (nat index) (nd_next h) s; Some (p, s) })"

partial_function (option) value_loop ::
    "(nat \<Rightarrow> nat \<Rightarrow> bool option) \<Rightarrow> nat \<Rightarrow> ptr \<Rightarrow> 'a heap3_scheme \<Rightarrow> ptr option" where
  "value_loop equal target_data cur s =
     (case cur of
        None \<Rightarrow> Some None
      | Some a \<Rightarrow> do { n \<leftarrow> nodes3 s a; d \<leftarrow> nd_data n; e \<leftarrow> equal target_data d;
                      if e then Some cur else value_loop equal target_data (nd_next n) s })"

declare value_loop.simps [code]

definition get_node_by_value :: "(nat \<Rightarrow> nat \<Rightarrow> bool option) \<Rightarrow> LINKED_LIST \<Rightarrow> nat \<Rightarrow> 'a heap3_scheme \<Rightarrow> ptr option" where
  "get_node_by_value equal l target_data s =
     do { h \<leftarrow> node3 (Some (dummy_head l)) s; value_loop equal target_data (nd_next h) s }"

definition get_by_index :: "LINKED_LIST \<Rightarrow> int \<Rightarrow> 'a heap3_scheme \<Rightarrow> (nat option \<times> 'a heap3_scheme) option" where
  "get_by_index l index s = do { (p, s1) \<leftarrow> get_node_by_index l index s; n \<leftarrow> node3 p s1; Some (nd_data n, s1) }"

definition get_by_value :: "(nat \<Rightarrow> nat \<Rightarrow> bool option) \<Rightarrow> LINKED_LIST \<Rightarrow> nat \<Rightarrow> 'a heap3_scheme \<Rightarrow> nat option option" where
  "get_by_value equal l elem s = do { p \<leftarrow> get_node_by_value equal l elem s; n \<leftarrow> node3 p s; Some (nd_data n) }"

definition remove_elem ::
    "(nat \<Rightarrow> nat \<Rightarrow> bool option) \<Rightarrow> nat \<Rightarrow> LINKED_LIST \<Rightarrow> 'a heap3_scheme \<Rightarrow> (nat option \<times> LINKED_LIST \<times> 'a heap3_scheme) option" where
  "remove_elem equal data_to_del l s = do { p \<leftarrow> get_node_by_value equal l data_to_del s; unlink3 p l s }"

definition swap_data :: "ptr \<Rightarrow> ptr \<Rightarrow> 'a heap3_scheme \<Rightarrow> 'a heap3_scheme option" where
  "swap_data node1 node2 s =
     do { n1 \<leftarrow> node3 node1 s; n2 \<leftarrow> node3 node2 s;
          s1 \<leftarrow> upd_node3 node1 (nd_data_update (\<lambda>_. nd_data n2)) s;
          upd_node3 node2 (nd_data_update (\<lambda>_. nd_data n1)) s1 }"

definition list_init :: "'a heap3_scheme \<Rightarrow> (LINKED_LIST \<times> 'a heap3_scheme) option" where
  "list_init s =
     do { let (hd_node, s1) = malloc3 s;
          let (tl_node, s2) = malloc3 s1;
          s3 \<leftarrow> set_next3 (Some tl_node) None s2;
          s4 \<leftarrow> set_next3 (Some hd_node) (Some tl_node) s3;
          s5 \<leftarrow> set_prev3 (Some tl_node) (Some hd_node) s4;
          Some (\<lparr>ll_size = 0, dummy_head = hd_node, dummy_tail = tl_node\<rparr>, s5) }"

end
