(* ===== verification/Process_List_Spec.thy ===== *)
theory Process_List_Spec
  imports Process_List
begin

text \<open>
  The list of processes implements operations on the sequence of its data. The links of its nodes are a heap of the kind that
  \<open>Kernel_Links\<close> reasons about, so the lemmas on entering and taking out a node are the ones proved there.
\<close>

section \<open>Nodes and links\<close>

definition updn :: "nat \<Rightarrow> (NODE \<Rightarrow> NODE) \<Rightarrow> 'a heap3_scheme \<Rightarrow> 'a heap3_scheme" where
  "updn a f s = s\<lparr>nodes3 := (nodes3 s)(a := map_option f (nodes3 s a))\<rparr>"

text \<open>The links of the nodes, as a heap of the elements of \<open>Kernel_List\<close>.\<close>

definition proj :: "'a heap3_scheme \<Rightarrow> lheap" where
  "proj s = \<lparr>elems = (\<lambda>a. map_option (\<lambda>n. \<lparr>l_prev = nd_prev n, l_next = nd_next n\<rparr>) (nodes3 s a)), lcon = []\<rparr>"

definition dat :: "'a heap3_scheme \<Rightarrow> nat \<Rightarrow> nat option" where
  "dat s a = Option.bind (nodes3 s a) nd_data"

lemma live_proj: "live a (proj s) \<longleftrightarrow> nodes3 s a \<noteq> None"
  by (simp add: live_def proj_def)

lemma node3_proj:
  "nx (proj s) a = map_option nd_next (nodes3 s a)" "pv (proj s) a = map_option nd_prev (nodes3 s a)"
  by (cases "nodes3 s a"; simp add: rd_next_def rd_prev_def proj_def)+

lemma upd_node3_eq: "live a (proj s) \<Longrightarrow> upd_node3 (Some a) f s = Some (updn a f s)"
  by (auto simp: upd_node3_def updn_def live_proj)

lemma proj_updn [simp]:
  "proj (updn a (nd_next_update (\<lambda>_. v)) s) = set_nx a v (proj s)"
  "proj (updn a (nd_prev_update (\<lambda>_. v)) s) = set_pv a v (proj s)"
  "proj (updn a (nd_data_update (\<lambda>_. d)) s) = proj s"
  by (auto simp: proj_def updn_def set_nx_def set_pv_def fun_eq_iff option.map_comp comp_def)

lemma updn_sel [simp]:
  "next_node3 (updn a f s) = next_node3 s" "out3 (updn a f s) = out3 s" "heap3.more (updn a f s) = heap3.more s"
  "nodes3 (updn a f s) b = None \<longleftrightarrow> nodes3 s b = None"
  by (simp_all add: updn_def)

lemma dat_updn [simp]:
  "dat (updn a (nd_next_update (\<lambda>_. v)) s) = dat s" "dat (updn a (nd_prev_update (\<lambda>_. v)) s) = dat s"
  "dat (updn a (nd_data_update (\<lambda>_. d)) s) b = (if b = a \<and> live a (proj s) then d else dat s b)"
  by (auto simp: dat_def updn_def fun_eq_iff live_proj split: bind_splits)

lemma node3_some: "nx (proj s) a = Some n \<Longrightarrow> pv (proj s) a = Some p \<Longrightarrow> \<exists>m. node3 (Some a) s = Some m \<and> nd_next m = n \<and> nd_prev m = p \<and> nd_data m = dat s a"
  by (auto simp: node3_proj node3_def dat_def)

section \<open>The list of the data\<close>

text \<open>\<open>nodes_ok l as ds s\<close>: the nodes of the list \<open>l\<close> are \<open>as\<close>, with the data \<open>ds\<close>.\<close>

definition nodes_ok :: "LINKED_LIST \<Rightarrow> nat list \<Rightarrow> nat list \<Rightarrow> 'a heap3_scheme \<Rightarrow> bool" where
  "nodes_ok l as ds s \<longleftrightarrow> lst (proj s) (dummy_head l # as @ [dummy_tail l]) \<and> ll_size l = int (length as) \<and>
     map (dat s) as = map Some ds \<and> dat s (dummy_tail l) = None \<and> (\<forall>a. next_node3 s \<le> a \<longrightarrow> nodes3 s a = None)"

lemma lst_live: "lst h zs \<Longrightarrow> a \<in> set zs \<Longrightarrow> live a h"
proof -
  assume h: "lst h zs" and "a \<in> set zs"
  then obtain P R where zs: "zs = P @ a # R" by (auto simp: in_set_conv_decomp)
  show "live a h"
  proof (cases "R = []")
    case True
    then show ?thesis using h zs nx_live by (fastforce simp: lst_def)
  next
    case False
    then show ?thesis using h zs nx_live by (fastforce simp: lst_def links_append links_Cons)
  qed
qed

lemma malloc3_fresh:
  assumes "\<forall>a. next_node3 s \<le> a \<longrightarrow> nodes3 s a = None" "malloc3 s = (a, s1)"
  shows "lst (proj s) zs \<Longrightarrow> lst (proj s1) zs \<and> a \<notin> set zs" "live a (proj s1)" "live b (proj s) \<Longrightarrow> live b (proj s1) \<and> b \<noteq> a"
    "live b (proj s) \<Longrightarrow> dat s1 b = dat s b" "\<forall>c. next_node3 s1 \<le> c \<longrightarrow> nodes3 s1 c = None" "a = next_node3 s"
    "next_node3 s1 = Suc (next_node3 s)" "out3 s1 = out3 s" "heap3.more s1 = heap3.more s"
proof -
  have a: "a = next_node3 s" "nodes3 s a = None" and s1: "s1 = s\<lparr>nodes3 := (nodes3 s)(a \<mapsto> \<lparr>nd_data = None, nd_next = None, nd_prev = None\<rparr>), next_node3 := Suc a\<rparr>"
    using assms by (auto simp: malloc3_def)
  show "lst (proj s1) zs \<and> a \<notin> set zs" if "lst (proj s) zs"
  proof -
    have "a \<notin> set zs" using lst_live [OF that, of a] a(2) by (auto simp: live_proj)
    moreover have "nx (proj s1) b = nx (proj s) b" "pv (proj s1) b = pv (proj s) b" if "b \<noteq> a" for b
      using that s1 by (simp_all add: node3_proj)
    ultimately show ?thesis using that lst_frame [of zs "proj s1" "proj s"] by metis
  qed
  show "live a (proj s1)" "live b (proj s) \<Longrightarrow> live b (proj s1) \<and> b \<noteq> a" "live b (proj s) \<Longrightarrow> dat s1 b = dat s b"
    "\<forall>c. next_node3 s1 \<le> c \<longrightarrow> nodes3 s1 c = None" "a = next_node3 s"
    "next_node3 s1 = Suc (next_node3 s)" "out3 s1 = out3 s" "heap3.more s1 = heap3.more s"
    using a assms(1) by (auto simp: s1 live_proj dat_def)
qed

lemma malloc3_other: "malloc3 s = (a, s1) \<Longrightarrow> b \<noteq> a \<Longrightarrow> nodes3 s1 b = nodes3 s b"
  by (auto simp: malloc3_def)

abbreviation all3 :: "LINKED_LIST \<Rightarrow> nat list \<Rightarrow> nat list" where
  "all3 l as \<equiv> dummy_head l # as @ [dummy_tail l]"

text \<open>Lists that share no node with the list that is worked on are as before.\<close>

definition frame3 :: "nat set \<Rightarrow> 'a heap3_scheme \<Rightarrow> 'a heap3_scheme \<Rightarrow> bool" where
  "frame3 A s s' \<longleftrightarrow> out3 s' = out3 s \<and> heap3.more s' = heap3.more s \<and>
     (\<forall>l as ds. nodes_ok l as ds s \<longrightarrow> set (all3 l as) \<inter> A = {} \<longrightarrow> nodes_ok l as ds s')"

lemma nodes_okD:
  assumes "nodes_ok l as ds s"
  shows "lst (proj s) (all3 l as)" "ll_size l = int (length as)" "length ds = length as" "\<And>a. a \<in> set (all3 l as) \<Longrightarrow> live a (proj s)"
    "\<And>i. i < length as \<Longrightarrow> dat s (as ! i) = Some (ds ! i)" "\<forall>a. next_node3 s \<le> a \<longrightarrow> nodes3 s a = None"
proof -
  have m: "map (dat s) as = map Some ds" using assms by (simp add: nodes_ok_def)
  then show len: "length ds = length as" by (metis length_map)
  show "dat s (as ! i) = Some (ds ! i)" if "i < length as" for i using m that len by (metis nth_map)
  show "live a (proj s)" if "a \<in> set (all3 l as)" for a
    using assms that lst_live unfolding nodes_ok_def by blast
qed (use assms in \<open>simp_all add: nodes_ok_def\<close>)

lemma frame3I:
  assumes "out3 s' = out3 s" "heap3.more s' = heap3.more s" "\<forall>a. next_node3 s' \<le> a \<longrightarrow> nodes3 s' a = None"
    and "\<And>a. live a (proj s) \<Longrightarrow> a \<notin> A \<Longrightarrow> nx (proj s') a = nx (proj s) a \<and> pv (proj s') a = pv (proj s) a \<and> dat s' a = dat s a"
  shows "frame3 A s s'"
proof -
  have "nodes_ok l as ds s'" if ok: "nodes_ok l as ds s" and dj: "set (all3 l as) \<inter> A = {}" for l as ds
  proof -
    have e: "nx (proj s') a = nx (proj s) a" "pv (proj s') a = pv (proj s) a" "dat s' a = dat s a" if "a \<in> set (all3 l as)" for a
      using assms(4) [of a] nodes_okD(4) [OF ok that] dj that by blast+
    have "lst (proj s') (all3 l as)" using lst_frame [of "all3 l as" "proj s'" "proj s"] e nodes_okD(1) [OF ok] by blast
    moreover have "map (dat s') as = map (dat s) as" by (rule map_cong) (use e(3) in auto)
    moreover have "dat s' (dummy_tail l) = dat s (dummy_tail l)" using e(3) by simp
    ultimately show ?thesis using ok assms(3) by (simp only: nodes_ok_def)
  qed
  then show ?thesis using assms(1,2) by (simp add: frame3_def)
qed

section \<open>The operations on the list of the data\<close>

lemma add_tail_ok:
  assumes "nodes_ok l as ds s" "int32 (int (length as) + 1)"
  shows "\<exists>a s'. add_tail d l s = Some (0, l\<lparr>ll_size := ll_size l + 1\<rparr>, s') \<and> nodes_ok (l\<lparr>ll_size := ll_size l + 1\<rparr>) (as @ [a]) (ds @ [d]) s' \<and>
                frame3 (set (all3 l as)) s s'"
proof -
  let ?t = "dummy_tail l" and ?p = "last (dummy_head l # as)"
  note ok = nodes_okD [OF assms(1)]
  obtain a s1 where m: "malloc3 s = (a, s1)" by force
  note f = malloc3_fresh [OF ok(6) m]
  have l1: "lst (proj s1) ((dummy_head l # as) @ ?t # [])" "a \<notin> set ((dummy_head l # as) @ ?t # [])" using f(1) [OF ok(1)] by simp_all
  have p: "?p \<in> set (dummy_head l # as)" by (rule last_in_set) simp
  have pt: "?p \<noteq> ?t" "a \<noteq> ?p" "a \<noteq> ?t" using l1 p by (auto simp: lst_def)
  have tl: "pv (proj s1) ?t = Some (Some ?p)" "nx (proj s1) ?t = Some None"
    using l1(1) links_append [of "proj s1" "dummy_head l # as" "[?t]"] by (auto simp: lst_def)
  from node3_some [OF tl(2,1)] obtain m where m3: "node3 (Some ?t) s1 = Some m" "nd_prev m = Some ?p" by auto
  have live: "live ?t (proj s1)" "live ?p (proj s1)" "live a (proj s1)" using lst_live [OF l1(1)] p f(2) by auto
  let ?s2 = "updn a (nd_data_update (\<lambda>_. Some d)) s1"
  let ?s' = "updn ?t (nd_prev_update (\<lambda>_. Some a)) (updn a (nd_next_update (\<lambda>_. Some ?t)) (updn a (nd_prev_update (\<lambda>_. Some ?p))
               (updn ?p (nd_next_update (\<lambda>_. Some a)) ?s2)))"
  have run: "add_tail d l s = Some (0, l\<lparr>ll_size := ll_size l + 1\<rparr>, ?s')"
    using m m3 live assms(2) ok(2) by (simp add: add_tail_def upd_node3_eq del: last.simps)
  have "lst (proj ?s') ((dummy_head l # as) @ a # ?t # [])"
    by (rule insert_links [OF l1(1) _ l1(2)]) (use live pt in \<open>auto simp del: last.simps\<close>)
  moreover have "dat ?s' b = dat s b" if "b \<in> set as" for b
    using f(4) [of b] ok(4) [of b] l1(2) that by auto
  then have "map (dat ?s') (as @ [a]) = map Some (ds @ [d])" using assms(1) live(3) by (simp add: nodes_ok_def cong: map_cong)
  moreover have fr: "\<forall>c. next_node3 ?s' \<le> c \<longrightarrow> nodes3 ?s' c = None" using f(5) by simp
  moreover have "dat ?s' (dummy_tail l) = None"
    using f(3,4) [of "dummy_tail l"] ok(4) [of "dummy_tail l"] assms(1) by (auto simp: nodes_ok_def)
  ultimately have "nodes_ok (l\<lparr>ll_size := ll_size l + 1\<rparr>) (as @ [a]) (ds @ [d]) ?s'"
    using ok(2) by (simp add: nodes_ok_def)
  moreover have "frame3 (set (all3 l as)) s ?s'"
  proof (rule frame3I)
    fix b assume b: "live b (proj s)" "b \<notin> set (all3 l as)"
    then have "b \<noteq> a" "b \<noteq> ?t" "b \<noteq> ?p" using f(3) [of b] p by auto
    moreover have "nx (proj s1) b = nx (proj s) b" "pv (proj s1) b = pv (proj s) b" "dat s1 b = dat s b"
      using malloc3_other [OF m \<open>b \<noteq> a\<close>] by (simp_all add: node3_proj dat_def)
    ultimately show "nx (proj ?s') b = nx (proj s) b \<and> pv (proj ?s') b = pv (proj s) b \<and> dat ?s' b = dat s b"
      by (simp del: last.simps)
  qed (use f fr in simp_all)
  ultimately show ?thesis using run by blast
qed

lemma add_head_ok:
  assumes "nodes_ok l as ds s" "int32 (int (length as) + 1)"
  shows "\<exists>a s'. add_head d l s = Some (0, l\<lparr>ll_size := ll_size l + 1\<rparr>, s') \<and> nodes_ok (l\<lparr>ll_size := ll_size l + 1\<rparr>) (a # as) (d # ds) s' \<and>
                frame3 (set (all3 l as)) s s'"
proof -
  let ?h = "dummy_head l"
  note ok = nodes_okD [OF assms(1)]
  obtain a s1 where m: "malloc3 s = (a, s1)" by force
  note f = malloc3_fresh [OF ok(6) m]
  obtain b R where b: "as @ [dummy_tail l] = b # R" by (cases "as @ [dummy_tail l]") auto
  have l1: "lst (proj s1) ([?h] @ b # R)" "a \<notin> set ([?h] @ b # R)" using f(1) [OF ok(1)] b by simp_all
  have ne: "?h \<noteq> b" "a \<noteq> ?h" "a \<noteq> b" using l1 by (auto simp: lst_def)
  have hd: "nx (proj s1) ?h = Some (Some b)" "pv (proj s1) ?h = Some None" using l1(1) by (auto simp: lst_def)
  from node3_some [OF hd] obtain m where m3: "node3 (Some ?h) s1 = Some m" "nd_next m = Some b" by auto
  have live: "live ?h (proj s1)" "live b (proj s1)" "live a (proj s1)" using lst_live [OF l1(1)] f(2) by auto
  let ?s2 = "updn a (nd_data_update (\<lambda>_. Some d)) s1"
  let ?s' = "updn ?h (nd_next_update (\<lambda>_. Some a)) (updn a (nd_prev_update (\<lambda>_. Some ?h)) (updn a (nd_next_update (\<lambda>_. Some b))
               (updn b (nd_prev_update (\<lambda>_. Some a)) ?s2)))"
  have run: "add_head d l s = Some (0, l\<lparr>ll_size := ll_size l + 1\<rparr>, ?s')"
    using m m3 live assms(2) ok(2) by (simp add: add_head_def upd_node3_eq)
  have "lst (proj ?s') ([?h] @ a # b # R)"
    by (rule insert_links [OF l1(1) _ l1(2)]) (use live ne in auto)
  moreover have "set as \<subseteq> set (b # R)" using b by (metis Un_upper1 set_append)
  then have "dat ?s' c = dat s c" if "c \<in> set as" for c
    using f(4) [of c] ok(4) [of c] l1(2) that by auto
  then have "map (dat ?s') (a # as) = map Some (d # ds)" using assms(1) live(3) by (simp add: nodes_ok_def cong: map_cong)
  moreover have fr: "\<forall>c. next_node3 ?s' \<le> c \<longrightarrow> nodes3 ?s' c = None" using f(5) by simp
  moreover have "dat ?s' (dummy_tail l) = None"
    using f(3,4) [of "dummy_tail l"] ok(4) [of "dummy_tail l"] assms(1) by (auto simp: nodes_ok_def)
  ultimately have "nodes_ok (l\<lparr>ll_size := ll_size l + 1\<rparr>) (a # as) (d # ds) ?s'"
    using ok(2) b by (simp add: nodes_ok_def)
  moreover have "frame3 (set (all3 l as)) s ?s'"
  proof (rule frame3I)
    fix c assume c: "live c (proj s)" "c \<notin> set (all3 l as)"
    have "b \<in> set (all3 l as)" using b by (metis list.set_intros(1) list.set_intros(2))
    then have "c \<noteq> a" "c \<noteq> ?h" "c \<noteq> b" using f(3) [of c] c by auto
    moreover have "nx (proj s1) c = nx (proj s) c" "pv (proj s1) c = pv (proj s) c" "dat s1 c = dat s c"
      using malloc3_other [OF m \<open>c \<noteq> a\<close>] by (simp_all add: node3_proj dat_def)
    ultimately show "nx (proj ?s') c = nx (proj s) c \<and> pv (proj ?s') c = pv (proj s) c \<and> dat ?s' c = dat s c" by simp
  qed (use f fr in simp_all)
  ultimately show ?thesis using run by blast
qed

lemma unlink3_ok:
  assumes "nodes_ok l (as @ a # bs) (ds @ d # es) s" "length as = length ds" "int32 (ll_size l)"
  shows "\<exists>s'. unlink3 (Some a) l s = Some (Some d, l\<lparr>ll_size := ll_size l - 1\<rparr>, s') \<and> nodes_ok (l\<lparr>ll_size := ll_size l - 1\<rparr>) (as @ bs) (ds @ es) s' \<and>
              frame3 (set (all3 l (as @ a # bs))) s s'"
proof -
  let ?P = "dummy_head l # as" and ?R = "bs @ [dummy_tail l]"
  let ?p = "last ?P" and ?n = "hd ?R"
  note ok = nodes_okD [OF assms(1)]
  have L: "lst (proj s) (?P @ a # ?R)" using ok(1) by simp
  have l: "nx (proj s) ?p = Some (Some a)" "pv (proj s) a = Some (Some ?p)" "nx (proj s) a = Some (Some ?n)" "pv (proj s) ?n = Some (Some a)"
    using L links_append [of "proj s" ?P "a # ?R"] links_Cons [of "proj s" a ?R] by (auto simp: lst_def simp del: last.simps)
  have pn: "?p \<in> set ?P" "?n \<in> set ?R" by (rule last_in_set, simp) (rule hd_in_set, simp)
  have dj: "set ?P \<inter> set (a # ?R) = {}" "a \<notin> set ?R" using L by (auto simp: lst_def)
  have d: "a \<noteq> ?p" "a \<noteq> ?n" "?p \<noteq> ?n" using pn dj by (metis disjoint_iff list.set_intros)+
  have live: "live ?p (proj s)" "live ?n (proj s)" "live a (proj s)" using l nx_live pv_live by blast+
  let ?s1 = "updn ?p (nd_next_update (\<lambda>_. Some ?n)) s"
  let ?s' = "updn ?n (nd_prev_update (\<lambda>_. Some ?p)) ?s1"
  have da: "dat s a = Some d" using assms(1,2) by (simp add: nodes_ok_def)
  from node3_some [OF l(3,2)] obtain m where m: "node3 (Some a) s = Some m" "nd_next m = Some ?n" "nd_prev m = Some ?p" by auto
  from node3_some [of a ?s1 "Some ?n" "Some ?p"] l d obtain m1 where
    m1: "node3 (Some a) ?s1 = Some m1" "nd_next m1 = Some ?n" "nd_prev m1 = Some ?p" by (auto simp del: last.simps)
  from node3_some [of a ?s' "Some ?n" "Some ?p"] l d da obtain m2 where
    m2: "node3 (Some a) ?s' = Some m2" "nd_data m2 = Some d" by (auto simp del: last.simps)
  have "int32 (ll_size l - 1)" using assms(3) ok(2) by (simp add: int32_def)
  then have run: "unlink3 (Some a) l s = Some (Some d, l\<lparr>ll_size := ll_size l - 1\<rparr>, ?s')"
    using m m1 m2 live by (simp add: unlink3_def upd_node3_eq del: last.simps)
  have "lst (proj ?s') (?P @ ?R)" by (rule remove_links [OF L]) (use live in \<open>auto simp del: last.simps\<close>)
  moreover have "map (dat s) as = map Some ds" "map (dat s) bs = map Some es"
    using assms(1,2) by (auto simp: nodes_ok_def dest: map_eq_imp_length_eq)
  moreover have fr: "\<forall>c. next_node3 ?s' \<le> c \<longrightarrow> nodes3 ?s' c = None" using ok(6) by simp
  ultimately have "nodes_ok (l\<lparr>ll_size := ll_size l - 1\<rparr>) (as @ bs) (ds @ es) ?s'"
    using ok(2) assms(1) by (simp add: nodes_ok_def)
  moreover have "frame3 (set (all3 l (as @ a # bs))) s ?s'"
  proof (rule frame3I)
    fix c assume "c \<notin> set (all3 l (as @ a # bs))"
    then have "c \<noteq> ?p" "c \<noteq> ?n" using pn by auto
    then show "nx (proj ?s') c = nx (proj s) c \<and> pv (proj ?s') c = pv (proj s) c \<and> dat ?s' c = dat s c" by (simp del: last.simps)
  qed (use fr in simp_all)
  ultimately show ?thesis using run by blast
qed

lemma list3_ends:
  assumes "nodes_ok l as ds s"
  shows "\<exists>m. node3 (Some (dummy_head l)) s = Some m \<and> nd_next m = Some (hd (as @ [dummy_tail l]))"
    "\<exists>m. node3 (Some (dummy_tail l)) s = Some m \<and> nd_prev m = Some (last (dummy_head l # as))"
proof -
  note L = nodes_okD(1) [OF assms]
  have "nx (proj s) (dummy_head l) = Some (Some (hd (as @ [dummy_tail l])))" "pv (proj s) (dummy_head l) = Some None"
    using L links_Cons [of "proj s" "dummy_head l" "as @ [dummy_tail l]"] by (auto simp: lst_def)
  from node3_some [OF this] show "\<exists>m. node3 (Some (dummy_head l)) s = Some m \<and> nd_next m = Some (hd (as @ [dummy_tail l]))" by auto
  have "pv (proj s) (dummy_tail l) = Some (Some (last (dummy_head l # as)))" "nx (proj s) (dummy_tail l) = Some None"
    using L links_append [of "proj s" "dummy_head l # as" "[dummy_tail l]"] by (auto simp: lst_def)
  from node3_some [OF this(2,1)] show "\<exists>m. node3 (Some (dummy_tail l)) s = Some m \<and> nd_prev m = Some (last (dummy_head l # as))" by auto
qed

lemma pop_head_ok:
  assumes "nodes_ok l (a # as) (d # ds) s" "int32 (ll_size l)"
  shows "\<exists>s'. pop_head l s = Some (Inr (Some d, l\<lparr>ll_size := ll_size l - 1\<rparr>, s')) \<and> nodes_ok (l\<lparr>ll_size := ll_size l - 1\<rparr>) as ds s' \<and>
              frame3 (set (all3 l (a # as))) s s'"
  using list3_ends(1) [OF assms(1)] unlink3_ok [of l "[]" a as "[]" d ds s] assms nodes_okD(2) [OF assms(1)]
  by (auto simp: pop_head_def)

lemma pop_tail_ok:
  assumes "nodes_ok l (as @ [a]) (ds @ [d]) s" "int32 (ll_size l)"
  shows "\<exists>s'. pop_tail l s = Some (Inr (Some d, l\<lparr>ll_size := ll_size l - 1\<rparr>, s')) \<and> nodes_ok (l\<lparr>ll_size := ll_size l - 1\<rparr>) as ds s' \<and>
              frame3 (set (all3 l (as @ [a]))) s s'"
  using list3_ends(2) [OF assms(1)] unlink3_ok [of l as a "[]" ds d "[]" s] assms nodes_okD(2,3) [OF assms(1)]
  by (auto simp: pop_tail_def)

lemma pop_empty: "nodes_ok l [] [] s \<Longrightarrow> \<exists>s'. pop_head l s = Some (Inl s')" "nodes_ok l [] [] s \<Longrightarrow> \<exists>s'. pop_tail l s = Some (Inl s')"
  by (auto simp: pop_head_def pop_tail_def nodes_ok_def)

lemma value_loop_step:
  assumes "nodes_ok l (as @ a # bs) (ds @ d # es) s" "length as = length ds"
  shows "value_loop equal t (Some a) s =
           do { e \<leftarrow> equal t d; if e then Some (Some a) else value_loop equal t (Some (hd (bs @ [dummy_tail l]))) s }"
proof -
  have "lst (proj s) ((dummy_head l # as) @ a # bs @ [dummy_tail l])" using nodes_okD(1) [OF assms(1)] by simp
  then have "nx (proj s) a = Some (Some (hd (bs @ [dummy_tail l])))" by (auto simp: lst_def links_append links_Cons)
  moreover have "dat s a = Some d" using assms by (simp add: nodes_ok_def)
  ultimately obtain n where "nodes3 s a = Some n" "nd_next n = Some (hd (bs @ [dummy_tail l]))" "nd_data n = Some d"
    by (auto simp: node3_proj dat_def)
  then show ?thesis by (subst value_loop.simps) (simp cong: if_cong)
qed

lemma value_loop_finds:
  assumes "length as = length ds" "\<forall>x \<in> set es. equal t x = Some False"
  shows "nodes_ok l (as @ cs @ a # bs) (ds @ es @ d # gs) s \<Longrightarrow> length cs = length es \<Longrightarrow> equal t d = Some True \<Longrightarrow>
    value_loop equal t (Some (hd (cs @ [a]))) s = Some (Some a)"
  using assms
proof (induction cs es arbitrary: as ds rule: list_induct2')
  case 1
  then show ?case using value_loop_step [of l as a bs ds d gs s equal t] by simp
next
  case (4 c cs e es)
  then have "value_loop equal t (Some c) s = value_loop equal t (Some (hd (cs @ a # bs @ [dummy_tail l]))) s"
    using value_loop_step [of l as c "cs @ a # bs" ds e "es @ d # gs" s equal t] by simp
  moreover have "hd (cs @ a # bs @ [dummy_tail l]) = hd (cs @ [a])" by (cases cs) auto
  ultimately show ?case using 4 "4.IH" [of "as @ [c]" "ds @ [e]"] by simp
qed simp_all

lemma remove_elem_ok:
  assumes "nodes_ok l (cs @ a # bs) (es @ d # gs) s" "length cs = length es" "int32 (ll_size l)"
    and "\<forall>x \<in> set es. equal t x = Some False" "equal t d = Some True"
  shows "\<exists>s'. remove_elem equal t l s = Some (Some d, l\<lparr>ll_size := ll_size l - 1\<rparr>, s') \<and> nodes_ok (l\<lparr>ll_size := ll_size l - 1\<rparr>) (cs @ bs) (es @ gs) s' \<and>
              frame3 (set (all3 l (cs @ a # bs))) s s'"
proof -
  have "hd ((cs @ a # bs) @ [dummy_tail l]) = hd (cs @ [a])" by (cases cs) auto
  then have "get_node_by_value equal l t s = Some (Some a)"
    using list3_ends(1) [OF assms(1)] value_loop_finds [of "[]" "[]" es equal t l cs a bs d gs s] assms
    by (auto simp: get_node_by_value_def)
  then show ?thesis using unlink3_ok [OF assms(1-3)] by (simp add: remove_elem_def)
qed

text \<open>The search for a value that is not in the list runs into the data of the dummy node at the end, which was never written.\<close>

lemma value_loop_missing:
  "nodes_ok l (as @ cs) (ds @ es) s \<Longrightarrow> length as = length ds \<Longrightarrow> length cs = length es \<Longrightarrow> \<forall>x \<in> set es. equal t x = Some False \<Longrightarrow>
   value_loop equal t (Some (hd (cs @ [dummy_tail l]))) s = None"
proof (induction cs es arbitrary: as ds rule: list_induct2')
  case 1
  then have "dat s (dummy_tail l) = None" by (simp add: nodes_ok_def)
  then show ?case by (subst value_loop.simps) (auto simp: dat_def split: bind_splits)
next
  case (4 c cs e es)
  then show ?case using value_loop_step [of l as c cs ds e es s equal t] "4.IH" [of "as @ [c]" "ds @ [e]"] by simp
qed simp_all

lemma list_init_ok:
  assumes "\<forall>a. next_node3 s \<le> a \<longrightarrow> nodes3 s a = None"
  shows "\<exists>l s'. list_init s = Some (l, s') \<and> nodes_ok l [] [] s' \<and> frame3 {} s s'"
proof -
  obtain s1 s2 where m: "malloc3 s = (next_node3 s, s1)" "malloc3 s1 = (Suc (next_node3 s), s2)" by (simp add: malloc3_def)
  let ?a = "next_node3 s" and ?b = "Suc (next_node3 s)"
  have live: "live ?a (proj s2)" "live ?b (proj s2)" using m by (auto simp: malloc3_def live_proj)
  let ?s' = "updn ?b (nd_prev_update (\<lambda>_. Some ?a)) (updn ?a (nd_next_update (\<lambda>_. Some ?b)) (updn ?b (nd_next_update (\<lambda>_. None)) s2))"
  let ?l = "\<lparr>ll_size = 0, dummy_head = ?a, dummy_tail = ?b\<rparr>"
  have run: "list_init s = Some (?l, ?s')"
    using m live by (simp add: list_init_def upd_node3_eq)
  have fr: "\<forall>c. next_node3 ?s' \<le> c \<longrightarrow> nodes3 ?s' c = None" using assms m by (auto simp: malloc3_def)
  have "pv (proj s2) ?a = Some None" "dat s2 ?b = None" using m by (auto simp: malloc3_def node3_proj dat_def)
  with live fr have "nodes_ok ?l [] [] ?s'" by (simp add: nodes_ok_def lst_def)
  moreover have "frame3 {} s ?s'"
  proof (rule frame3I)
    fix c assume "live c (proj s)"
    then have "c \<noteq> ?a" "c \<noteq> ?b" using assms by (auto simp: live_proj)
    then show "nx (proj ?s') c = nx (proj s) c \<and> pv (proj ?s') c = pv (proj s) c \<and> dat ?s' c = dat s c"
      using malloc3_other [OF m(1)] malloc3_other [OF m(2)] by (auto simp: node3_proj dat_def)
  qed (use fr m in \<open>auto simp: malloc3_def\<close>)
  ultimately show ?thesis using run by blast
qed

section \<open>Properties\<close>

definition heap0 :: heap3 where
  "heap0 = \<lparr>nodes3 = Map.empty, next_node3 = 0, out3 = []\<rparr>"

lemma heap0_list: "\<exists>l s. list_init heap0 = Some (l, s) \<and> nodes_ok l [] [] s"
  using list_init_ok [of heap0] by (auto simp: heap0_def)

text \<open>
  C37. The list of processes is a double-ended queue of its data: adding at either end, taking from either end and removing by value
  act on the sequence of the data as on a list, and leave every list with other nodes as it was.
\<close>

theorem process_list_is_deque:
  assumes "nodes_ok l as ds s" "int (length as) + 2 < 2 ^ 31"
  shows "\<exists>a b l1 l2 l3 s1 s2 s3. add_tail d l s = Some (0, l1, s1) \<and> nodes_ok l1 (as @ [a]) (ds @ [d]) s1 \<and>
           add_head e l1 s1 = Some (0, l2, s2) \<and> nodes_ok l2 (b # as @ [a]) (e # ds @ [d]) s2 \<and>
           pop_tail l2 s2 = Some (Inr (Some d, l3, s3)) \<and> nodes_ok l3 (b # as) (e # ds) s3 \<and>
           (\<exists>l4 s4. pop_head l3 s3 = Some (Inr (Some e, l4, s4)) \<and> nodes_ok l4 as ds s4)"
proof -
  have i: "int32 (int (length as) + 1)" "int32 (int (length as) + 2)" using assms(2) by (auto simp: int32_def)
  from add_tail_ok [OF assms(1) i(1), of d] obtain a s1 where
    s1: "add_tail d l s = Some (0, l\<lparr>ll_size := ll_size l + 1\<rparr>, s1)" "nodes_ok (l\<lparr>ll_size := ll_size l + 1\<rparr>) (as @ [a]) (ds @ [d]) s1" by blast
  let ?l1 = "l\<lparr>ll_size := ll_size l + 1\<rparr>"
  from add_head_ok [OF s1(2), of e] i(2) obtain b s2 where
    s2: "add_head e ?l1 s1 = Some (0, ?l1\<lparr>ll_size := ll_size ?l1 + 1\<rparr>, s2)" "nodes_ok (?l1\<lparr>ll_size := ll_size ?l1 + 1\<rparr>) (b # as @ [a]) (e # ds @ [d]) s2"
    by (auto simp: add.commute)
  let ?l2 = "?l1\<lparr>ll_size := ll_size ?l1 + 1\<rparr>"
  have n: "ll_size l = int (length as)" using nodes_okD(2) [OF assms(1)] .
  then have i2: "int32 (ll_size ?l2)" using i(2) by (simp add: add.commute)
  from pop_tail_ok [of ?l2 "b # as" a "e # ds" d s2] s2(2) i2 obtain s3 where
    s3: "pop_tail ?l2 s2 = Some (Inr (Some d, ?l2\<lparr>ll_size := ll_size ?l2 - 1\<rparr>, s3))" "nodes_ok (?l2\<lparr>ll_size := ll_size ?l2 - 1\<rparr>) (b # as) (e # ds) s3"
    by auto
  let ?l3 = "?l2\<lparr>ll_size := ll_size ?l2 - 1\<rparr>"
  have "int32 (ll_size ?l3)" using n i(1) by (simp add: add.commute)
  from pop_head_ok [OF s3(2) this] obtain s4 where
    "pop_head ?l3 s3 = Some (Inr (Some e, ?l3\<lparr>ll_size := ll_size ?l3 - 1\<rparr>, s4))" "nodes_ok (?l3\<lparr>ll_size := ll_size ?l3 - 1\<rparr>) as ds s4" by blast
  with s1 s2 s3 show ?thesis by blast
qed

theorem process_list_is_deque_witness:
  "\<exists>l s a l1 s1. list_init heap0 = Some (l, s) \<and> add_tail 7 l s = Some (0, l1, s1) \<and> nodes_ok l1 [a] [7] s1"
proof -
  obtain l s where l: "list_init heap0 = Some (l, s)" "nodes_ok l [] [] s" using heap0_list by blast
  from process_list_is_deque [OF l(2), of 7 8] l(1) show ?thesis by auto
qed

text \<open>
  Looking for a value that is not in the list is undefined: the search does not stop at the dummy node at the end and compares with its data,
  which was never written.
\<close>

theorem missing_value_is_undefined:
  assumes "nodes_ok l as ds s" "\<forall>x \<in> set ds. equal t x = Some False"
  shows "get_node_by_value equal l t s = None"
  using list3_ends(1) [OF assms(1)] value_loop_missing [of l "[]" as "[]" ds s equal t] assms nodes_okD(3) [OF assms(1)]
  by (auto simp: get_node_by_value_def)

theorem missing_value_is_undefined_witness:
  "\<exists>l s. list_init heap0 = Some (l, s) \<and> get_node_by_value (\<lambda>a b. Some (a = b)) l 3 s = None"
proof -
  obtain l s where l: "list_init heap0 = Some (l, s)" "nodes_ok l [] [] s" using heap0_list by blast
  with missing_value_is_undefined [OF l(2), of "\<lambda>a b. Some (a = b)" 3] show ?thesis by auto
qed

end
