(* ===== verification/Shell_Memory.thy ===== *)
theory Shell_Memory
  imports Prelude
begin

text \<open>
  The shell memories of the three programs (\<^verbatim>\<open>a1/shellmemory.c\<close>, \<^verbatim>\<open>a2/shellmemory.c\<close>,
  \<^verbatim>\<open>a3/shellmemory.c\<close>): arrays of name/value cells in which the name \<^verbatim>\<open>none\<close> marks a free cell. In
  \<^verbatim>\<open>a3\<close> the first \<^verbatim>\<open>FRAME_STORE_SIZE\<close> cells hold the frames of the running scripts and the others the
  variables. The variable part of each is shown to be a map of bounded size, against one interface
  (\<open>var_store\<close>); frames are allocated without overlap.

  C strings are character lists without the terminator. An access outside the array is
  \<^term>\<open>None\<close>.
\<close>

section \<open>Definitions\<close>

record memory_struct =
  mem_var :: string
  mem_value :: string

type_synonym shellmem = "memory_struct list"

text \<open>The name \<^verbatim>\<open>none\<close> of a free cell.\<close>

definition free_name :: string where
  "free_name = ''none''"

definition none_cell :: memory_struct where
  "none_cell = \<lparr>mem_var = free_name, mem_value = ''none''\<rparr>"

text \<open>The loops of \<^verbatim>\<open>mem_set_value\<close> and \<^verbatim>\<open>mem_get_value\<close> over the cells \<open>lo\<close> to \<open>lo + n - 1\<close>.\<close>

definition mem_find :: "nat \<Rightarrow> nat \<Rightarrow> string \<Rightarrow> shellmem \<Rightarrow> nat option" where
  "mem_find lo n name m = first_from (\<lambda>i. mem_var (m ! i) = name) lo n"

definition store_set :: "nat \<Rightarrow> nat \<Rightarrow> string \<Rightarrow> string \<Rightarrow> shellmem \<Rightarrow> shellmem" where
  "store_set lo n var_in value_in m =
     (case mem_find lo n var_in m of
        Some i \<Rightarrow> m[i := (m ! i)\<lparr>mem_value := value_in\<rparr>]
      | None \<Rightarrow>
          (case mem_find lo n free_name m of
             Some i \<Rightarrow> m[i := \<lparr>mem_var = var_in, mem_value = value_in\<rparr>]
           | None \<Rightarrow> m))"

definition store_get :: "nat \<Rightarrow> nat \<Rightarrow> string \<Rightarrow> shellmem \<Rightarrow> string option" where
  "store_get lo n var_in m = map_option (\<lambda>i. mem_value (m ! i)) (mem_find lo n var_in m)"

text \<open>\<^verbatim>\<open>match\<close> reads \<open>model\<close> up to the length of \<open>var\<close>; reading beyond its terminator is undefined.\<close>

fun match_count :: "string \<Rightarrow> string \<Rightarrow> nat option" where
  "match_count model [] = Some 0"
| "match_count [] [v] = Some 0"
| "match_count [] (v # w # vs) = None"
| "match_count (c # cs) (v # vs) = map_option (\<lambda>k. (if c = v then Suc k else k)) (match_count cs vs)"

definition match_str :: "string \<Rightarrow> string \<Rightarrow> int option" where
  "match_str model var = map_option (\<lambda>k. if k = length var then 1 else 0) (match_count model var)"

definition extract_value :: "string \<Rightarrow> string option" where
  "extract_value model =
     (let value = drop 1 (dropWhile (\<lambda>c. c \<noteq> CHR ''='') model)
      in if length value < 1000 then Some value else None)"

subsection \<open>First program\<close>

definition a1_mem_init :: shellmem where
  "a1_mem_init = replicate 1000 none_cell"

definition a1_mem_set_value :: "string \<Rightarrow> string \<Rightarrow> shellmem \<Rightarrow> shellmem" where
  "a1_mem_set_value = store_set 0 1000"

definition a1_mem_get_value :: "string \<Rightarrow> shellmem \<Rightarrow> string" where
  "a1_mem_get_value var_in m =
     (case store_get 0 1000 var_in m of Some v \<Rightarrow> v | None \<Rightarrow> ''Variable does not exist'')"

subsection \<open>Second program, with \<open>n\<close> for the constant SHELL_MEM_LENGTH\<close>

definition a2_mem_init :: "nat \<Rightarrow> shellmem" where
  "a2_mem_init n = replicate n none_cell"

definition a2_mem_set_value :: "nat \<Rightarrow> string \<Rightarrow> string \<Rightarrow> shellmem \<Rightarrow> shellmem" where
  "a2_mem_set_value n = store_set 0 n"

definition a2_mem_get_value :: "nat \<Rightarrow> string \<Rightarrow> shellmem \<Rightarrow> string option" where
  "a2_mem_get_value n = store_get 0 n"

definition a2_mem_clear :: "nat \<Rightarrow> shellmem \<Rightarrow> shellmem" where
  "a2_mem_clear n m = fill 0 n none_cell m"

text \<open>The null pointer that \<^verbatim>\<open>mem_get_value_at_line\<close> returns is the inner \<^term>\<open>None\<close>.\<close>

definition a2_mem_get_value_at_line :: "nat \<Rightarrow> int \<Rightarrow> shellmem \<Rightarrow> string option option" where
  "a2_mem_get_value_at_line n index m =
     (if index < 0 \<or> index > int n then Some None
      else if nat index < length m then Some (Some (mem_value (m ! nat index))) else None)"

definition mem_line :: "nat \<Rightarrow> memory_struct \<Rightarrow> string" where
  "mem_line i e = [CHR 0x0A] @ ''line '' @ nat_str i @ '': key: '' @ mem_var e @ [CHR 0x09, CHR 0x09] @
                  ''value: '' @ mem_value e @ [CHR 0x0A]"

definition printShellMemory :: "nat \<Rightarrow> shellmem \<Rightarrow> string list" where
  "printShellMemory n m =
     (let used = filter (\<lambda>i. mem_var (m ! i) \<noteq> free_name) [0..<n]; count_empty = n - length used
      in map (\<lambda>i. mem_line i (m ! i)) used @
         [[CHR 0x0A, CHR 0x09] @ nat_str n @ '' lines in total, '' @ nat_str (n - count_empty) @
          '' lines in use, '' @ nat_str count_empty @ '' lines free'' @ [CHR 0x0A, CHR 0x0A]])"

subsection \<open>Third program, with \<open>b\<close> for FRAME_STORE_SIZE and \<open>n\<close> for VAR_STORE_SIZE\<close>

definition a3_mem_init :: "nat \<Rightarrow> nat \<Rightarrow> shellmem" where
  "a3_mem_init b n = replicate (b + n) none_cell"

definition mem_free_at :: "nat \<Rightarrow> shellmem \<Rightarrow> shellmem option" where
  "mem_free_at pos m = (if pos < length m then Some (m[pos := none_cell]) else None)"

text \<open>The inner loop of \<^verbatim>\<open>frame_alloc\<close>: the first of the cells \<open>j\<close>, \<open>j + 1\<close>, \<dots> that is occupied or past the
  border, at most \<open>k\<close> further on.\<close>

fun frame_probe :: "nat \<Rightarrow> shellmem \<Rightarrow> nat \<Rightarrow> nat \<Rightarrow> nat" where
  "frame_probe b m j 0 = j"
| "frame_probe b m j (Suc k) =
     (if j < b then if mem_var (m ! j) \<noteq> free_name then j else frame_probe b m (j + 1) k else j)"

definition own_cell :: "string \<Rightarrow> nat \<Rightarrow> shellmem \<Rightarrow> shellmem" where
  "own_cell pid k m = m[k := (m ! k)\<lparr>mem_var := pid\<rparr>]"

definition frame_alloc ::
    "nat \<Rightarrow> string \<Rightarrow> nat list \<Rightarrow> nat list \<Rightarrow> shellmem \<Rightarrow> nat \<times> nat list \<times> nat list \<times> shellmem" where
  "frame_alloc b pid index valid_bit m =
     (case first_from (\<lambda>i. frame_probe b m i 3 = i + 3) 0 b of
        Some i \<Rightarrow> (0, [i, i + 1, i + 2], [0, 0, 0],
                   own_cell pid (i + 2) (own_cell pid (i + 1) (own_cell pid i m)))
      | None \<Rightarrow> (1, index, valid_bit, m))"

text \<open>\<^verbatim>\<open>mem_set_value_at\<close> also sets the valid bit it is given, to 1, which its callers do.\<close>

definition mem_set_value_at :: "nat \<Rightarrow> string \<Rightarrow> string \<Rightarrow> shellmem \<Rightarrow> shellmem option" where
  "mem_set_value_at pos pid value_in m =
     (if pos < length m then Some (m[pos := \<lparr>mem_var = pid, mem_value = value_in\<rparr>]) else None)"

definition mem_get_value_at :: "nat \<Rightarrow> shellmem \<Rightarrow> string option" where
  "mem_get_value_at pos m = (if pos < length m then Some (mem_value (m ! pos)) else None)"

definition a3_mem_set_value :: "nat \<Rightarrow> nat \<Rightarrow> string \<Rightarrow> string \<Rightarrow> shellmem \<Rightarrow> shellmem" where
  "a3_mem_set_value b n = store_set b n"

definition a3_mem_get_value :: "nat \<Rightarrow> nat \<Rightarrow> string \<Rightarrow> char \<Rightarrow> shellmem \<Rightarrow> string" where
  "a3_mem_get_value b n var_in caller m =
     (case store_get b n var_in m of
        Some v \<Rightarrow> v
      | None \<Rightarrow> if caller = CHR ''p'' then ''Variable does not exist'' else '''')"

fun mem_free_loop :: "nat \<Rightarrow> nat \<Rightarrow> shellmem \<Rightarrow> shellmem option" where
  "mem_free_loop i 0 m = Some m"
| "mem_free_loop i (Suc k) m = Option.bind (mem_free_at i m) (mem_free_loop (i + 1) k)"

definition reset_var_zone :: "nat \<Rightarrow> nat \<Rightarrow> shellmem \<Rightarrow> shellmem option" where
  "reset_var_zone b n m = mem_free_loop b n m"

definition clear_frame :: "nat \<Rightarrow> shellmem \<Rightarrow> shellmem option" where
  "clear_frame start_pos m = mem_free_loop start_pos 3 m"

section \<open>The variable store as a bounded map\<close>

text \<open>What the three memories promise: names other than \<^verbatim>\<open>none\<close> are mapped to the value last set, as long
  as the name is there already or there is room for it; otherwise setting does nothing.\<close>

locale var_store =
  fixes inv :: "'s \<Rightarrow> bool"
    and abs :: "'s \<Rightarrow> string \<Rightarrow> string option"
    and cap :: nat
    and set_op :: "string \<Rightarrow> string \<Rightarrow> 's \<Rightarrow> 's"
    and get_op :: "string \<Rightarrow> 's \<Rightarrow> string option"
  assumes get_law: "inv s \<Longrightarrow> v \<noteq> free_name \<Longrightarrow> get_op v s = abs s v"
    and set_inv: "inv s \<Longrightarrow> v \<noteq> free_name \<Longrightarrow> inv (set_op v x s)"
    and set_law: "inv s \<Longrightarrow> v \<noteq> free_name \<Longrightarrow>
       abs (set_op v x s) = (if v \<in> dom (abs s) \<or> card (dom (abs s)) < cap then (abs s)(v \<mapsto> x) else abs s)"
    and finite_abs: "inv s \<Longrightarrow> finite (dom (abs s)) \<and> card (dom (abs s)) \<le> cap"
begin

lemma get_after_set:
  assumes "inv s" "v \<noteq> free_name" "w \<noteq> free_name" "v \<in> dom (abs s) \<or> card (dom (abs s)) < cap"
  shows "get_op w (set_op v x s) = (if w = v then Some x else get_op w s)"
  using assms set_inv [OF assms(1,2), of x] by (simp add: get_law set_law)

lemma set_when_full:
  assumes "inv s" "v \<noteq> free_name" "w \<noteq> free_name" "card (dom (abs s)) = cap" "get_op v s = None"
  shows "get_op w (set_op v x s) = get_op w s"
  using assms set_inv [OF assms(1,2), of x] by (auto simp: get_law set_law)

lemma set_twice:
  assumes "inv s" "v \<noteq> free_name" "w \<noteq> free_name"
  shows "get_op w (set_op v y (set_op v x s)) = get_op w (set_op v y s)"
proof -
  have "inv (set_op v x s)" "inv (set_op v y s)" "inv (set_op v y (set_op v x s))"
    using assms set_inv by blast+
  with assms show ?thesis by (auto simp: get_law set_law)
qed

end

definition store_wf :: "nat \<Rightarrow> nat \<Rightarrow> shellmem \<Rightarrow> bool" where
  "store_wf lo n m \<longleftrightarrow> lo + n \<le> length m \<and>
     (\<forall>i j. lo \<le> i \<and> i < lo + n \<and> lo \<le> j \<and> j < lo + n \<and> mem_var (m ! i) = mem_var (m ! j) \<and>
            mem_var (m ! i) \<noteq> free_name \<longrightarrow> i = j)"

definition store_abs :: "nat \<Rightarrow> nat \<Rightarrow> shellmem \<Rightarrow> string \<Rightarrow> string option" where
  "store_abs lo n m v = (if v = free_name then None else store_get lo n v m)"

definition used_cells :: "nat \<Rightarrow> nat \<Rightarrow> shellmem \<Rightarrow> nat set" where
  "used_cells lo n m = {i. lo \<le> i \<and> i < lo + n \<and> mem_var (m ! i) \<noteq> free_name}"

lemma store_wf_unique:
  assumes "store_wf lo n m" "mem_var (m ! i) = mem_var (m ! j)" "mem_var (m ! i) \<noteq> free_name"
    "lo \<le> i" "i < lo + n" "lo \<le> j" "j < lo + n"
  shows "i = j"
  using assms unfolding store_wf_def by blast

lemma mem_find_SomeD:
  "mem_find lo n v m = Some i \<Longrightarrow> lo \<le> i \<and> i < lo + n \<and> mem_var (m ! i) = v"
  unfolding mem_find_def by (drule first_from_SomeD) simp

lemma mem_find_None_iff:
  "mem_find lo n v m = None \<longleftrightarrow> (\<forall>i. lo \<le> i \<and> i < lo + n \<longrightarrow> mem_var (m ! i) \<noteq> v)"
  by (simp add: mem_find_def first_from_None_iff)

lemma mem_find_unique:
  assumes "store_wf lo n m" "lo \<le> i" "i < lo + n" "mem_var (m ! i) = v" "v \<noteq> free_name"
  shows "mem_find lo n v m = Some i"
  unfolding mem_find_def
proof (rule first_from_SomeI)
  fix j assume "lo \<le> j" "j < i"
  with assms(3) have "j < lo + n" "j \<noteq> i" by simp_all
  then show "mem_var (m ! j) \<noteq> v" using store_wf_unique [OF assms(1), of i j] assms(2-) \<open>lo \<le> j\<close> by fastforce
qed (use assms in auto)

lemma dom_store_abs:
  assumes "store_wf lo n m"
  shows "dom (store_abs lo n m) = (\<lambda>i. mem_var (m ! i)) ` used_cells lo n m"
    "inj_on (\<lambda>i. mem_var (m ! i)) (used_cells lo n m)"
proof -
  have "v \<in> dom (store_abs lo n m) \<longleftrightarrow> v \<in> (\<lambda>i. mem_var (m ! i)) ` used_cells lo n m" for v
  proof -
    have "v \<in> dom (store_abs lo n m) \<longleftrightarrow> v \<noteq> free_name \<and> mem_find lo n v m \<noteq> None"
      by (simp add: store_abs_def store_get_def dom_def)
    also have "\<dots> \<longleftrightarrow> v \<noteq> free_name \<and> (\<exists>i. lo \<le> i \<and> i < lo + n \<and> mem_var (m ! i) = v)"
      by (simp only: mem_find_None_iff not_all not_imp) auto
    also have "\<dots> \<longleftrightarrow> v \<in> (\<lambda>i. mem_var (m ! i)) ` used_cells lo n m"
      by (auto simp: used_cells_def)
    finally show ?thesis .
  qed
  then show "dom (store_abs lo n m) = (\<lambda>i. mem_var (m ! i)) ` used_cells lo n m" by blast
  show "inj_on (\<lambda>i. mem_var (m ! i)) (used_cells lo n m)"
    using store_wf_unique [OF assms] by (auto simp: inj_on_def used_cells_def)
qed

lemma used_cells_subset: "used_cells lo n m \<subseteq> {lo..<lo + n}"
  by (auto simp: used_cells_def)

lemma room_iff:
  assumes "store_wf lo n m"
  shows "card (dom (store_abs lo n m)) < n \<longleftrightarrow> mem_find lo n free_name m \<noteq> None"
proof -
  have card: "card (dom (store_abs lo n m)) = card (used_cells lo n m)"
    using dom_store_abs [OF assms] by (simp add: card_image)
  have "card (used_cells lo n m) < n \<longleftrightarrow> used_cells lo n m \<noteq> {lo..<lo + n}"
  proof
    assume "card (used_cells lo n m) < n"
    then show "used_cells lo n m \<noteq> {lo..<lo + n}" by (metis card_atLeastLessThan diff_add_inverse less_irrefl)
  next
    assume "used_cells lo n m \<noteq> {lo..<lo + n}"
    with used_cells_subset have "used_cells lo n m \<subset> {lo..<lo + n}" by blast
    from psubset_card_mono [OF _ this] show "card (used_cells lo n m) < n" by simp
  qed
  also have "\<dots> \<longleftrightarrow> mem_find lo n free_name m \<noteq> None"
    using used_cells_subset [of lo n m] unfolding used_cells_def mem_find_None_iff by auto
  finally show ?thesis using card by simp
qed

lemma store_get_update:
  fixes x :: string
  assumes wf: "store_wf lo n m" and i: "lo \<le> i" "i < lo + n"
    and "mem_var (m ! i) = v \<or> (mem_var (m ! i) = free_name \<and> mem_find lo n v m = None)"
    and v: "v \<noteq> free_name"
  defines "m' \<equiv> m[i := \<lparr>mem_var = v, mem_value = x\<rparr>]"
  shows "store_wf lo n m'" "w \<noteq> free_name \<Longrightarrow> store_get lo n w m' = (if w = v then Some x else store_get lo n w m)"
proof -
  have len: "lo + n \<le> length m" using wf by (simp add: store_wf_def)
  have nth: "m' ! j = (if j = i then \<lparr>mem_var = v, mem_value = x\<rparr> else m ! j)" if "j < lo + n" for j
    using that len by (simp add: m'_def nth_list_update)
  have uniq: "mem_var (m ! j) = v \<Longrightarrow> lo \<le> j \<Longrightarrow> j < lo + n \<Longrightarrow> j = i" for j
    using assms(4)
  proof (elim disjE conjE)
    assume "mem_var (m ! j) = v" "lo \<le> j" "j < lo + n" "mem_find lo n v m = None"
    then show "j = i" unfolding mem_find_None_iff by blast
  qed (use store_wf_unique [OF wf, of j i] i v in simp)
  show wf': "store_wf lo n m'"
    unfolding store_wf_def
  proof (intro conjI allI impI)
    fix a b assume *: "lo \<le> a \<and> a < lo + n \<and> lo \<le> b \<and> b < lo + n \<and> mem_var (m' ! a) = mem_var (m' ! b) \<and>
         mem_var (m' ! a) \<noteq> free_name"
    show "a = b"
    proof (cases "a = i \<or> b = i")
      case True
      have var': "mem_var (m' ! j) = v \<Longrightarrow> lo \<le> j \<Longrightarrow> j < lo + n \<Longrightarrow> j = i" for j
        using uniq [of j] nth [of j] by (cases "j = i") auto
      have "mem_var (m' ! i) = v" using nth [OF i(2)] by simp
      with True * have "mem_var (m' ! a) = v" "mem_var (m' ! b) = v" by auto
      with var' * have "a = i" "b = i" by blast+
      then show ?thesis by simp
    next
      case False
      with * nth [of a] nth [of b] store_wf_unique [OF wf, of a b] show ?thesis by auto
    qed
  qed (use len in \<open>simp add: m'_def\<close>)
  show "store_get lo n w m' = (if w = v then Some x else store_get lo n w m)" if w: "w \<noteq> free_name"
  proof (cases "w = v")
    case True
    have "mem_find lo n v m' = Some i" by (rule mem_find_unique [OF wf' i]) (use nth [OF i(2)] v in auto)
    with True nth [OF i(2)] show ?thesis by (simp add: store_get_def)
  next
    case False
    have old: "mem_var (m ! i) \<noteq> w" using assms(4) False w by auto
    show ?thesis
    proof (cases "mem_find lo n w m")
      case None
      then have "mem_find lo n w m' = None" using nth False by (auto simp: mem_find_None_iff)
      with None False show ?thesis by (simp add: store_get_def)
    next
      case (Some j)
      from mem_find_SomeD [OF Some] old have j: "lo \<le> j" "j < lo + n" "mem_var (m ! j) = w" "j \<noteq> i" by auto
      then have "mem_find lo n w m' = Some j"
        by (intro mem_find_unique [OF wf']) (use nth [OF j(2)] w in auto)
      with Some j nth [OF j(2)] False show ?thesis by (simp add: store_get_def)
    qed
  qed
qed

lemma store_set_spec:
  assumes "store_wf lo n m" "v \<noteq> free_name"
  shows "store_wf lo n (store_set lo n v x m)"
    "store_abs lo n (store_set lo n v x m) =
       (if v \<in> dom (store_abs lo n m) \<or> card (dom (store_abs lo n m)) < n
        then (store_abs lo n m)(v \<mapsto> x) else store_abs lo n m)"
proof -
  have dom: "v \<in> dom (store_abs lo n m) \<longleftrightarrow> mem_find lo n v m \<noteq> None"
    using assms(2) by (auto simp: store_abs_def store_get_def)
  have upd: "store_wf lo n (m[i := \<lparr>mem_var = v, mem_value = x\<rparr>]) \<and>
      store_abs lo n (m[i := \<lparr>mem_var = v, mem_value = x\<rparr>]) = (store_abs lo n m)(v \<mapsto> x)"
    if "lo \<le> i" "i < lo + n" "mem_var (m ! i) = v \<or> (mem_var (m ! i) = free_name \<and> mem_find lo n v m = None)" for i
    using store_get_update [OF assms(1) that assms(2)] assms(2) by (auto simp: store_abs_def fun_eq_iff)
  consider (here) i where "mem_find lo n v m = Some i"
    | (free) i where "mem_find lo n v m = None" "mem_find lo n free_name m = Some i"
    | (full) "mem_find lo n v m = None" "mem_find lo n free_name m = None"
    by (cases "mem_find lo n v m"; cases "mem_find lo n free_name m") auto
  then have "store_wf lo n (store_set lo n v x m) \<and> store_abs lo n (store_set lo n v x m) =
       (if v \<in> dom (store_abs lo n m) \<or> card (dom (store_abs lo n m)) < n
        then (store_abs lo n m)(v \<mapsto> x) else store_abs lo n m)"
  proof cases
    case here
    from mem_find_SomeD [OF here] have i: "lo \<le> i" "i < lo + n" "mem_var (m ! i) = v" by auto
    have cell: "(m ! i)\<lparr>mem_value := x\<rparr> = \<lparr>mem_var = v, mem_value = x\<rparr>" using i(3) by (cases "m ! i") simp
    from here dom upd [OF i(1,2)] i(3) show ?thesis by (simp add: store_set_def cell)
  next
    case free
    from mem_find_SomeD [OF free(2)] free(1) have i: "lo \<le> i" "i < lo + n" "mem_var (m ! i) = free_name" by auto
    with free room_iff [OF assms(1)] upd [OF i(1,2)] show ?thesis by (simp add: store_set_def)
  next
    case full
    with dom room_iff [OF assms(1)] assms(1) show ?thesis by (simp add: store_set_def)
  qed
  then show "store_wf lo n (store_set lo n v x m)"
    "store_abs lo n (store_set lo n v x m) =
       (if v \<in> dom (store_abs lo n m) \<or> card (dom (store_abs lo n m)) < n
        then (store_abs lo n m)(v \<mapsto> x) else store_abs lo n m)" by blast+
qed

interpretation cells: var_store "store_wf lo n" "store_abs lo n" n "store_set lo n" "store_get lo n" for lo n
proof unfold_locales
  fix m assume wf: "store_wf lo n m"
  have "finite (used_cells lo n m)" by (rule finite_subset [OF used_cells_subset]) simp
  moreover have "card (used_cells lo n m) \<le> n"
    using card_mono [OF _ used_cells_subset [of lo n m]] by simp
  ultimately show "finite (dom (store_abs lo n m)) \<and> card (dom (store_abs lo n m)) \<le> n"
    using dom_store_abs [OF wf] by (simp add: card_image)
qed (simp_all add: store_abs_def store_set_spec)

interpretation vars1: var_store "store_wf 0 1000" "store_abs 0 1000" 1000 a1_mem_set_value "store_get 0 1000"
  unfolding a1_mem_set_value_def by unfold_locales

interpretation vars2: var_store "store_wf 0 n" "store_abs 0 n" n "a2_mem_set_value n" "a2_mem_get_value n" for n
  unfolding a2_mem_set_value_def a2_mem_get_value_def by unfold_locales

interpretation vars3: var_store "store_wf b n" "store_abs b n" n "a3_mem_set_value b n" "store_get b n" for b n
  unfolding a3_mem_set_value_def by unfold_locales

section \<open>Frames\<close>

definition frame_free :: "nat \<Rightarrow> shellmem \<Rightarrow> nat \<Rightarrow> bool" where
  "frame_free b m i \<longleftrightarrow> i + 3 \<le> b \<and> (\<forall>k<3. mem_var (m ! (i + k)) = free_name)"

lemma frame_probe_iff: "frame_probe b m i 3 = i + 3 \<longleftrightarrow> frame_free b m i"
  by (auto simp: frame_free_def numeral_3_eq_3 less_Suc_eq)

lemma own_cell_nth:
  "k < length m \<Longrightarrow> own_cell pid k m ! j = (if j = k then (m ! k)\<lparr>mem_var := pid\<rparr> else m ! j)"
  "length (own_cell pid k m) = length m"
  by (auto simp: own_cell_def nth_list_update)

lemma mem_free_loop_fill:
  "i + k \<le> length m \<Longrightarrow> mem_free_loop i k m = Some (fill i k none_cell m)"
  by (induction k arbitrary: i m) (auto simp: mem_free_at_def fill_Suc)

section \<open>Properties\<close>

definition bounded_update ::
    "nat \<Rightarrow> string \<Rightarrow> string \<Rightarrow> (string \<Rightarrow> string option) \<Rightarrow> string \<Rightarrow> string option" where
  "bounded_update cap v x f = (if v \<in> dom f \<or> card (dom f) < cap then f(v \<mapsto> x) else f)"

text \<open>
  C16. The variable store of each of the three programs implements a map of bounded size: setting a
  variable makes that name, and only that name, return the new value if it was set before or there
  is a free cell; when the store is full, setting a new name is ignored. (The name \<^verbatim>\<open>none\<close> is not
  usable: it marks free cells.)
\<close>

theorem var_store_refines_bounded_map:
  assumes "v \<noteq> free_name" "w \<noteq> free_name" "store_wf 0 1000 m1" "store_wf 0 n m2" "store_wf b k m3"
  shows "store_abs 0 1000 (a1_mem_set_value v x m1) = bounded_update 1000 v x (store_abs 0 1000 m1) \<and>
      a1_mem_get_value w m1 = (case store_abs 0 1000 m1 w of Some y \<Rightarrow> y | None \<Rightarrow> ''Variable does not exist'') \<and>
      store_abs 0 n (a2_mem_set_value n v x m2) = bounded_update n v x (store_abs 0 n m2) \<and>
      a2_mem_get_value n w m2 = store_abs 0 n m2 w \<and>
      store_abs b k (a3_mem_set_value b k v x m3) = bounded_update k v x (store_abs b k m3) \<and>
      a3_mem_get_value b k w CHR ''p'' m3 =
        (case store_abs b k m3 w of Some y \<Rightarrow> y | None \<Rightarrow> ''Variable does not exist'')"
  using assms
  by (simp add: vars1.set_law vars2.set_law vars3.set_law vars1.get_law vars2.get_law vars3.get_law
      bounded_update_def a1_mem_get_value_def a3_mem_get_value_def split: option.splits)

lemma store_wf_init: "lo + n \<le> k \<Longrightarrow> store_wf lo n (replicate k none_cell)"
  by (auto simp: store_wf_def none_cell_def)

lemma store_abs_init: "lo + n \<le> k \<Longrightarrow> store_abs lo n (replicate k none_cell) = Map.empty"
  by (auto simp: store_abs_def store_get_def mem_find_None_iff none_cell_def fun_eq_iff)

theorem var_store_refines_bounded_map_witness:
  "store_abs 0 1000 (a1_mem_set_value ''x'' ''5'' a1_mem_init) = [''x'' \<mapsto> ''5''] \<and>
   store_abs 0 10 (a2_mem_set_value 10 ''x'' ''5'' (a2_mem_init 10)) = [''x'' \<mapsto> ''5''] \<and>
   store_abs 18 10 (a3_mem_set_value 18 10 ''x'' ''5'' (a3_mem_init 18 10)) = [''x'' \<mapsto> ''5'']"
proof -
  have x: "''x'' \<noteq> free_name" by (simp add: free_name_def)
  note init = a1_mem_init_def a2_mem_init_def a3_mem_init_def
  have "store_wf 0 1000 a1_mem_init" "store_wf 0 10 (a2_mem_init 10)" "store_wf 18 10 (a3_mem_init 18 10)"
    by (simp_all add: init store_wf_init)
  from var_store_refines_bounded_map [OF x x this, of "''5''"] show ?thesis
    by (simp add: bounded_update_def) (simp add: init store_abs_init)
qed

text \<open>
  \<^verbatim>\<open>frame_alloc\<close> takes the first three adjacent free cells of the frame store, marks them with the
  process id and reports their positions; when there is no such place it reports failure and changes
  nothing. No other cell changes, in particular no variable.
\<close>

theorem frame_alloc_first_fit:
  assumes "b \<le> length m"
  shows "(\<exists>i. frame_free b m i \<and> (\<forall>j<i. \<not> frame_free b m j) \<and>
           frame_alloc b pid index valid_bit m =
             (0, [i, i + 1, i + 2], [0, 0, 0], snd (snd (snd (frame_alloc b pid index valid_bit m)))) \<and>
           (\<forall>j<length m. snd (snd (snd (frame_alloc b pid index valid_bit m))) ! j =
              (if i \<le> j \<and> j < i + 3 then (m ! j)\<lparr>mem_var := pid\<rparr> else m ! j))) \<or>
         ((\<forall>i. \<not> frame_free b m i) \<and> frame_alloc b pid index valid_bit m = (1, index, valid_bit, m))"
proof (cases "first_from (\<lambda>i. frame_probe b m i 3 = i + 3) 0 b")
  case None
  then have "\<not> frame_free b m i" if "i < b" for i
    using that by (simp add: first_from_None_iff frame_probe_iff)
  then have "\<forall>i. \<not> frame_free b m i" by (metis frame_free_def add_leE le_neq_implies_less add_cancel_right_right
        zero_neq_numeral order_refl le_add1 le_antisym)
  with None show ?thesis by (simp add: frame_alloc_def)
next
  case (Some i)
  from first_from_SomeD [OF this] have i: "frame_free b m i" "\<forall>j<i. \<not> frame_free b m j"
    by (simp_all add: frame_probe_iff)
  then have "i + 2 < length m" using assms by (simp add: frame_free_def)
  then have "own_cell pid (i + 2) (own_cell pid (i + 1) (own_cell pid i m)) ! j =
      (if i \<le> j \<and> j < i + 3 then (m ! j)\<lparr>mem_var := pid\<rparr> else m ! j)" for j
    by (auto simp: own_cell_nth)
  with Some i show ?thesis by (intro disjI1 exI [of _ i]) (simp add: frame_alloc_def)
qed

theorem frame_alloc_first_fit_witness:
  "fst (frame_alloc 6 ''1'' [] [] (a3_mem_init 6 2)) = 0 \<and> fst (frame_alloc 2 ''1'' [] [] (a3_mem_init 2 2)) = 1"
proof -
  have "6 \<le> length (a3_mem_init 6 2)" "2 \<le> length (a3_mem_init 2 2)" by (simp_all add: a3_mem_init_def)
  note fit = frame_alloc_first_fit [OF this(1), of "''1''" "[]" "[]"] frame_alloc_first_fit [OF this(2), of "''1''" "[]" "[]"]
  have "frame_free 6 (a3_mem_init 6 2) 0" by (simp add: frame_free_def a3_mem_init_def none_cell_def)
  moreover have "\<not> frame_free 2 m i" for m i by (simp add: frame_free_def)
  ultimately show ?thesis using fit by (metis fst_conv)
qed

text \<open>
  The bounds check of \<^verbatim>\<open>mem_get_value_at_line\<close> in the second program is off by one: the index equal to
  the length of the memory passes it and the access is outside the array; every other index is
  handled, out-of-range ones with a null pointer.
\<close>

theorem mem_get_value_at_line_off_by_one:
  assumes "length m = n"
  shows "a2_mem_get_value_at_line n index m = None \<longleftrightarrow> index = int n"
  using assms by (auto simp: a2_mem_get_value_at_line_def)

theorem mem_get_value_at_line_off_by_one_witness:
  "a2_mem_get_value_at_line 10 10 (a2_mem_init 10) = None"
  using mem_get_value_at_line_off_by_one [of "a2_mem_init 10" 10 10] by (simp add: a2_mem_init_def)

end
