(* ===== verification/Kernel3.thy ===== *)
theory Kernel3
  imports Process_List_Spec Shell_Memory "HOL-Library.Signed_Division"
begin

text \<open>
  The processes and the kernel of the third shell (\<^verbatim>\<open>a3/pcb.c\<close>, \<^verbatim>\<open>a3/cpu.c\<close>, \<^verbatim>\<open>a3/kernel.c\<close>): process control blocks and
  pages live in heaps of their own, and the ready queue, the list of pages by last use and the list of all processes hold their addresses. The
  interpreter is an argument, as it is for the second kernel.
\<close>

section \<open>State\<close>

record PAGE3 =
  index3 :: "nat list"
  valid_bit :: "nat list"
  page_index :: nat
  page_pid :: int

record PCB3 =
  pid3 :: int
  size3 :: int
  program_counter :: "int list"
  page_table3 :: "nat list"
  page_table_size :: nat
  source_file :: string

record k3 = heap3 +
  mem3 :: shellmem
  frame_var_border :: nat
  pages3 :: "nat \<Rightarrow> PAGE3 option"
  next_page3 :: nat
  pcbs3 :: "nat \<Rightarrow> PCB3 option"
  next_pcb3 :: nat
  QUEUE :: LINKED_LIST
  LRU_CACHE :: LINKED_LIST
  ALL_PCB :: LINKED_LIST
  PID_counter :: int
  files3 :: "string \<Rightarrow> string option"

type_synonym 'a parser3 = "string \<Rightarrow> string \<Rightarrow> 'a k3_scheme \<Rightarrow> ('a k3_scheme + int \<times> 'a k3_scheme) option"

section \<open>Processes\<close>

primrec count_newlines :: "char \<Rightarrow> string \<Rightarrow> int" where
  "count_newlines last0 [] = 0"
| "count_newlines last0 (c # cs) = (if c = newline \<and> last0 \<noteq> newline then 1 else 0) + count_newlines c cs"

definition count_lines :: "string \<Rightarrow> 'a k3_scheme \<Rightarrow> int option" where
  "count_lines script s =
     (case files3 s script of None \<Rightarrow> Some (- 1) | Some content \<Rightarrow> chk32 (count_newlines newline content + 1))"

definition PAGE_table_size :: "int \<Rightarrow> int" where
  "PAGE_table_size lines = (if lines smod 3 = 0 then lines sdiv 3 else lines sdiv 3 + 1)"

definition PAGE_init :: "int \<Rightarrow> nat \<Rightarrow> PAGE3" where
  "PAGE_init p i = \<lparr>index3 = [1000, 1000, 1000], valid_bit = [0, 0, 0], page_index = i, page_pid = p\<rparr>"

text \<open>\<^verbatim>\<open>sprintf\<close> of the process id into a buffer of 10 bytes.\<close>

definition pid_string :: "int \<Rightarrow> string option" where
  "pid_string p = (if length (int_str p) < 10 then Some (int_str p) else None)"

text \<open>The loop that reads up to three lines of the program into the frame of a page.\<close>

primrec load_lines :: "nat list \<Rightarrow> nat \<Rightarrow> nat \<Rightarrow> string \<Rightarrow> 'a k3_scheme \<Rightarrow> 'a k3_scheme option" where
  "load_lines [] pa pg pid_str s = Some s"
| "load_lines (j # js) pa pg pid_str s =
     do { p \<leftarrow> pcbs3 s pa;
          case fgets 999 (source_file p) of
            None \<Rightarrow> Some s
          | Some (line, rest) \<Rightarrow>
              do { q \<leftarrow> pages3 s pg;
                   m \<leftarrow> mem_set_value_at (index3 q ! j) pid_str line (mem3 s);
                   load_lines js pa pg pid_str
                     (s\<lparr>mem3 := m, pages3 := (pages3 s)(pg \<mapsto> q\<lparr>valid_bit := (valid_bit q)[j := 1]\<rparr>),
                        pcbs3 := (pcbs3 s)(pa \<mapsto> p\<lparr>source_file := rest\<rparr>)\<rparr>) } }"

definition load_PAGE :: "nat \<Rightarrow> nat \<Rightarrow> 'a k3_scheme \<Rightarrow> (int \<times> 'a k3_scheme) option" where
  "load_PAGE pa i s =
     do { p \<leftarrow> pcbs3 s pa;
          if i \<ge> length (page_table3 p) then None
          else do {
            let pg = page_table3 p ! i;
            q \<leftarrow> pages3 s pg;
            pid_str \<leftarrow> pid_string (pid3 p);
            (case frame_alloc (frame_var_border s) pid_str (index3 q) (valid_bit q) (mem3 s) of
               (r, ix, vb, m) \<Rightarrow>
                 if r = 1 then Some (1, s)
                 else do { s1 \<leftarrow> load_lines [0, 1, 2] pa pg pid_str
                             (s\<lparr>mem3 := m, pages3 := (pages3 s)(pg \<mapsto> q\<lparr>index3 := ix, valid_bit := vb\<rparr>)\<rparr>);
                           Some (0, s1) }) } }"

primrec load_first :: "nat list \<Rightarrow> nat \<Rightarrow> 'a k3_scheme \<Rightarrow> ('a k3_scheme + 'a k3_scheme) option" where
  "load_first [] pa s = Some (Inr s)"
| "load_first (i # is) pa s =
     do { (r, s1) \<leftarrow> load_PAGE pa i s;
          if r = 1 then Some (Inl (put3 (''frame_alloc failed'' @ [newline]) (fold put3 (printShellMemory (length (mem3 s1)) (mem3 s1)) s1)))
          else load_first is pa s1 }"

fun alloc_pages :: "int \<Rightarrow> nat list \<Rightarrow> 'a k3_scheme \<Rightarrow> nat list \<times> 'a k3_scheme" where
  "alloc_pages p [] s = ([], s)"
| "alloc_pages p (i # is) s =
     (let pg = next_page3 s; (pgs, s1) = alloc_pages p is (s\<lparr>pages3 := (pages3 s)(pg \<mapsto> PAGE_init p i), next_page3 := Suc pg\<rparr>) in (pg # pgs, s1))"

definition PCB_init :: "int \<Rightarrow> string \<Rightarrow> 'a k3_scheme \<Rightarrow> ('a k3_scheme + nat \<times> 'a k3_scheme) option" where
  "PCB_init PID script s =
     do { lines \<leftarrow> count_lines script s;
          let pts = nat (PAGE_table_size lines);
          let (pt, s1) = alloc_pages PID [0..<pts] s;
          (case files3 s script of
             None \<Rightarrow> Some (Inl (put3 (''File not found: '' @ script @ [newline]) s1))
           | Some content \<Rightarrow>
               do { let pa = next_pcb3 s1;
                    let s2 = s1\<lparr>pcbs3 := (pcbs3 s1)(pa \<mapsto> \<lparr>pid3 = PID, size3 = lines, program_counter = replicate pts 0,
                                  page_table3 = pt, page_table_size = pts, source_file = content\<rparr>), next_pcb3 := Suc pa\<rparr>;
                    r \<leftarrow> load_first [0..<min 2 pts] pa s2;
                    Some (case r of Inl f \<Rightarrow> Inl f | Inr s3 \<Rightarrow> Inr (pa, s3)) }) }"

primrec clear_frames :: "nat list \<Rightarrow> shellmem \<Rightarrow> shellmem option" where
  "clear_frames [] m = Some m"
| "clear_frames (i # is) m = do { m1 \<leftarrow> clear_frame i m; clear_frames is m1 }"

primrec free_pages :: "nat list \<Rightarrow> 'a k3_scheme \<Rightarrow> 'a k3_scheme option" where
  "free_pages [] s = Some s"
| "free_pages (pg # pgs) s =
     do { q \<leftarrow> pages3 s pg;
          m \<leftarrow> clear_frames (index3 q) (mem3 s);
          free_pages pgs (s\<lparr>mem3 := m, pages3 := (pages3 s)(pg := None)\<rparr>) }"

definition free_PCB :: "nat \<Rightarrow> 'a k3_scheme \<Rightarrow> 'a k3_scheme option" where
  "free_PCB pa s = do { p \<leftarrow> pcbs3 s pa; s1 \<leftarrow> free_pages (page_table3 p) s; Some (s1\<lparr>pcbs3 := (pcbs3 s1)(pa := None)\<rparr>) }"

primrec evict_lines :: "nat list \<Rightarrow> nat \<Rightarrow> 'a k3_scheme \<Rightarrow> 'a k3_scheme option" where
  "evict_lines [] pg s = Some s"
| "evict_lines (i # is) pg s =
     do { q \<leftarrow> pages3 s pg;
          v \<leftarrow> mem_get_value_at (index3 q ! i) (mem3 s);
          m \<leftarrow> mem_free_at (index3 q ! i) (mem3 s);
          evict_lines is pg
            ((put3 v s)\<lparr>mem3 := m, pages3 := (pages3 s)(pg \<mapsto> q\<lparr>index3 := (index3 q)[i := 0], valid_bit := (valid_bit q)[i := 0]\<rparr>)\<rparr>) }"

definition PAGE_evict :: "nat \<Rightarrow> nat \<Rightarrow> 'a k3_scheme \<Rightarrow> 'a k3_scheme option" where
  "PAGE_evict pa i s =
     do { p \<leftarrow> pcbs3 s pa;
          if i \<ge> length (page_table3 p) then None
          else do { s1 \<leftarrow> evict_lines [0, 1, 2] (page_table3 p ! i) (put3 (''Page fault! Victim page contents:'' @ [newline]) s);
                    Some (put3 (''End of victim page contents.'' @ [newline]) s1) } }"

definition PCB_equal :: "'a k3_scheme \<Rightarrow> nat \<Rightarrow> nat \<Rightarrow> bool option" where
  "PCB_equal s p1 p2 = do { a \<leftarrow> pcbs3 s p1; b \<leftarrow> pcbs3 s p2; Some (pid3 a = pid3 b) }"

definition PAGE_equal :: "'a k3_scheme \<Rightarrow> nat \<Rightarrow> nat \<Rightarrow> bool option" where
  "PAGE_equal s p1 p2 = do { a \<leftarrow> pages3 s p1; b \<leftarrow> pages3 s p2; Some (index3 a ! 0 = index3 b ! 0) }"

definition PCB_done :: "PCB3 \<Rightarrow> bool" where
  "PCB_done p \<longleftrightarrow> list_all (\<lambda>i. program_counter p ! i = 3) [0..<page_table_size p]"

section \<open>Execution\<close>

text \<open>\<^verbatim>\<open>cpu_run\<close> is given pointers into the page \<open>i\<close> of a process, to its line \<open>j\<close>; here it is given the indices.\<close>

definition cpu_run :: "'a parser3 \<Rightarrow> string \<Rightarrow> nat \<Rightarrow> nat \<Rightarrow> nat \<Rightarrow> 'a k3_scheme \<Rightarrow> ('a k3_scheme + int \<times> 'a k3_scheme) option" where
  "cpu_run parse cwd pa i j s =
     do { p \<leftarrow> pcbs3 s pa;
          if i \<ge> length (page_table3 p) \<or> j \<ge> 3 then None
          else do {
            q \<leftarrow> pages3 s (page_table3 p ! i);
            if valid_bit q ! j = 0 then Some (Inr (1, s))
            else do {
              line \<leftarrow> mem_get_value_at (index3 q ! j) (mem3 s);
              r \<leftarrow> parse line cwd s;
              (case r of
                 Inl f \<Rightarrow> Some (Inl f)
               | Inr (ret, s1) \<Rightarrow>
                   do { p1 \<leftarrow> pcbs3 s1 pa;
                        pc \<leftarrow> chk32 (program_counter p1 ! i + 1);
                        sz \<leftarrow> chk32 (size3 p1 - 1);
                        Some (Inr (ret, s1\<lparr>pcbs3 := (pcbs3 s1)(pa \<mapsto> p1\<lparr>program_counter := (program_counter p1)[i := pc], size3 := sz\<rparr>)\<rparr>)) }) } } }"

definition proc_done :: "PCB3 \<Rightarrow> bool" where
  "proc_done p \<longleftrightarrow> \<not> size3 p > 0"

text \<open>The search for the owner of a page: through the list of all processes, up to the end of the \<^emph>\<open>ready queue\<close>.\<close>

partial_function (option) owner_loop :: "int \<Rightarrow> ptr \<Rightarrow> 'a k3_scheme \<Rightarrow> nat option" where
  "owner_loop p cur s =
     do { n \<leftarrow> node3 cur s;
          pa \<leftarrow> nd_data n;
          if cur = Some (dummy_tail (QUEUE s)) then Some pa
          else do { b \<leftarrow> pcbs3 s pa; if pid3 b \<noteq> p then owner_loop p (nd_next n) s else Some pa } }"

declare owner_loop.simps [code]

definition run_proc :: "'a parser3 \<Rightarrow> string \<Rightarrow> nat \<Rightarrow> nat \<Rightarrow> nat \<Rightarrow> 'a k3_scheme \<Rightarrow> ('a k3_scheme + int \<times> 'a k3_scheme) option" where
  "run_proc parse cwd pa i j s =
     do { r \<leftarrow> cpu_run parse cwd pa i j s;
          case r of
            Inl f \<Rightarrow> Some (Inl f)
          | Inr (ret, s1) \<Rightarrow>
              do { p \<leftarrow> pcbs3 s1 pa;
                   if i \<ge> length (page_table3 p) then None
                   else if ret = 1
                   then do {
                     (full, s2) \<leftarrow> load_PAGE pa i s1;
                     r2 \<leftarrow>
                       (if full = 1
                        then do { t \<leftarrow> pop_tail (LRU_CACHE s2) s2;
                                  (case t of
                                     Inl f \<Rightarrow> Some (Inl f)
                                   | Inr (victim, lru, s3) \<Rightarrow>
                                       do { v \<leftarrow> victim;
                                            q \<leftarrow> pages3 s3 v;
                                            hd_node \<leftarrow> node3 (Some (dummy_head (ALL_PCB s3))) s3;
                                            owner \<leftarrow> owner_loop (page_pid q) (nd_next hd_node) (s3\<lparr>LRU_CACHE := lru\<rparr>);
                                            s4 \<leftarrow> PAGE_evict owner (page_index q) (s3\<lparr>LRU_CACHE := lru\<rparr>);
                                            (_, s5) \<leftarrow> load_PAGE pa i s4;
                                            Some (Inr s5) }) }
                        else Some (Inr s2));
                     (case r2 of
                        Inl f \<Rightarrow> Some (Inl f)
                      | Inr s6 \<Rightarrow>
                          do { (_, lru, s7) \<leftarrow> add_head (page_table3 p ! i) (LRU_CACHE s6) s6;
                               (_, q, s8) \<leftarrow> add_tail pa (QUEUE s7) (s7\<lparr>LRU_CACHE := lru\<rparr>);
                               Some (Inr (1, s8\<lparr>QUEUE := q\<rparr>)) }) }
                   else do {
                     (d, lru, s2) \<leftarrow> remove_elem (PAGE_equal s1) (page_table3 p ! i) (LRU_CACHE s1) s1;
                     pg \<leftarrow> d;
                     (_, lru', s3) \<leftarrow> add_head pg lru s2;
                     Some (Inr (0, s3\<lparr>LRU_CACHE := lru'\<rparr>)) } } }"

fun add_pages :: "nat list \<Rightarrow> 'a k3_scheme \<Rightarrow> 'a k3_scheme option" where
  "add_pages [] s = Some s"
| "add_pages (pg # pgs) s = do { (_, lru, s1) \<leftarrow> add_head pg (LRU_CACHE s) s; add_pages pgs (s1\<lparr>LRU_CACHE := lru\<rparr>) }"

definition new_proc :: "string \<Rightarrow> 'a k3_scheme \<Rightarrow> ('a k3_scheme + int \<times> 'a k3_scheme) option" where
  "new_proc script s =
     do { n \<leftarrow> chk32 (PID_counter s + 1);
          r \<leftarrow> PCB_init (PID_counter s) script (s\<lparr>PID_counter := n\<rparr>);
          case r of
            Inl f \<Rightarrow> Some (Inl f)
          | Inr (pa, s1) \<Rightarrow>
              do { (_, allp, s2) \<leftarrow> add_tail pa (ALL_PCB s1) s1;
                   (e, q, s3) \<leftarrow> add_tail pa (QUEUE s2) (s2\<lparr>ALL_PCB := allp\<rparr>);
                   if e \<noteq> 0 then Some (Inr (1, s3\<lparr>QUEUE := q\<rparr>))
                   else do { p \<leftarrow> pcbs3 s3 pa;
                             s4 \<leftarrow> add_pages (take (min 2 (page_table_size p)) (page_table3 p)) (s3\<lparr>QUEUE := q\<rparr>);
                             Some (Inr (0, s4)) } } }"

section \<open>Scheduling\<close>

definition kernel_setup :: "'a k3_scheme \<Rightarrow> 'a k3_scheme option" where
  "kernel_setup s =
     do { (q, s1) \<leftarrow> list_init s; (lru, s2) \<leftarrow> list_init s1; (allp, s3) \<leftarrow> list_init s2;
          Some (s3\<lparr>QUEUE := q, LRU_CACHE := lru, ALL_PCB := allp\<rparr>) }"

text \<open>The first valid line of a process, as \<^verbatim>\<open>run_proc_FIFO\<close> looks for it, page by page.\<close>

fun valid_line :: "nat list \<Rightarrow> nat \<Rightarrow> 'a k3_scheme \<Rightarrow> (nat \<times> nat) option" where
  "valid_line [] i s = None"
| "valid_line (pg # pgs) i s =
     do { q \<leftarrow> pages3 s pg;
          case first_from (\<lambda>j. valid_bit q ! j \<noteq> 0) 0 3 of Some j \<Rightarrow> Some (i, j) | None \<Rightarrow> valid_line pgs (i + 1) s }"

partial_function (option) fifo_process :: "'a parser3 \<Rightarrow> string \<Rightarrow> nat \<Rightarrow> 'a k3_scheme \<Rightarrow> ('a k3_scheme + 'a k3_scheme) option" where
  "fifo_process parse cwd pa s =
     do { p \<leftarrow> pcbs3 s pa;
          if proc_done p then Some (Inr s)
          else do { (i, j) \<leftarrow> valid_line (page_table3 p) 0 s;
                    r \<leftarrow> run_proc parse cwd pa i j s;
                    (case r of Inl f \<Rightarrow> Some (Inl f) | Inr (_, s1) \<Rightarrow> fifo_process parse cwd pa s1) } }"

declare fifo_process.simps [code]

partial_function (option) run_proc_FIFO :: "'a parser3 \<Rightarrow> string \<Rightarrow> 'a k3_scheme \<Rightarrow> ('a k3_scheme + int \<times> 'a k3_scheme) option" where
  "run_proc_FIFO parse cwd s =
     (if \<not> ll_size (QUEUE s) > 0 then Some (Inr (0, s))
      else do { t \<leftarrow> pop_head (QUEUE s) s;
                case t of
                  Inl f \<Rightarrow> Some (Inl f)
                | Inr (d, q, s1) \<Rightarrow>
                    do { pa \<leftarrow> d;
                         r \<leftarrow> fifo_process parse cwd pa (s1\<lparr>QUEUE := q\<rparr>);
                         (case r of
                            Inl f \<Rightarrow> Some (Inl f)
                          | Inr s2 \<Rightarrow> do { s3 \<leftarrow> free_PCB pa s2; run_proc_FIFO parse cwd s3 }) } })"

declare run_proc_FIFO.simps [code]

partial_function (option) done_loop :: "ptr \<Rightarrow> 'a k3_scheme \<Rightarrow> bool option" where
  "done_loop cur s =
     do { b \<leftarrow> has_next cur s;
          if \<not> b then Some True
          else do { (d, cur') \<leftarrow> next_data cur s;
                    pa \<leftarrow> d; p \<leftarrow> pcbs3 s pa;
                    if \<not> PCB_done p then Some False else done_loop cur' s } }"

declare done_loop.simps [code]

definition queue_done :: "'a k3_scheme \<Rightarrow> bool option" where
  "queue_done s = do { h \<leftarrow> node3 (Some (dummy_head (QUEUE s))) s; done_loop (nd_next h) s }"

text \<open>One line of a process under round robin: the page is the first one whose counter is not 3, the line is its counter.\<close>

definition current_page :: "PCB3 \<Rightarrow> nat" where
  "current_page p =
     (case first_from (\<lambda>i. program_counter p ! i \<noteq> 3) 0 (page_table_size p) of Some i \<Rightarrow> i | None \<Rightarrow> page_table_size p)"

definition rr_line :: "'a parser3 \<Rightarrow> string \<Rightarrow> nat \<Rightarrow> 'a k3_scheme \<Rightarrow> ('a k3_scheme + int \<times> 'a k3_scheme) option" where
  "rr_line parse cwd pa s =
     do { p \<leftarrow> pcbs3 s pa;
          let i = current_page p;
          if i \<ge> length (program_counter p) \<or> program_counter p ! i < 0 then None
          else run_proc parse cwd pa i (nat (program_counter p ! i)) s }"

text \<open>One turn of a process under round robin.\<close>

definition rr_turn :: "'a parser3 \<Rightarrow> string \<Rightarrow> nat \<Rightarrow> 'a k3_scheme \<Rightarrow> ('a k3_scheme + 'a k3_scheme) option" where
  "rr_turn parse cwd pa s =
     do { p \<leftarrow> pcbs3 s pa;
          if size3 p > 1
          then do { r1 \<leftarrow> rr_line parse cwd pa s;
                    (case r1 of
                       Inl f \<Rightarrow> Some (Inl f)
                     | Inr (ret1, s1) \<Rightarrow>
                         if ret1 = 1 then Some (Inr s1)
                         else do { r2 \<leftarrow> rr_line parse cwd pa s1;
                                   (case r2 of
                                      Inl f \<Rightarrow> Some (Inl f)
                                    | Inr (ret2, s2) \<Rightarrow>
                                        if ret2 = 1 then Some (Inr s2)
                                        else do { (_, q, s3) \<leftarrow> add_tail pa (QUEUE s2) s2; Some (Inr (s3\<lparr>QUEUE := q\<rparr>)) }) }) }
          else if size3 p = 1
          then do { r \<leftarrow> rr_line parse cwd pa s;
                    Some (case r of Inl f \<Rightarrow> Inl f | Inr (_, s1) \<Rightarrow> Inr s1) }
          else Some (Inr s) }"

partial_function (option) rr_loop :: "'a parser3 \<Rightarrow> string \<Rightarrow> 'a k3_scheme \<Rightarrow> ('a k3_scheme + 'a k3_scheme) option" where
  "rr_loop parse cwd s =
     do { b \<leftarrow> queue_done s;
          if b then Some (Inr s)
          else do { t \<leftarrow> pop_head (QUEUE s) s;
                    case t of
                      Inl f \<Rightarrow> Some (Inl f)
                    | Inr (d, q, s1) \<Rightarrow>
                        do { pa \<leftarrow> d;
                             r \<leftarrow> rr_turn parse cwd pa (s1\<lparr>QUEUE := q\<rparr>);
                             (case r of Inl f \<Rightarrow> Some (Inl f) | Inr s2 \<Rightarrow> rr_loop parse cwd s2) } } }"

declare rr_loop.simps [code]

partial_function (option) free_all :: "ptr \<Rightarrow> 'a k3_scheme \<Rightarrow> 'a k3_scheme option" where
  "free_all cur s =
     do { b \<leftarrow> has_next cur s;
          if \<not> b then Some s
          else do { (d, cur') \<leftarrow> next_data cur s; pa \<leftarrow> d; s1 \<leftarrow> free_PCB pa s; free_all cur' s1 } }"

declare free_all.simps [code]

definition run_proc_RR :: "'a parser3 \<Rightarrow> string \<Rightarrow> 'a k3_scheme \<Rightarrow> ('a k3_scheme + int \<times> 'a k3_scheme) option" where
  "run_proc_RR parse cwd s =
     do { r \<leftarrow> rr_loop parse cwd s;
          case r of
            Inl f \<Rightarrow> Some (Inl f)
          | Inr s1 \<Rightarrow>
              do { h \<leftarrow> node3 (Some (dummy_head (ALL_PCB s1))) s1;
                   s2 \<leftarrow> free_all (nd_next h) s1;
                   (q, s3) \<leftarrow> list_clear (QUEUE s2) s2;
                   (lru, s4) \<leftarrow> list_clear (LRU_CACHE s3) s3;
                   (allp, s5) \<leftarrow> list_clear (ALL_PCB s4) s4;
                   Some (Inr (0, s5\<lparr>QUEUE := q, LRU_CACHE := lru, ALL_PCB := allp\<rparr>)) } }"

end
