(* ===== verification/Shell1.thy ===== *)
theory Shell1
  imports Shell_Memory
begin

text \<open>
  The first program: the shell of \<^verbatim>\<open>a1/shell.c\<close>, its interpreter \<^verbatim>\<open>a1/interpreter.c\<close> and the helpers of
  \<^verbatim>\<open>a1/stringUtils.c\<close>. The interpreter calls itself for the branches of \<^verbatim>\<open>if\<close> and, through
  \<^verbatim>\<open>parseInput\<close>, for the lines of a script; a script may run itself, so the nesting is bounded by fuel.
  Overflow of one of the fixed buffers is undefined behaviour (\<^term>\<open>None\<close>).
\<close>

record a1 =
  mem1 :: shellmem
  out1 :: "string list"
  files1 :: hostfiles

type_synonym a1_interp = "string list \<Rightarrow> a1 \<Rightarrow> (int, a1) outcome"

section \<open>Splitting a line into words\<close>

definition is_sep :: "char \<Rightarrow> bool" where
  "is_sep c \<longleftrightarrow> c = CHR '';'' \<or> c = newline \<or> c = CHR '' ''"

text \<open>The loop of \<^verbatim>\<open>parseInput\<close> at index \<open>a\<close>, \<open>r\<close> being the rest of the line from there.\<close>

function a1_words :: "nat \<Rightarrow> string \<Rightarrow> string list \<Rightarrow> string list option" where
  "a1_words a r ws =
     (if r = [] \<or> hd r = newline \<or> a \<ge> 1000 then Some ws
      else let word = take (1000 - a) (takeWhile (\<lambda>c. \<not> is_sep c) r); r' = drop (length word) r
           in if length word \<ge> 200 \<or> length ws \<ge> 100 then None
              else if r' = [] then Some (ws @ [word])
              else a1_words (a + length word + 1) (tl r') (ws @ [word]))"
  by pat_completeness auto
termination
  by (relation "measure (\<lambda>(a, r, ws). length r)") (auto simp: neq_Nil_conv)

declare a1_words.simps [simp del]

definition skip_blanks :: "nat \<Rightarrow> string \<Rightarrow> nat \<times> string" where
  "skip_blanks a r = (let k = min (length (takeWhile (\<lambda>c. c = CHR '' '') r)) (1000 - a) in (a + k, drop k r))"

definition a1_parseInput :: "a1_interp \<Rightarrow> string \<Rightarrow> a1 \<Rightarrow> (int, a1) outcome" where
  "a1_parseInput interp ui s =
     (let (a, r) = skip_blanks 0 ui in Option.bind (a1_words a r []) (\<lambda>words. interp words s))"

section \<open>Commands\<close>

definition a1_printf :: "string \<Rightarrow> a1 \<Rightarrow> a1" where
  "a1_printf str s = s\<lparr>out1 := out1 s @ [str]\<rparr>"

definition returns :: "int \<Rightarrow> 's \<Rightarrow> (int, 's) outcome" where
  "returns x s = Some (Inr (x, s))"

lemma returns_eq [simp]: "and_then (returns x s) f = f x s" "returns x s = Some (Inr (y, t)) \<longleftrightarrow> x = y \<and> s = t"
  by (auto simp: returns_def)

definition badcommand :: "a1 \<Rightarrow> (int, a1) outcome" where
  "badcommand s = returns 1 (a1_printf (''Unknown Command'' @ [newline]) s)"

definition emptyIf :: "a1 \<Rightarrow> (int, a1) outcome" where
  "emptyIf s = returns 1 (a1_printf (''Empty if clause'' @ [newline]) s)"

definition badcommandFileDoesNotExist :: "a1 \<Rightarrow> (int, a1) outcome" where
  "badcommandFileDoesNotExist s = returns 3 (a1_printf (''Bad command: File not found'' @ [newline]) s)"

definition badCommandFrom :: "string \<Rightarrow> a1 \<Rightarrow> (int, a1) outcome" where
  "badCommandFrom command s = returns 1 (a1_printf (''Bad command: '' @ command @ [newline]) s)"

definition isVariable :: "string \<Rightarrow> bool" where
  "isVariable str \<longleftrightarrow> str \<noteq> [] \<and> hd str = CHR ''$''"

text \<open>\<^verbatim>\<open>slice\<close>, with the size of the buffer it fills.\<close>

definition str_slice :: "nat \<Rightarrow> string \<Rightarrow> nat \<Rightarrow> nat \<Rightarrow> string option" where
  "str_slice bufsize str start fin = (if fin - start < bufsize then Some (take (fin - start) (drop start str)) else None)"

definition parseSetInput :: "string list \<Rightarrow> string option" where
  "parseSetInput args =
     (let out_str = args ! 2 @ concat (map (\<lambda>w. '' '' @ w) (drop 3 args))
      in if length out_str < 600 then Some out_str else None)"

definition tab3 :: string where "tab3 = [CHR 0x09, CHR 0x09, CHR 0x09]"

definition quoted_bye :: string where
  "quoted_bye = [CHR 0xE2, CHR 0x80, CHR 0x9C] @ ''Bye!'' @ [CHR 0xE2, CHR 0x80, CHR 0x9D]"

definition a1_help_string :: string where
  "a1_help_string =
     ''COMMAND'' @ tab3 @ ''DESCRIPTION'' @ [newline] @
     '' help'' @ tab3 @ ''Displays all the commands'' @ [newline] @
     '' quit'' @ tab3 @ ''Exits / terminates the shell with '' @ quoted_bye @ [newline] @
     '' set VAR STRING'' @ take 2 tab3 @ ''Assigns a value to shell memory'' @ [newline] @
     '' print VAR'' @ take 2 tab3 @ ''Displays the STRING assigned to VAR'' @ [newline] @
     '' run SCRIPT.TXT'' @ take 2 tab3 @ ''Executes the file SCRIPT.TXT'' @ [newline]"

definition a1_help :: "a1 \<Rightarrow> (int, a1) outcome" where
  "a1_help s = returns 0 (a1_printf (a1_help_string @ [newline]) s)"

definition a1_quit :: "a1 \<Rightarrow> (int, a1) outcome" where
  "a1_quit s = Some (Inl (a1_printf (''Bye!'' @ [newline]) s))"

definition a1_set :: "string \<Rightarrow> string \<Rightarrow> a1 \<Rightarrow> (int, a1) outcome" where
  "a1_set var val s = returns 0 (s\<lparr>mem1 := a1_mem_set_value var val (mem1 s)\<rparr>)"

definition a1_print :: "string \<Rightarrow> a1 \<Rightarrow> (int, a1) outcome" where
  "a1_print var s = returns 0 (a1_printf (a1_mem_get_value var (mem1 s) @ [newline]) s)"

definition a1_echo :: "string \<Rightarrow> a1 \<Rightarrow> (int, a1) outcome" where
  "a1_echo arg s =
     do { out_str \<leftarrow>
            (if isVariable arg
             then do { variable_name \<leftarrow> str_slice 100 arg 1 (length arg);
                       let v = a1_mem_get_value variable_name (mem1 s);
                       if length v < 100 then Some (if v = ''Variable does not exist'' then [] else v) else None }
             else if length arg < 100 then Some arg else None);
          returns 0 (a1_printf (out_str @ [newline]) s) }"

definition a1_host :: "host \<Rightarrow> host_call \<Rightarrow> a1 \<Rightarrow> int \<times> a1" where
  "a1_host host c s = (let (r, fs) = hcall host c (files1 s) in (r, s\<lparr>files1 := fs\<rparr>))"

definition myMkdir :: "host \<Rightarrow> string \<Rightarrow> a1 \<Rightarrow> (int, a1) outcome" where
  "myMkdir host dirname s = (let (r, s') = a1_host host (Mkdir dirname) s in returns r s')"

definition myCd :: "host \<Rightarrow> string \<Rightarrow> a1 \<Rightarrow> (int, a1) outcome" where
  "myCd host dirname s =
     (let (err_code, s') = a1_host host (Chdir dirname) s
      in if err_code \<noteq> 0 then badCommandFrom ''my_cd'' s' else returns 0 s')"

definition myTouch :: "host \<Rightarrow> string \<Rightarrow> a1 \<Rightarrow> (int, a1) outcome" where
  "myTouch host dirname s =
     (if length (''touch '' @ dirname) < 110
      then let (r, s') = a1_host host (System (''touch '' @ dirname)) s in returns r s' else None)"

text \<open>The loop of \<^verbatim>\<open>myCat\<close> and of the tail of a file: print line by line.\<close>

function print_stream :: "nat \<Rightarrow> string \<Rightarrow> string list" where
  "print_stream n rest =
     (if n \<le> 1 then [] else case fgets n rest of None \<Rightarrow> [] | Some (l, rest') \<Rightarrow> l # print_stream n rest')"
  by pat_completeness auto
termination
  by (relation "measure (\<lambda>(n, r). length r)") (auto dest: fgets_shorter)

definition myCat :: "string \<Rightarrow> a1 \<Rightarrow> (int, a1) outcome" where
  "myCat filename s =
     (case files1 s filename of
        None \<Rightarrow> badCommandFrom ''my_cat'' s
      | Some c \<Rightarrow> returns 0 (fold a1_printf (print_stream 9999 c) s))"

definition myLs :: "host \<Rightarrow> a1 \<Rightarrow> (int, a1) outcome" where
  "myLs host s = (let (r, s') = a1_host host (System ''ls .'') s in returns r s')"

text \<open>The loop of \<^verbatim>\<open>run\<close>: \<open>line\<close> is the line buffer, \<open>rest\<close> what is left of the file and \<open>eof\<close> whether its end was
  hit. After the end is hit the buffer is cleared but still interpreted once if no line was read.\<close>

function run_loop :: "(string \<Rightarrow> a1 \<Rightarrow> (int, a1) outcome) \<Rightarrow> string \<Rightarrow> bool \<Rightarrow> string \<Rightarrow> a1 \<Rightarrow> (int, a1) outcome" where
  "run_loop parse rest eof line s =
     and_then (parse line s) (\<lambda>errCode s1.
       if eof then returns errCode s1
       else (case fgets 999 rest of
               None \<Rightarrow> run_loop parse [] True [] s1
             | Some (l, rest') \<Rightarrow> run_loop parse rest' (hits_eof 999 rest) l s1))"
  by pat_completeness auto
termination
  by (relation "measure (\<lambda>(parse, rest, eof, line, s). if eof then 0 else Suc (length rest))")
    (auto dest: fgets_shorter)

declare run_loop.simps [simp del]

definition a1_run :: "(string \<Rightarrow> a1 \<Rightarrow> (int, a1) outcome) \<Rightarrow> string \<Rightarrow> a1 \<Rightarrow> (int, a1) outcome" where
  "a1_run parse script s =
     (case files1 s script of
        None \<Rightarrow> badcommandFileDoesNotExist s
      | Some c \<Rightarrow>
          (case fgets 999 c of
             None \<Rightarrow> None
           | Some (line, rest) \<Rightarrow> run_loop parse rest (hits_eof 999 c) line s))"

definition resolveIdentifier :: "string \<Rightarrow> a1 \<Rightarrow> string" where
  "resolveIdentifier identifier s =
     take 100 (if isVariable identifier then a1_mem_get_value (tl identifier) (mem1 s) else identifier)"

definition evaluateCondition :: "string \<Rightarrow> string \<Rightarrow> string \<Rightarrow> a1 \<Rightarrow> int" where
  "evaluateCondition identifier1 op identifier2 s =
     (let value1 = resolveIdentifier identifier1 s; value2 = resolveIdentifier identifier2 s
      in if op = ''=='' then (if value1 = value2 then 1 else 0)
         else if op = ''!='' then (if value1 \<noteq> value2 then 1 else 0)
         else -1)"

text \<open>The loop of \<^verbatim>\<open>executeCommands\<close> from index \<open>i\<close>, \<open>k\<close> rounds before \<open>end\<close>.\<close>

primrec exec_loop :: "a1_interp \<Rightarrow> string list \<Rightarrow> nat \<Rightarrow> nat \<Rightarrow> nat \<Rightarrow> a1 \<Rightarrow> (int, a1) outcome" where
  "exec_loop interp args command_start i 0 s = returns 0 s"
| "exec_loop interp args command_start i (Suc k) s =
     (if k = 0 \<or> args ! (i + 1) = ''else'' \<or> args ! (i + 1) = ''fi''
      then and_then (interp (slice command_start (i + 1 - command_start) args) s) (\<lambda>err_code s1.
             if err_code \<noteq> 0 then returns err_code s1
             else exec_loop interp args (i + 2) (i + 1) k s1)
      else exec_loop interp args command_start (i + 1) k s)"

definition executeCommands :: "a1_interp \<Rightarrow> string list \<Rightarrow> nat \<Rightarrow> nat \<Rightarrow> a1 \<Rightarrow> (int, a1) outcome" where
  "executeCommands interp args start fin s = exec_loop interp args start start (fin - start) s"

definition IfCommand :: "a1_interp \<Rightarrow> string list \<Rightarrow> a1 \<Rightarrow> (int, a1) outcome" where
  "IfCommand interp args s =
     (let condition = evaluateCondition (args ! 1) (args ! 2) (args ! 3) s
      in if condition = -1 then badcommand s
         else case first_from (\<lambda>i. args ! i = ''else'') 4 (length args - 4) of
                None \<Rightarrow> badcommand s
              | Some elseIndex \<Rightarrow>
                  if last args \<noteq> ''fi'' then badcommand s
                  else if condition \<noteq> 0 then executeCommands interp args 5 elseIndex s
                  else executeCommands interp args (elseIndex + 1) (length args - 1) s)"

text \<open>\<^verbatim>\<open>tailf\<close> watches a file for ever when it can be opened.\<close>

definition tailf :: "string \<Rightarrow> a1 \<Rightarrow> (int, a1) outcome" where
  "tailf filename s = (case files1 s filename of None \<Rightarrow> returns 0 s | Some _ \<Rightarrow> None)"

text \<open>The body of \<^verbatim>\<open>interpreter\<close>; \<open>interp\<close> is the interpreter for nested commands.\<close>

definition a1_command :: "host \<Rightarrow> a1_interp \<Rightarrow> a1_interp" where
  "a1_command host interp words s =
     (let args = map strip_eol words; n = length args
      in if n < 1 then badcommand s
         else if args ! 0 = ''help'' then (if n \<noteq> 1 then badcommand s else a1_help s)
         else if args ! 0 = ''quit'' then (if n \<noteq> 1 then badcommand s else a1_quit s)
         else if args ! 0 = ''set''
         then (if n < 3 \<or> n > 7 then badCommandFrom ''set'' s
               else Option.bind (parseSetInput args) (\<lambda>v. a1_set (args ! 1) v s))
         else if args ! 0 = ''print'' then (if n \<noteq> 2 then badcommand s else a1_print (args ! 1) s)
         else if args ! 0 = ''run''
         then (if n \<noteq> 2 then badcommand s else a1_run (a1_parseInput interp) (args ! 1) s)
         else if args ! 0 = ''echo'' then (if n \<noteq> 2 then badcommand s else a1_echo (args ! 1) s)
         else if args ! 0 = ''my_mkdir'' then (if n \<noteq> 2 then badcommand s else myMkdir host (args ! 1) s)
         else if args ! 0 = ''my_touch'' then (if n \<noteq> 2 then badcommand s else myTouch host (args ! 1) s)
         else if args ! 0 = ''my_cd'' then (if n \<noteq> 2 then badcommand s else myCd host (args ! 1) s)
         else if args ! 0 = ''my_cat'' then (if n \<noteq> 2 then badcommand s else myCat (args ! 1) s)
         else if args ! 0 = ''my_ls'' then (if n \<noteq> 1 then badcommand s else myLs host s)
         else if args ! 0 = ''if'' then (if n < 7 then emptyIf s else IfCommand interp args s)
         else if args ! 0 = ''tailf'' then (if n \<noteq> 2 then badcommand s else tailf (args ! 1) s)
         else badcommand s)"

primrec a1_interpreter :: "host \<Rightarrow> nat \<Rightarrow> a1_interp" where
  "a1_interpreter host 0 words s = None"
| "a1_interpreter host (Suc fuel) words s = a1_command host (a1_interpreter host fuel) words s"

section \<open>Words and lines\<close>

definition plain_word :: "string \<Rightarrow> bool" where
  "plain_word w \<longleftrightarrow> w \<noteq> [] \<and> length w < 200 \<and> (\<forall>c\<in>set w. \<not> is_sep c)"

fun unwords :: "string list \<Rightarrow> string" where
  "unwords [] = []"
| "unwords [w] = w"
| "unwords (w # v # ws) = w @ CHR '' '' # unwords (v # ws)"

lemma takeWhile_word: "\<forall>c\<in>set w. \<not> is_sep c \<Longrightarrow> is_sep d \<Longrightarrow> takeWhile (\<lambda>c. \<not> is_sep c) (w @ d # r) = w"
  by (simp add: takeWhile_append2)

lemma is_sep_simps [simp]: "is_sep newline" "is_sep CHR '' ''"
  by (simp_all add: is_sep_def)

lemma plain_hd: "plain_word w \<Longrightarrow> hd (w @ r) \<noteq> newline \<and> hd (w @ r) \<noteq> CHR '' ''"
  by (cases w) (auto simp: plain_word_def is_sep_def)

lemma a1_words_step:
  assumes "plain_word w" "is_sep d" "a + length w < 1000" "length ws < 100"
  shows "a1_words a (w @ d # r) ws = a1_words (a + length w + 1) r (ws @ [w])"
proof -
  have "takeWhile (\<lambda>c. \<not> is_sep c) (w @ d # r) = w" using assms(1,2) by (intro takeWhile_word) (auto simp: plain_word_def)
  moreover have "take (1000 - a) w = w" using assms(3) by simp
  moreover have "hd (w @ d # r) \<noteq> newline" using plain_hd [OF assms(1)] by blast
  ultimately show ?thesis using assms by (subst a1_words.simps) (simp add: Let_def plain_word_def)
qed

lemma a1_words_unwords:
  "\<forall>w\<in>set vs. plain_word w \<Longrightarrow> a + length (unwords vs) < 1000 \<Longrightarrow> length ws + length vs \<le> 100 \<Longrightarrow> vs \<noteq> [] \<Longrightarrow>
   a1_words a (unwords vs @ [newline]) ws = Some (ws @ vs)"
proof (induction vs arbitrary: a ws rule: unwords.induct)
  case (2 w)
  then show ?case by (simp add: a1_words_step) (simp add: a1_words.simps)
next
  case (3 w v vs)
  have "a1_words a (w @ CHR '' '' # (unwords (v # vs) @ [newline])) ws =
        a1_words (a + length w + 1) (unwords (v # vs) @ [newline]) (ws @ [w])"
    using 3 by (intro a1_words_step) auto
  also have "\<dots> = Some ((ws @ [w]) @ v # vs)" using 3 by (intro "3.IH") auto
  finally show ?case by simp
qed simp

lemma unwords_hd: "vs \<noteq> [] \<Longrightarrow> plain_word (hd vs) \<Longrightarrow> hd (unwords vs @ r) \<noteq> CHR '' '' \<and> unwords vs \<noteq> []"
  using plain_hd by (cases vs rule: unwords.cases) (auto simp: plain_word_def)

primrec run_all :: "(string \<Rightarrow> 's \<Rightarrow> (int, 's) outcome) \<Rightarrow> int \<Rightarrow> string list \<Rightarrow> 's \<Rightarrow> (int, 's) outcome" where
  "run_all parse e [] s = returns e s"
| "run_all parse e (l # ls) s = and_then (parse l s) (\<lambda>e' s'. run_all parse e' ls s')"

lemma run_all_append:
  "run_all parse e (xs @ ys) s = and_then (run_all parse e xs s) (\<lambda>e' s'. run_all parse e' ys s')"
  by (induction xs arbitrary: e s) (auto simp: and_then_def returns_def split: option.splits sum.splits bind_splits)

definition text_line :: "string \<Rightarrow> bool" where
  "text_line l \<longleftrightarrow> newline \<notin> set l \<and> CHR 0x00 \<notin> set l \<and> length l < 998"

lemma fgets_line:
  assumes "text_line l"
  shows "fgets 999 (l @ newline # r) = Some (l @ [newline], r)" "\<not> hits_eof 999 (l @ newline # r)"
proof -
  have "line_split 998 (l @ newline # r) = (l @ [newline], r)"
    using assms by (intro line_split_line) (auto simp: text_line_def)
  moreover have "c_string (l @ [newline]) = l @ [newline]"
    using assms by (auto simp: c_string_def text_line_def newline_def takeWhile_eq_all_conv)
  ultimately show "fgets 999 (l @ newline # r) = Some (l @ [newline], r)" "\<not> hits_eof 999 (l @ newline # r)"
    by (simp_all add: fgets_def hits_eof_def)
qed

definition unlines :: "string list \<Rightarrow> string" where
  "unlines ls = concat (map (\<lambda>l. l @ [newline]) ls)"

lemma run_loop_lines:
  "\<forall>l\<in>set ls. text_line l \<Longrightarrow>
   run_loop parse (unlines ls) False line s = run_all parse 0 (line # map (\<lambda>l. l @ [newline]) ls @ [[]]) s"
proof (induction ls arbitrary: line s)
  case Nil
  then show ?case
    by (subst run_loop.simps) (simp add: unlines_def fgets_def run_loop.simps [of _ _ True])
next
  case (Cons l ls)
  have "unlines (l # ls) = l @ newline # unlines ls" by (simp add: unlines_def)
  moreover have "text_line l" using Cons.prems by simp
  ultimately show ?case
    using Cons.IH Cons.prems by (subst run_loop.simps) (simp add: fgets_line)
qed

lemma a1_parse_joined:
  assumes "ws \<noteq> []" "length ws \<le> 100" "\<forall>w\<in>set ws. plain_word w" "length (unwords ws) < 1000"
  shows "a1_parseInput interp (unwords ws @ [newline]) s = interp ws s"
proof -
  have "plain_word (hd ws)" using assms(1,3) by simp
  from unwords_hd [OF assms(1) this, of "[newline]"] have "skip_blanks 0 (unwords ws @ [newline]) = (0, unwords ws @ [newline])"
    by (cases "unwords ws") (auto simp: skip_blanks_def)
  moreover have "a1_words 0 (unwords ws @ [newline]) [] = Some ws"
    using a1_words_unwords [of ws 0 "[]"] assms by simp
  ultimately show ?thesis by (simp add: a1_parseInput_def)
qed

section \<open>Properties\<close>

text \<open>
  Splitting undoes joining: a line made of words separated by single blanks is handed to the
  interpreter as exactly these words.
\<close>

theorem a1_parse_unwords:
  assumes "ws \<noteq> []" "length ws \<le> 100" "\<forall>w\<in>set ws. plain_word w" "length (unwords ws) < 1000"
  shows "a1_parseInput interp (unwords ws @ [newline]) s = interp ws s"
  by (rule a1_parse_joined [OF assms])

definition a1_start :: "hostfiles \<Rightarrow> a1" where
  "a1_start fs = \<lparr>mem1 = a1_mem_init, out1 = [], files1 = fs\<rparr>"

definition idle_host :: host where
  "idle_host = \<lparr>hcall = \<lambda>c fs. (0, fs), hdir = \<lambda>p fs. None, hmalloc = \<lambda>n. True\<rparr>"

theorem a1_parse_unwords_witness:
  "a1_parseInput (a1_interpreter idle_host 1) (''echo hi'' @ [newline]) (a1_start Map.empty) =
   a1_interpreter idle_host 1 [''echo'', ''hi''] (a1_start Map.empty)"
  using a1_parse_unwords [of "[''echo'', ''hi'']"]
  by (simp add: plain_word_def is_sep_def newline_def)

text \<open>
  \<^verbatim>\<open>run\<close> interprets the lines of a script in their order, but then once more an empty line: every script
  that ends with a newline and whose lines all return prints \<^verbatim>\<open>Unknown Command\<close> at its end, and
  \<^verbatim>\<open>run\<close> reports the error code 1.
\<close>

theorem run_ends_with_unknown_command:
  assumes "files1 s script = Some (unlines ls)" "ls \<noteq> []" "\<forall>l\<in>set ls. text_line l"
    and "run_all (a1_parseInput (a1_interpreter host (Suc n))) 0 (map (\<lambda>l. l @ [newline]) ls) s = Some (Inr (e, s'))"
  shows "a1_run (a1_parseInput (a1_interpreter host (Suc n))) script s =
         Some (Inr (1, a1_printf (''Unknown Command'' @ [newline]) s'))"
proof -
  let ?parse = "a1_parseInput (a1_interpreter host (Suc n))"
  from assms(2) obtain l ls' where ls: "ls = l # ls'" by (cases ls) auto
  have "unlines ls = l @ newline # unlines ls'" by (simp add: ls unlines_def)
  then have "a1_run ?parse script s = run_loop ?parse (unlines ls') False (l @ [newline]) s"
    using assms(1,3) ls by (simp add: a1_run_def fgets_line)
  also have "\<dots> = run_all ?parse 0 (map (\<lambda>l. l @ [newline]) ls @ [[]]) s"
    using run_loop_lines [of ls'] assms(3) ls by simp
  also have "\<dots> = ?parse [] s'" using assms(4) by (simp only: run_all_append and_then_simps run_all.simps)
      (auto simp: and_then_def returns_def split: option.splits sum.splits bind_splits)
  also have "?parse [] s' = Some (Inr (1, a1_printf (''Unknown Command'' @ [newline]) s'))"
    by (simp add: a1_parseInput_def skip_blanks_def a1_words.simps a1_command_def badcommand_def returns_def)
  finally show ?thesis .
qed

theorem run_ends_with_unknown_command_witness:
  "\<exists>s'. a1_run (a1_parseInput (a1_interpreter idle_host (Suc 0))) ''f'' (a1_start [''f'' \<mapsto> unlines [''echo hi'']]) =
     Some (Inr (1, a1_printf (''Unknown Command'' @ [newline]) s'))"
proof -
  let ?s = "a1_start [''f'' \<mapsto> unlines [''echo hi'']]"
  have "a1_parseInput (a1_interpreter idle_host (Suc 0)) (''echo hi'' @ [newline]) ?s =
      a1_interpreter idle_host (Suc 0) [''echo'', ''hi''] ?s"
    using a1_parse_joined [of "[''echo'', ''hi'']" "a1_interpreter idle_host (Suc 0)" ?s]
    by (simp add: plain_word_def is_sep_def newline_def)
  also have "\<dots> = Some (Inr (0, a1_printf (''hi'' @ [newline]) ?s))"
    by (simp add: a1_command_def strip_eol_def newline_def a1_echo_def isVariable_def returns_def)
  finally have "run_all (a1_parseInput (a1_interpreter idle_host (Suc 0))) 0 (map (\<lambda>l. l @ [newline]) [''echo hi'']) ?s =
      Some (Inr (0, a1_printf (''hi'' @ [newline]) ?s))" by (simp add: returns_def)
  moreover have "files1 ?s ''f'' = Some (unlines [''echo hi''])" by (simp add: a1_start_def)
  moreover have "\<forall>l\<in>set [''echo hi'']. text_line l" by (simp add: text_line_def newline_def)
  ultimately show ?thesis
    using run_ends_with_unknown_command [of ?s "''f''" "[''echo hi'']" idle_host 0 0] by blast
qed

definition keyword_free :: "string list \<Rightarrow> bool" where
  "keyword_free c \<longleftrightarrow> c \<noteq> [] \<and> ''else'' \<notin> set c \<and> ''fi'' \<notin> set c \<and> (\<forall>w\<in>set c. strip_eol w = w)"

lemma and_then_returns: "and_then m (\<lambda>e s. if e \<noteq> 0 then returns e s else returns 0 s) = m"
  by (cases m) (auto simp: and_then_def returns_def split: sum.splits)

lemma exec_loop_single:
  "(\<And>j. i < j \<Longrightarrow> j < i + k \<Longrightarrow> args ! j \<noteq> ''else'' \<and> args ! j \<noteq> ''fi'') \<Longrightarrow> 0 < k \<Longrightarrow> b \<le> i \<Longrightarrow>
   exec_loop interp args b i k s = interp (slice b (i + k - b) args) s"
proof (induction k arbitrary: i)
  case (Suc k)
  show ?case
  proof (cases "k = 0")
    case True
    with and_then_returns [of "interp (slice b (i + 1 - b) args) s"] show ?thesis by (simp cong: if_cong)
  next
    case False
    have "exec_loop interp args b (i + 1) k s = interp (slice b (i + 1 + k - b) args) s"
      by (rule Suc.IH) (use Suc.prems False in auto)
    with False Suc.prems(1) [of "i + 1"] show ?thesis by simp
  qed
qed simp

lemma nth_in_middle: "length xs \<le> j \<Longrightarrow> j < length xs + length ys \<Longrightarrow> (xs @ ys @ zs) ! j \<in> set ys"
  by (auto simp: nth_append)

lemma slice_middle: "slice (length xs) (length ys) (xs @ ys @ zs) = ys"
  by (simp add: slice_def)

lemma executeCommands_middle:
  assumes "keyword_free c"
  shows "executeCommands interp (xs @ c @ zs) (length xs) (length xs + length c) s = interp c s"
proof -
  have "exec_loop interp (xs @ c @ zs) (length xs) (length xs) (length c) s =
      interp (slice (length xs) (length xs + length c - length xs) (xs @ c @ zs)) s"
  proof (rule exec_loop_single)
    fix j assume "length xs < j" "j < length xs + length c"
    then have "(xs @ c @ zs) ! j \<in> set c" by (intro nth_in_middle) auto
    with assms show "(xs @ c @ zs) ! j \<noteq> ''else'' \<and> (xs @ c @ zs) ! j \<noteq> ''fi''" by (auto simp: keyword_free_def)
  qed (use assms in \<open>auto simp: keyword_free_def\<close>)
  then show ?thesis by (simp add: executeCommands_def slice_middle)
qed

text \<open>
  C35. \<^verbatim>\<open>if x op y then c1 else c2 fi\<close> interprets exactly one of the two commands: \<open>c1\<close> when the comparison holds
  for the values of \<open>x\<close> and \<open>y\<close>, \<open>c2\<close> when it does not; with another operator it is an unknown command.
\<close>

theorem if_runs_one_branch:
  assumes "keyword_free c1" "keyword_free c2" "strip_eol x = x" "strip_eol op = op" "strip_eol y = y"
  shows "a1_interpreter host (Suc n) ([''if'', x, op, y, ''then''] @ c1 @ [''else''] @ c2 @ [''fi'']) s =
    (if op = ''=='' \<or> op = ''!=''
     then if (op = ''=='') = (resolveIdentifier x s = resolveIdentifier y s)
          then a1_interpreter host n c1 s else a1_interpreter host n c2 s
     else badcommand s)"
proof -
  let ?h = "[''if'', x, op, y, ''then'']"
  let ?args = "?h @ c1 @ [''else''] @ c2 @ [''fi'']"
  have "map strip_eol c1 = c1" "map strip_eol c2 = c2"
    using assms(1,2) by (simp_all add: keyword_free_def map_idI)
  then have strip: "map strip_eol ?args = ?args" using assms(3-5) by (simp add: strip_eol_def newline_def)
  have ne: "c1 \<noteq> []" "c2 \<noteq> []" using assms(1,2) by (simp_all add: keyword_free_def)
  then have len: "7 \<le> length ?args" by (cases c1; cases c2; simp)
  have body: "a1_interpreter host (Suc n) ?args s = IfCommand (a1_interpreter host n) ?args s"
    using strip len by (simp add: a1_command_def Let_def)
  have "first_from (\<lambda>i. ?args ! i = ''else'') 4 (length ?args - 4) = Some (5 + length c1)"
  proof (rule first_from_SomeI)
    fix j assume j: "4 \<le> j" "j < 5 + length c1"
    show "?args ! j \<noteq> ''else''"
    proof (cases "j = 4")
      case False
      with j have "(?h @ c1 @ ([''else''] @ c2 @ [''fi''])) ! j \<in> set c1" by (intro nth_in_middle) auto
      with assms(1) show ?thesis by (auto simp: keyword_free_def)
    qed simp
  qed (simp_all add: nth_append)
  moreover have "last ?args = ''fi''" by simp
  moreover have "executeCommands (a1_interpreter host n) ?args 5 (5 + length c1) s = a1_interpreter host n c1 s"
    using executeCommands_middle [OF assms(1), of "a1_interpreter host n" ?h "[''else''] @ c2 @ [''fi'']" s]
    by (simp add: eval_nat_numeral)
  moreover have "executeCommands (a1_interpreter host n) ?args (5 + length c1 + 1) (length ?args - 1) s = a1_interpreter host n c2 s"
    using executeCommands_middle [OF assms(2), of "a1_interpreter host n" "?h @ c1 @ [''else'']" "[''fi'']" s]
    by (simp add: eval_nat_numeral)
  moreover have "?args ! 1 = x" "?args ! 2 = op" "?args ! 3 = y" by simp_all
  moreover define args where "args = ?args"
  ultimately have "IfCommand (a1_interpreter host n) args s =
     (if op = ''=='' \<or> op = ''!=''
     then if (op = ''=='') = (resolveIdentifier x s = resolveIdentifier y s)
          then a1_interpreter host n c1 s else a1_interpreter host n c2 s
     else badcommand s)"
    unfolding args_def [symmetric] IfCommand_def by (simp add: evaluateCondition_def Let_def)
  with body show ?thesis by (simp only: args_def)
qed

theorem if_runs_one_branch_witness:
  "a1_interpreter idle_host 2 [''if'', ''a'', ''=='', ''b'', ''then'', ''print'', ''x'', ''else'', ''echo'', ''hi'', ''fi''] (a1_start Map.empty) =
   Some (Inr (0, a1_printf (''hi'' @ [newline]) (a1_start Map.empty)))"
proof -
  have k: "keyword_free [''print'', ''x'']" "keyword_free [''echo'', ''hi'']"
    by (simp_all add: keyword_free_def strip_eol_def newline_def)
  have "strip_eol ''a'' = ''a''" "strip_eol ''=='' = ''==''" "strip_eol ''b'' = ''b''"
    by (simp_all add: strip_eol_def newline_def)
  from if_runs_one_branch [OF k this, of idle_host "Suc 0" "a1_start Map.empty"] show ?thesis
    by (simp add: numeral_2_eq_2 resolveIdentifier_def isVariable_def a1_command_def strip_eol_def newline_def a1_echo_def
        returns_def)
qed

end
