(* ===== verification/Kernel3_Spec.thy ===== *)
theory Kernel3_Spec
  imports Kernel3 Shell1
begin

text \<open>
  Pages of the third kernel: loading puts the next lines of the program into the first free frame, eviction frees the frame of its page, and what a page
  holds when it is loaded again.
\<close>

section \<open>Loading\<close>

definition line_cell :: "string \<Rightarrow> string \<Rightarrow> memory_struct" where
  "line_cell pid_str l = \<lparr>mem_var = pid_str, mem_value = l @ [newline]\<rparr>"

definition load_frame :: "string \<Rightarrow> nat \<Rightarrow> string \<Rightarrow> string \<Rightarrow> string \<Rightarrow> shellmem \<Rightarrow> shellmem" where
  "load_frame pid_str f l0 l1 l2 m = m[f := line_cell pid_str l0, f + 1 := line_cell pid_str l1, f + 2 := line_cell pid_str l2]"

definition three_lines :: "string \<Rightarrow> string \<Rightarrow> string \<Rightarrow> string \<Rightarrow> string" where
  "three_lines l0 l1 l2 r = l0 @ newline # l1 @ newline # l2 @ newline # r"

definition first_free :: "nat \<Rightarrow> shellmem \<Rightarrow> nat \<Rightarrow> bool" where
  "first_free b m f \<longleftrightarrow> frame_free b m f \<and> (\<forall>j<f. \<not> frame_free b m j)"

lemma frame_alloc_first:
  assumes "first_free b m f"
  shows "frame_alloc b pid_str ix vb m = (0, [f, f + 1, f + 2], [0, 0, 0], own_cell pid_str (f + 2) (own_cell pid_str (f + 1) (own_cell pid_str f m)))"
proof -
  have "first_from (\<lambda>i. frame_probe b m i 3 = i + 3) 0 b = Some f"
    using assms by (intro first_from_SomeI) (auto simp: frame_probe_iff first_free_def frame_free_def)
  then show ?thesis by (simp add: frame_alloc_def)
qed

lemma load_frame_own:
  assumes "f + 2 < length m"
  shows "load_frame pid_str f l0 l1 l2 (own_cell q (f + 2) (own_cell q (f + 1) (own_cell q f m))) = load_frame pid_str f l0 l1 l2 m"
  using assms by (intro nth_equalityI) (auto simp: load_frame_def own_cell_def nth_list_update)

lemma load_lines_three:
  assumes "pcbs3 s pa = Some p" "source_file p = three_lines l0 l1 l2 r" "text_line l0" "text_line l1" "text_line l2"
    "pages3 s pg = Some q" "index3 q = [f, f + 1, f + 2]" "valid_bit q = [0, 0, 0]" "f + 2 < length (mem3 s)"
  shows "load_lines [0, 1, 2] pa pg pid_str s =
    Some (s\<lparr>mem3 := load_frame pid_str f l0 l1 l2 (mem3 s), pages3 := (pages3 s)(pg \<mapsto> q\<lparr>valid_bit := [1, 1, 1]\<rparr>),
             pcbs3 := (pcbs3 s)(pa \<mapsto> p\<lparr>source_file := r\<rparr>)\<rparr>)"
  using assms by (simp add: three_lines_def fgets_line mem_set_value_at_def load_frame_def line_cell_def)

lemma load_PAGE_ok:
  assumes "pcbs3 s pa = Some p" "i < length (page_table3 p)" "pages3 s (page_table3 p ! i) = Some q"
    "length (int_str (pid3 p)) < 10" "source_file p = three_lines l0 l1 l2 r" "text_line l0" "text_line l1" "text_line l2"
    "first_free (frame_var_border s) (mem3 s) f" "frame_var_border s \<le> length (mem3 s)"
  shows "load_PAGE pa i s =
    Some (0, s\<lparr>mem3 := load_frame (int_str (pid3 p)) f l0 l1 l2 (mem3 s),
                pages3 := (pages3 s)(page_table3 p ! i \<mapsto> q\<lparr>index3 := [f, f + 1, f + 2], valid_bit := [1, 1, 1]\<rparr>),
                pcbs3 := (pcbs3 s)(pa \<mapsto> p\<lparr>source_file := r\<rparr>)\<rparr>)"
proof -
  have f: "f + 2 < length (mem3 s)" using assms(9,10) by (simp add: first_free_def frame_free_def)
  let ?m = "own_cell (int_str (pid3 p)) (f + 2) (own_cell (int_str (pid3 p)) (f + 1) (own_cell (int_str (pid3 p)) f (mem3 s)))"
  let ?q = "q\<lparr>index3 := [f, f + 1, f + 2], valid_bit := [0, 0, 0]\<rparr>"
  let ?s = "s\<lparr>mem3 := ?m, pages3 := (pages3 s)(page_table3 p ! i \<mapsto> ?q)\<rparr>"
  have "load_lines [0, 1, 2] pa (page_table3 p ! i) (int_str (pid3 p)) ?s =
      Some (?s\<lparr>mem3 := load_frame (int_str (pid3 p)) f l0 l1 l2 (mem3 ?s),
               pages3 := (pages3 ?s)(page_table3 p ! i \<mapsto> ?q\<lparr>valid_bit := [1, 1, 1]\<rparr>),
               pcbs3 := (pcbs3 ?s)(pa \<mapsto> p\<lparr>source_file := r\<rparr>)\<rparr>)"
    using assms f by (intro load_lines_three) (auto simp: own_cell_def)
  then show ?thesis
    using assms(1-4) f by (simp add: load_PAGE_def pid_string_def frame_alloc_first [OF assms(9)] load_frame_own [OF f, simplified])
qed

section \<open>Eviction\<close>

definition cell_value :: "shellmem \<Rightarrow> nat \<Rightarrow> string" where
  "cell_value m k = mem_value (m ! k)"

lemma PAGE_evict_ok:
  assumes "pcbs3 s pa = Some p" "i < length (page_table3 p)" "pages3 s (page_table3 p ! i) = Some q"
    "index3 q = [f, f + 1, f + 2]" "length (valid_bit q) = 3" "f + 2 < length (mem3 s)"
  shows "PAGE_evict pa i s =
    Some (s\<lparr>out3 := out3 s @ [''Page fault! Victim page contents:'' @ [newline], cell_value (mem3 s) f, cell_value (mem3 s) (f + 1),
                              cell_value (mem3 s) (f + 2), ''End of victim page contents.'' @ [newline]],
             mem3 := (mem3 s)[f := none_cell, f + 1 := none_cell, f + 2 := none_cell],
             pages3 := (pages3 s)(page_table3 p ! i \<mapsto> q\<lparr>index3 := [0, 0, 0], valid_bit := [0, 0, 0]\<rparr>)\<rparr>)"
proof -
  from assms(5) obtain x y z where "valid_bit q = [x, y, z]" by (auto simp: numeral_3_eq_3 length_Suc_conv)
  with assms show ?thesis
    by (simp add: PAGE_evict_def put3_def mem_get_value_at_def mem_free_at_def cell_value_def)
qed

definition example_pcb :: "int \<Rightarrow> nat \<Rightarrow> string \<Rightarrow> PCB3" where
  "example_pcb n pg src = \<lparr>pid3 = n, size3 = 3, program_counter = [0], page_table3 = [pg], page_table_size = 1, source_file = src\<rparr>"

definition resident_page :: PAGE3 where
  "resident_page = \<lparr>index3 = [0, 1, 2], valid_bit = [1, 1, 1], page_index = 0, page_pid = 1\<rparr>"

definition example3 :: "shellmem \<Rightarrow> string \<Rightarrow> k3" where
  "example3 m src =
     \<lparr>nodes3 = Map.empty, next_node3 = 0, out3 = [], mem3 = m, frame_var_border = 3,
      pages3 = [0 \<mapsto> resident_page, 1 \<mapsto> PAGE_init 2 0], next_page3 = 2,
      pcbs3 = [0 \<mapsto> example_pcb 1 0 [], 1 \<mapsto> example_pcb 2 1 src],
      next_pcb3 = 2, QUEUE = \<lparr>ll_size = 0, dummy_head = 0, dummy_tail = 1\<rparr>, LRU_CACHE = \<lparr>ll_size = 0, dummy_head = 2, dummy_tail = 3\<rparr>,
      ALL_PCB = \<lparr>ll_size = 0, dummy_head = 4, dummy_tail = 5\<rparr>, PID_counter = 3, files3 = Map.empty\<rparr>"

lemma example3_sel:
  "mem3 (example3 m src) = m" "frame_var_border (example3 m src) = 3"
  "pages3 (example3 m src) 0 = Some resident_page" "pages3 (example3 m src) (Suc 0) = Some (PAGE_init 2 0)"
  "pcbs3 (example3 m src) 0 = Some (example_pcb 1 0 [])" "pcbs3 (example3 m src) (Suc 0) = Some (example_pcb 2 1 src)"
  "index3 resident_page = [0, 1, 2]" "valid_bit resident_page = [1, 1, 1]"
  "page_table3 (example_pcb n pg src) = [pg]" "pid3 (example_pcb n pg src) = n" "source_file (example_pcb n pg src) = src"
  by (simp_all add: example3_def resident_page_def example_pcb_def)

lemma int_str_2: "int_str 2 = ''2''"
  by code_simp

lemma short_line: "text_line [c] \<longleftrightarrow> c \<noteq> newline \<and> c \<noteq> CHR 0x00"
  by (auto simp: text_line_def)

section \<open>Page faults\<close>

lemma load_frame_over_cleared:
  "f + 2 < length m \<Longrightarrow> load_frame pid_str f l0 l1 l2 (m[f := x, f + 1 := y, f + 2 := z]) = load_frame pid_str f l0 l1 l2 m"
  by (intro nth_equalityI) (auto simp: load_frame_def nth_list_update)

lemma frame_free_first: "frame_free b m j \<Longrightarrow> j < b \<and> mem_var (m ! j) = free_name"
  unfolding frame_free_def by (metis add_0_right add_lessD1 less_le_trans zero_less_numeral add_less_cancel_left)

lemma first_free_cleared:
  assumes "\<forall>k<b. mem_var (m ! k) \<noteq> free_name" "f + 3 \<le> b" "b \<le> length m"
  shows "first_free b (m[f := none_cell, f + 1 := none_cell, f + 2 := none_cell]) f"
proof -
  have "\<not> frame_free b (m[f := none_cell, f + 1 := none_cell, f + 2 := none_cell]) j" if "j < f" for j
  proof
    assume "frame_free b (m[f := none_cell, f + 1 := none_cell, f + 2 := none_cell]) j"
    from frame_free_first [OF this] that assms show False by (simp add: nth_list_update)
  qed
  moreover have "frame_free b (m[f := none_cell, f + 1 := none_cell, f + 2 := none_cell]) f"
    using assms(2,3) by (auto simp: frame_free_def nth_list_update none_cell_def less_Suc_eq numeral_3_eq_3)
  ultimately show ?thesis by (simp add: first_free_def)
qed

lemma frame_alloc_full:
  assumes "\<forall>k<b. mem_var (m ! k) \<noteq> free_name"
  shows "frame_alloc b pid_str ix vb m = (1, ix, vb, m)"
proof -
  have "first_from (\<lambda>i. frame_probe b m i 3 = i + 3) 0 b = None"
    using assms frame_free_first by (auto simp: first_from_None_iff frame_probe_iff)
  then show ?thesis by (simp add: frame_alloc_def)
qed



section \<open>Loading a page again\<close>

lemma first_free_var: "map mem_var m = map mem_var m' \<Longrightarrow> b \<le> length m \<Longrightarrow> first_free b m f = first_free b m' f"
proof -
  assume m: "map mem_var m = map mem_var m'" "b \<le> length m"
  then have "mem_var (m ! k) = mem_var (m' ! k)" if "k < b" for k using that nth_map [of k m mem_var] nth_map [of k m' mem_var] map_eq_imp_length_eq [OF m(1)] by simp
  then have "frame_free b m j = frame_free b m' j" for j by (auto simp: frame_free_def)
  then show ?thesis by (simp add: first_free_def)
qed

text \<open>
  A page that is evicted and loaded again does not get its lines back: the program is read as one stream, so the page holds the three lines
  that follow.
\<close>

theorem reloaded_page_has_other_lines:
  assumes "pcbs3 s pa = Some p" "i < length (page_table3 p)" "pages3 s (page_table3 p ! i) = Some q" "length (int_str (pid3 p)) < 10"
    "source_file p = three_lines l0 l1 l2 (three_lines l3 l4 l5 r)" "\<forall>l\<in>{l0, l1, l2, l3, l4, l5}. text_line l"
    "first_free (frame_var_border s) (mem3 s) f" "frame_var_border s \<le> length (mem3 s)"
  shows "\<exists>s1 s2 s3. load_PAGE pa i s = Some (0, s1) \<and> PAGE_evict pa i s1 = Some s2 \<and> load_PAGE pa i s2 = Some (0, s3) \<and>
    mem3 s1 = load_frame (int_str (pid3 p)) f l0 l1 l2 (mem3 s) \<and> mem3 s3 = load_frame (int_str (pid3 p)) f l3 l4 l5 (mem3 s)"
proof -
  let ?pg = "page_table3 p ! i" and ?p = "p\<lparr>source_file := three_lines l3 l4 l5 r\<rparr>"
  let ?q = "q\<lparr>index3 := [f, f + 1, f + 2], valid_bit := [1, 1, 1]\<rparr>"
  let ?m = "load_frame (int_str (pid3 p)) f l0 l1 l2 (mem3 s)"
  let ?s1 = "s\<lparr>mem3 := ?m, pages3 := (pages3 s)(?pg \<mapsto> ?q), pcbs3 := (pcbs3 s)(pa \<mapsto> ?p)\<rparr>"
  have f: "f + 2 < length (mem3 s)" "\<forall>k<3. mem_var (mem3 s ! (f + k)) = free_name"
    using assms(7,8) by (auto simp: first_free_def frame_free_def)
  have 1: "load_PAGE pa i s = Some (0, ?s1)" using assms by (intro load_PAGE_ok) auto
  let ?m2 = "?m[f := none_cell, f + 1 := none_cell, f + 2 := none_cell]"
  have "PAGE_evict pa i ?s1 = Some (?s1\<lparr>out3 := out3 ?s1 @ [''Page fault! Victim page contents:'' @ [newline], cell_value (mem3 ?s1) f,
        cell_value (mem3 ?s1) (f + 1), cell_value (mem3 ?s1) (f + 2), ''End of victim page contents.'' @ [newline]],
      mem3 := (mem3 ?s1)[f := none_cell, f + 1 := none_cell, f + 2 := none_cell],
      pages3 := (pages3 ?s1)(page_table3 ?p ! i \<mapsto> ?q\<lparr>index3 := [0, 0, 0], valid_bit := [0, 0, 0]\<rparr>)\<rparr>)" (is "_ = Some ?s2")
    using assms f by (intro PAGE_evict_ok) (auto simp: load_frame_def)
  moreover have "map mem_var ?m2 = map mem_var (mem3 s)"
    using f by (intro nth_equalityI) (auto simp: load_frame_def nth_list_update none_cell_def numeral_3_eq_3 less_Suc_eq all_conj_distrib)
  then have "first_free (frame_var_border s) ?m2 f"
    using assms(7,8) first_free_var [of ?m2 "mem3 s" "frame_var_border s" f] by (simp add: load_frame_def)
  then have "load_PAGE pa i ?s2 = Some (0, ?s2\<lparr>mem3 := load_frame (int_str (pid3 ?p)) f l3 l4 l5 (mem3 ?s2),
      pages3 := (pages3 ?s2)(page_table3 ?p ! i \<mapsto> (?q\<lparr>index3 := [0, 0, 0], valid_bit := [0, 0, 0]\<rparr>)\<lparr>index3 := [f, f + 1, f + 2], valid_bit := [1, 1, 1]\<rparr>),
      pcbs3 := (pcbs3 ?s2)(pa \<mapsto> ?p\<lparr>source_file := r\<rparr>)\<rparr>)"
    using assms by (intro load_PAGE_ok) (auto simp: load_frame_def)
  moreover have "load_frame (int_str (pid3 ?p)) f l3 l4 l5 (mem3 ?s2) = load_frame (int_str (pid3 p)) f l3 l4 l5 (mem3 s)"
    using f(1) load_frame_over_cleared [of f ?m] load_frame_over_cleared [of f "mem3 s"] by (simp add: load_frame_def)
  ultimately show ?thesis using 1 by auto
qed

theorem reloaded_page_has_other_lines_witness:
  "\<exists>s1 s2 s3. load_PAGE 1 0 (example3 (a3_mem_init 3 1) (three_lines ''u'' ''v'' ''w'' (three_lines ''x'' ''y'' ''z'' []))) = Some (0, s1) \<and>
     PAGE_evict 1 0 s1 = Some s2 \<and> load_PAGE 1 0 s2 = Some (0, s3) \<and>
     take 3 (mem3 s1) = map (line_cell ''2'') [''u'', ''v'', ''w''] \<and> take 3 (mem3 s3) = map (line_cell ''2'') [''x'', ''y'', ''z'']"
proof -
  have m: "a3_mem_init 3 (Suc 0) = [none_cell, none_cell, none_cell, none_cell]" by (simp add: a3_mem_init_def numeral_eq_Suc)
  have "first_free 3 (a3_mem_init 3 1) 0"
    by (auto simp: first_free_def frame_free_def a3_mem_init_def none_cell_def)
  then show ?thesis
    using reloaded_page_has_other_lines [of "example3 (a3_mem_init 3 1) (three_lines ''u'' ''v'' ''w'' (three_lines ''x'' ''y'' ''z'' []))" 1
        "example_pcb 2 1 (three_lines ''u'' ''v'' ''w'' (three_lines ''x'' ''y'' ''z'' []))" 0 "PAGE_init 2 0"
        "''u''" "''v''" "''w''" "''x''" "''y''" "''z''" "[]" 0]
    by (auto simp: example3_sel int_str_2 short_line newline_def load_frame_def m)
qed

end
