(* ===== verification/Frame_Store.thy ===== *)
theory Frame_Store
  imports Ready_Queue
begin

text \<open>
  Demand paging in the second program: pages (\<^verbatim>\<open>a2/page.c\<close>), the clock of the replacement policy
  (\<^verbatim>\<open>a2/lru.c\<close>), the frame store (\<^verbatim>\<open>a2/framestore.c\<close>) and process control blocks (\<^verbatim>\<open>a2/pcb.c\<close>). The state
  extends that of the ready queue. \<^verbatim>\<open>FRAMESTORE_LENGTH\<close> is the length of the list \<open>framestore\<close>; pages live in
  the frame store from start to end, so a \<^verbatim>\<open>Page *\<close> is an index into it. Files of the host are a map from
  paths to contents.

  The frame timestamps are C ints, and counting past the largest one is undefined
  (\<^term>\<open>None\<close>).
\<close>

section \<open>Pages\<close>

record Page =
  page_pid :: int
  page_number :: int
  page_lines :: "string list"
  available :: bool
  last_used :: int

definition none_line :: string where
  "none_line = ''none''"

definition init_page :: Page where
  "init_page = \<lparr>page_pid = -1, page_number = -1, page_lines = replicate 3 none_line, available = True, last_used = 0\<rparr>"

definition set_page :: "int \<Rightarrow> int \<Rightarrow> string list \<Rightarrow> int \<Rightarrow> Page \<Rightarrow> Page" where
  "set_page page_no p ls timestamp self =
     self\<lparr>page_pid := p, page_number := page_no, last_used := timestamp, page_lines := ls, available := False\<rparr>"

definition update_page_timestamp :: "int \<Rightarrow> Page \<Rightarrow> Page" where
  "update_page_timestamp timestamp self = self\<lparr>last_used := timestamp\<rparr>"

section \<open>State\<close>

record a2 = rq +
  framestore :: "Page list"
  timer :: int
  pid_counter :: int
  backing_store_path :: string
  files :: "string \<Rightarrow> string option"
  stdout :: "string list"

definition get_curr_time :: "'a a2_scheme \<Rightarrow> int" where
  "get_curr_time s = timer s"

definition increment_timer :: "'a a2_scheme \<Rightarrow> (int \<times> 'a a2_scheme) option" where
  "increment_timer s = do { t \<leftarrow> chk32 (timer s + 1); Some (timer s, s\<lparr>timer := t\<rparr>) }"

definition a2_printf :: "string \<Rightarrow> 'a a2_scheme \<Rightarrow> 'a a2_scheme" where
  "a2_printf str s = s\<lparr>stdout := stdout s @ [str]\<rparr>"

text \<open>Access to a frame through an \<^verbatim>\<open>int\<close> index.\<close>

definition frame_at :: "int \<Rightarrow> 'a a2_scheme \<Rightarrow> Page option" where
  "frame_at i s = (if 0 \<le> i \<and> nat i < length (framestore s) then Some (framestore s ! nat i) else None)"

definition upd_frame :: "int \<Rightarrow> (Page \<Rightarrow> Page) \<Rightarrow> 'a a2_scheme \<Rightarrow> 'a a2_scheme option" where
  "upd_frame i f s =
     (if 0 \<le> i \<and> nat i < length (framestore s)
      then Some (s\<lparr>framestore := (framestore s)[nat i := f (framestore s ! nat i)]\<rparr>) else None)"

section \<open>Frame store\<close>

definition framestore_init :: "nat \<Rightarrow> 'a a2_scheme \<Rightarrow> 'a a2_scheme" where
  "framestore_init n s = s\<lparr>framestore := replicate n init_page\<rparr>"

definition get_free_page_space :: "'a a2_scheme \<Rightarrow> int" where
  "get_free_page_space s =
     (case first_from (\<lambda>i. available (framestore s ! i)) 0 (length (framestore s)) of
        Some i \<Rightarrow> int i | None \<Rightarrow> -1)"

definition frame_line :: "nat \<Rightarrow> Page \<Rightarrow> string" where
  "frame_line i p = [newline] @ ''index '' @ nat_str i @ '': '' @ [CHR 0x09] @ '' page number: '' @ int_str (page_number p) @
     '' '' @ [CHR 0x09, CHR 0x09] @ '' pid: '' @ int_str (page_pid p) @ [CHR 0x09, CHR 0x09] @ ''is_availible: '' @
     (if available p then ''1'' else ''0'') @ [newline] @ '' '' @ [CHR 0x09, CHR 0x09] @ '' last used: '' @ int_str (last_used p)"

definition print_framestore :: "'a a2_scheme \<Rightarrow> 'a a2_scheme" where
  "print_framestore s =
     (let n = length (framestore s);
          used = filter (\<lambda>i. \<not> available (framestore s ! i)) [0..<n];
          count_empty = n - length used
      in fold a2_printf
           (map (\<lambda>i. frame_line i (framestore s ! i)) used @
            [[newline, CHR 0x09] @ nat_str n @ '' pages in total, '' @ nat_str (n - count_empty) @ '' pages in use, '' @
             nat_str count_empty @ '' pages free'' @ [newline, newline]]) s)"

text \<open>The loop that reads at most \<open>k\<close> lines of a page with \<^verbatim>\<open>fgets\<close>.\<close>

fun read_lines :: "nat \<Rightarrow> nat \<Rightarrow> string \<Rightarrow> string list \<times> string" where
  "read_lines bufsize 0 rest = ([], rest)"
| "read_lines bufsize (Suc k) rest =
     (case fgets bufsize rest of
        None \<Rightarrow> ([], rest)
      | Some (l, rest') \<Rightarrow> let (ls, r) = read_lines bufsize k rest' in (l # ls, r))"

definition pad_lines :: "string list \<Rightarrow> string list" where
  "pad_lines ls = ls @ replicate (3 - length ls) none_line"

text \<open>One round of the loop of \<^verbatim>\<open>load_file\<close>: read three lines and put them into the first free frame.\<close>

definition load_page :: "int \<Rightarrow> int \<Rightarrow> string \<Rightarrow> 'a a2_scheme \<Rightarrow> (string \<times> 'a a2_scheme) option" where
  "load_page page_num p rest s =
     (let (ls, rest') = read_lines 4096 3 rest
      in if ls = [] then Some (rest', s)
         else do { (t, s1) \<leftarrow> increment_timer s;
                   s2 \<leftarrow> upd_frame (get_free_page_space s) (set_page page_num p (pad_lines ls) t) s1;
                   Some (rest', s2) })"

definition backing_file :: "int \<Rightarrow> 'a a2_scheme \<Rightarrow> string" where
  "backing_file p s = backing_store_path s @ ''/'' @ int_str p"

text \<open>\<^verbatim>\<open>load_file\<close>: the stream is copied into the backing store and reopened there (the copy is assumed to
  succeed), then two pages are loaded. The result is 0 and the stream that is left.\<close>

definition load_file :: "string \<Rightarrow> int \<Rightarrow> 'a a2_scheme \<Rightarrow> (int \<times> string \<times> 'a a2_scheme) option" where
  "load_file fpp p s =
     do { let s0 = s\<lparr>files := (files s)(backing_file p s \<mapsto> fpp)\<rparr>;
          (rest1, s1) \<leftarrow> load_page 0 p fpp s0;
          (rest2, s2) \<leftarrow> load_page 1 p rest1 s1;
          Some (0, rest2, s2) }"

text \<open>
  \<^verbatim>\<open>load_multiple_files\<close> copies and reopens the stream before each page. In the second round the stream
  already reads from the backing file that the copy truncates, so what is copied is what the
  first round left in the buffer of the stream (4096 bytes): all of the rest if the file fits into the
  buffer; for longer files the result depends on the C library and is left open. A null stream is
  undefined behaviour. \<open>streams\<close> are the open streams with their process ids (-1 where there is none).
\<close>

definition load_one_page ::
    "int \<Rightarrow> string option \<times> int \<Rightarrow> 'a a2_scheme \<Rightarrow> (string option \<times> 'a a2_scheme) option" where
  "load_one_page page_num fpid s =
     (case fpid of (fpp, p) \<Rightarrow>
        if p = -1 then Some (fpp, s)
        else do { rest \<leftarrow> fpp;
                  if page_num > 0 \<and> length rest > 4096 then None
                  else do { let s0 = s\<lparr>files := (files s)(backing_file p s \<mapsto> rest)\<rparr>;
                            let (ls, rest') = read_lines 4096 3 rest;
                            if ls = [] then Some (Some rest', s0)
                            else do { s1 \<leftarrow> upd_frame (get_free_page_space s0)
                                              (set_page page_num p (pad_lines ls) (get_curr_time s0)) s0;
                                      Some (Some rest', s1) } } })"

primrec load_round ::
    "int \<Rightarrow> (string option \<times> int) list \<Rightarrow> 'a a2_scheme \<Rightarrow> ((string option \<times> int) list \<times> 'a a2_scheme) option" where
  "load_round page_num [] s = Some ([], s)"
| "load_round page_num (x # xs) s =
     do { (fpp, s1) \<leftarrow> load_one_page page_num x s;
          (ys, s2) \<leftarrow> load_round page_num xs s1;
          Some ((fpp, snd x) # ys, s2) }"

definition load_multiple_files ::
    "(string option \<times> int) list \<Rightarrow> 'a a2_scheme \<Rightarrow> (int \<times> (string option \<times> int) list \<times> 'a a2_scheme) option" where
  "load_multiple_files streams s =
     do { (st1, s1) \<leftarrow> load_round 0 streams s;
          (_, s2) \<leftarrow> increment_timer s1;
          (st2, s3) \<leftarrow> load_round 1 st1 s2;
          (_, s4) \<leftarrow> increment_timer s3;
          Some (0, st2, s4) }"

definition get_num_pages :: "int \<Rightarrow> 'a a2_scheme \<Rightarrow> int" where
  "get_num_pages p s = int (length (filter (\<lambda>pg. page_pid pg = p) (framestore s)))"

definition get_max_page :: "int \<Rightarrow> 'a a2_scheme \<Rightarrow> int" where
  "get_max_page p s =
     foldl (\<lambda>m pg. if page_pid pg = p \<and> page_number pg > m then page_number pg else m) (-1) (framestore s)"

text \<open>The table that \<^verbatim>\<open>get_page_table\<close> fills, and the number of entries it allocates for it.\<close>

definition get_page_table :: "int \<Rightarrow> 'a a2_scheme \<Rightarrow> int \<Rightarrow> int option" where
  "get_page_table p s =
     foldl (\<lambda>table i. if page_pid (framestore s ! i) = p
                      then table(page_number (framestore s ! i) \<mapsto> int i) else table)
       Map.empty [0..<length (framestore s)]"

definition page_table_alloc :: "int \<Rightarrow> 'a a2_scheme \<Rightarrow> int" where
  "page_table_alloc p s = get_max_page p s"

definition get_line :: "int \<Rightarrow> int \<Rightarrow> 'a a2_scheme \<Rightarrow> (string \<times> 'a a2_scheme) option" where
  "get_line page_index line_index s =
     do { (t, s1) \<leftarrow> increment_timer s;
          s2 \<leftarrow> upd_frame page_index (last_used_update (\<lambda>_. t)) s1;
          pg \<leftarrow> frame_at page_index s2;
          if 0 \<le> line_index \<and> nat line_index < length (page_lines pg)
          then Some (page_lines pg ! nat line_index, s2) else None }"

definition free_process_pages :: "int \<Rightarrow> 'a a2_scheme \<Rightarrow> 'a a2_scheme" where
  "free_process_pages p s =
     s\<lparr>framestore := map (\<lambda>pg. if page_pid pg = p then pg\<lparr>available := True\<rparr> else pg) (framestore s)\<rparr>"

definition clear_framestore :: "'a a2_scheme \<Rightarrow> 'a a2_scheme" where
  "clear_framestore s = s\<lparr>framestore := map (\<lambda>_. init_page) (framestore s)\<rparr>"

text \<open>The loop of \<^verbatim>\<open>get_victim_page_index\<close>; \<open>index\<close> is not initialised, so the result is undefined when no
  page is taken.\<close>

fun victim_loop :: "Page list \<Rightarrow> nat \<Rightarrow> nat option \<times> int \<Rightarrow> nat option \<times> int" where
  "victim_loop [] i acc = acc"
| "victim_loop (pg # pgs) i (index, least) =
     victim_loop pgs (i + 1)
       (if \<not> available pg \<and> last_used pg < least then (Some i, last_used pg) else (index, least))"

definition get_victim_page_index :: "'a a2_scheme \<Rightarrow> int option" where
  "get_victim_page_index s = map_option int (fst (victim_loop (framestore s) 0 (None, MAX_INT)))"

definition evict_page :: "int \<Rightarrow> 'a a2_scheme \<Rightarrow> (int \<times> 'a a2_scheme) option" where
  "evict_page index s =
     do { pg \<leftarrow> frame_at index s;
          s1 \<leftarrow> upd_frame index (available_update (\<lambda>_. True)) s;
          let s2 = a2_printf (''Page fault! Victim page contents:'' @ [newline]) s1;
          let s3 = fold a2_printf (takeWhile (\<lambda>l. l \<noteq> none_line) (page_lines pg)) s2;
          Some (index, a2_printf (''End of victim page contents.'' @ [newline]) s3) }"

section \<open>Process control blocks\<close>

definition generatePID :: "'a a2_scheme \<Rightarrow> (int \<times> 'a a2_scheme) option" where
  "generatePID s = do { c \<leftarrow> chk32 (pid_counter s + 1); Some (pid_counter s, s\<lparr>pid_counter := c\<rparr>) }"

definition makePCB :: "int \<Rightarrow> (int \<Rightarrow> int option) \<Rightarrow> int \<Rightarrow> string option \<Rightarrow> PCB" where
  "makePCB p table n f = \<lparr>priority = False, pid = p, curr_page = 0, curr_line = 0, pagetable = table, num_pages = n,
                          job_length_score = 0, fp = f\<rparr>"

text \<open>\<^verbatim>\<open>fetch_a_page\<close> on the process at the node \<open>node\<close>.\<close>

definition fetch_a_page :: "nat \<Rightarrow> 'a a2_scheme \<Rightarrow> (bool \<times> 'a a2_scheme) option" where
  "fetch_a_page node s =
     do { self \<leftarrow> get_pcb node s;
          stream \<leftarrow> fp self;
          let (ls, rest) = read_lines 1024 3 stream;
          s1 \<leftarrow> upd_pcb node (fp_update (\<lambda>_. Some rest)) s;
          if ls = [] then Some (False, s1)
          else do {
            (free_space_index, s2) \<leftarrow>
              (if get_free_page_space s1 = -1
               then do { victim_index \<leftarrow> get_victim_page_index s1;
                         (i, s') \<leftarrow> evict_page victim_index s1;
                         s'' \<leftarrow> upd_pcb node (pagetable_update (\<lambda>tab. tab(victim_index \<mapsto> -1))) s';
                         Some (i, s'') }
               else Some (get_free_page_space s1, s1));
            (t, s3) \<leftarrow> increment_timer s2;
            s4 \<leftarrow> upd_frame free_space_index (set_page (curr_page self) (pid self) (pad_lines ls) t) s3;
            s5 \<leftarrow> upd_pcb node (\<lambda>b. b\<lparr>pagetable := (pagetable b)(num_pages b \<mapsto> free_space_index),
                                     num_pages := num_pages b + 1\<rparr>) s4;
            Some (True, s5) } }"

section \<open>The replacement policy\<close>

text \<open>What the loop has found after the pages \<open>pgs\<close>, numbered from \<open>i\<close>: nothing better than it started
  with, or the page at \<open>i + k\<close>.\<close>

definition found_at :: "Page list \<Rightarrow> int \<Rightarrow> nat \<Rightarrow> int \<Rightarrow> bool" where
  "found_at pgs least k least' \<longleftrightarrow> k < length pgs \<and> \<not> available (pgs ! k) \<and> least' = last_used (pgs ! k) \<and> least' < least \<and>
     (\<forall>j<k. \<not> available (pgs ! j) \<longrightarrow> least' < last_used (pgs ! j))"

lemma found_at_Suc:
  "found_at pgs least k least' \<Longrightarrow> (\<not> available pg \<Longrightarrow> least' < last_used pg) \<Longrightarrow> found_at (pg # pgs) least (Suc k) least'"
  unfolding found_at_def by (auto simp: nth_Cons split: nat.splits)

lemma found_at_mono: "found_at pgs least k least' \<Longrightarrow> least \<le> m \<Longrightarrow> found_at pgs m k least'"
  unfolding found_at_def by auto

lemma victim_loop_spec:
  "victim_loop pgs i (idx, least) = (idx', least') \<Longrightarrow>
   least' \<le> least \<and> (\<forall>pg\<in>set pgs. \<not> available pg \<longrightarrow> least' \<le> last_used pg) \<and>
   ((idx' = idx \<and> least' = least) \<or> (\<exists>k. idx' = Some (i + k) \<and> found_at pgs least k least'))"
proof (induction pgs arbitrary: i idx least)
  case (Cons pg pgs)
  show ?case
  proof (cases "\<not> available pg \<and> last_used pg < least")
    case True
    with Cons.prems have "victim_loop pgs (i + 1) (Some i, last_used pg) = (idx', least')" by simp
    note IH = Cons.IH [OF this]
    have "\<exists>k. idx' = Some (i + k) \<and> found_at (pg # pgs) least k least'"
    proof (cases "idx' = Some i \<and> least' = last_used pg")
      case True': True
      with True show ?thesis by (intro exI [of _ 0]) (simp add: found_at_def)
    next
      case False
      with IH obtain k where k: "idx' = Some (i + 1 + k)" "found_at pgs (last_used pg) k least'" by auto
      have "found_at (pg # pgs) (last_used pg) (Suc k) least'"
        by (rule found_at_Suc [OF k(2)]) (use k(2) in \<open>simp add: found_at_def\<close>)
      with k True show ?thesis by (intro exI [of _ "Suc k"]) (auto intro: found_at_mono)
    qed
    with IH True show ?thesis by auto
  next
    case False
    with Cons.prems have "victim_loop pgs (i + 1) (idx, least) = (idx', least')" by simp
    note IH = Cons.IH [OF this]
    show ?thesis
    proof (cases "idx' = idx \<and> least' = least")
      case True
      with IH False show ?thesis by auto
    next
      case False': False
      with IH obtain k where k: "idx' = Some (i + 1 + k)" "found_at pgs least k least'" by auto
      have "found_at (pg # pgs) least (Suc k) least'"
        by (rule found_at_Suc [OF k(2)]) (use k(2) False in \<open>auto simp: found_at_def\<close>)
      with k have "\<exists>k. idx' = Some (i + k) \<and> found_at (pg # pgs) least k least'" by (intro exI [of _ "Suc k"]) auto
      with IH False show ?thesis by auto
    qed
  qed
qed simp

lemma victim_spec:
  assumes "pg \<in> set (framestore s)" "\<not> available pg" "last_used pg < MAX_INT"
  shows "\<exists>i<length (framestore s). get_victim_page_index s = Some (int i) \<and> \<not> available (framestore s ! i) \<and>
     (\<forall>j<length (framestore s). \<not> available (framestore s ! j) \<longrightarrow>
        last_used (framestore s ! i) \<le> last_used (framestore s ! j) \<and>
        (j < i \<longrightarrow> last_used (framestore s ! i) < last_used (framestore s ! j)))"
proof -
  obtain idx least where v: "victim_loop (framestore s) 0 (None, MAX_INT) = (idx, least)" by fastforce
  note sp = victim_loop_spec [OF v]
  from sp assms have "least < MAX_INT" by fastforce
  with sp obtain k where "idx = Some k" "found_at (framestore s) MAX_INT k least" by auto
  then have k: "k < length (framestore s)" "idx = Some k" "least = last_used (framestore s ! k)"
    "\<not> available (framestore s ! k)" "\<forall>j<k. \<not> available (framestore s ! j) \<longrightarrow> least < last_used (framestore s ! j)"
    unfolding found_at_def by blast+
  have "\<forall>j<length (framestore s). \<not> available (framestore s ! j) \<longrightarrow> least \<le> last_used (framestore s ! j)"
    using sp nth_mem by blast
  with k v show ?thesis by (intro exI [of _ k]) (auto simp: get_victim_page_index_def)
qed

section \<open>Page tables\<close>

definition page_of :: "int \<Rightarrow> int \<Rightarrow> Page \<Rightarrow> bool" where
  "page_of p k pg \<longleftrightarrow> page_pid pg = p \<and> page_number pg = k"

definition table_upto :: "int \<Rightarrow> Page list \<Rightarrow> nat \<Rightarrow> int \<Rightarrow> int option" where
  "table_upto p fs n =
     foldl (\<lambda>table i. if page_pid (fs ! i) = p then table(page_number (fs ! i) \<mapsto> int i) else table) Map.empty [0..<n]"

lemma table_upto_Suc:
  "table_upto p fs (Suc n) k = (if page_of p k (fs ! n) then Some (int n) else table_upto p fs n k)"
  by (simp add: table_upto_def page_of_def)

lemma table_upto_none: "(\<And>j. j < n \<Longrightarrow> \<not> page_of p k (fs ! j)) \<Longrightarrow> table_upto p fs n k = None"
proof (induction n)
  case 0
  then show ?case by (simp add: table_upto_def)
qed (simp add: table_upto_Suc)

lemma table_upto_unique:
  "i < n \<Longrightarrow> page_of p k (fs ! i) \<Longrightarrow> (\<And>j. j < n \<Longrightarrow> page_of p k (fs ! j) \<Longrightarrow> j = i) \<Longrightarrow>
   table_upto p fs n k = Some (int i)"
proof (induction n)
  case (Suc n)
  show ?case
  proof (cases "i = n")
    case False
    with Suc.prems(1) have "i < n" by simp
    moreover have "\<not> page_of p k (fs ! n)" using Suc.prems(3) [of n] False by auto
    moreover have "table_upto p fs n k = Some (int i)"
      by (rule Suc.IH [OF \<open>i < n\<close> Suc.prems(2)]) (use Suc.prems(3) less_SucI in blast)
    ultimately show ?thesis by (simp add: table_upto_Suc)
  qed (use Suc.prems(2) in \<open>simp add: table_upto_Suc\<close>)
qed simp

lemma get_page_table_upto: "get_page_table p s = table_upto p (framestore s) (length (framestore s))"
  by (simp add: get_page_table_def table_upto_def)

lemmas page_table_unique =
  table_upto_unique [of _ "length (framestore s)" _ _ "framestore s" for s, folded get_page_table_upto]

lemmas page_table_none =
  table_upto_none [of "length (framestore s)" _ _ "framestore s" for s, folded get_page_table_upto]

lemma max_page_foldl_ge:
  "(a :: int) \<le> foldl (\<lambda>m pg. if page_pid pg = p \<and> page_number pg > m then page_number pg else m) a pgs \<and>
   (\<forall>pg\<in>set pgs. page_pid pg = p \<longrightarrow>
      page_number pg \<le> foldl (\<lambda>m pg. if page_pid pg = p \<and> page_number pg > m then page_number pg else m) a pgs)"
proof (induction pgs arbitrary: a)
  case (Cons pg pgs)
  let ?b = "if page_pid pg = p \<and> page_number pg > a then page_number pg else a"
  from Cons [of ?b] show ?case by (auto split: if_splits)
qed simp

lemma max_page_foldl_mem:
  "foldl (\<lambda>m pg. if page_pid pg = p \<and> page_number pg > m then page_number pg else m) (a :: int) pgs = a \<or>
   (\<exists>pg\<in>set pgs. page_pid pg = p \<and>
      page_number pg = foldl (\<lambda>m pg. if page_pid pg = p \<and> page_number pg > m then page_number pg else m) a pgs)"
proof (induction pgs arbitrary: a)
  case (Cons pg pgs)
  let ?b = "if page_pid pg = p \<and> page_number pg > a then page_number pg else a"
  from Cons [of ?b] show ?case by (auto split: if_splits)
qed simp

lemma get_max_page_mem:
  assumes "pg \<in> set (framestore s)" "page_pid pg = p" "0 \<le> page_number pg"
  shows "0 \<le> get_max_page p s" "\<exists>i<length (framestore s). page_of p (get_max_page p s) (framestore s ! i)"
proof -
  show ge: "0 \<le> get_max_page p s"
    using max_page_foldl_ge [where a = "-1" and p = p and pgs = "framestore s"] assms
    unfolding get_max_page_def by force
  then show "\<exists>i<length (framestore s). page_of p (get_max_page p s) (framestore s ! i)"
    using max_page_foldl_mem [where a = "-1" and p = p and pgs = "framestore s", folded get_max_page_def]
    by (auto simp: in_set_conv_nth page_of_def)
qed

section \<open>Loading pages\<close>

lemma free_page_space_iff:
  "get_free_page_space s = -1 \<longleftrightarrow> (\<forall>i<length (framestore s). \<not> available (framestore s ! i))"
proof (cases "first_from (\<lambda>i. available (framestore s ! i)) 0 (length (framestore s))")
  case None
  then have "\<forall>i<length (framestore s). \<not> available (framestore s ! i)" by (simp add: first_from_None_iff)
  with None show ?thesis by (simp add: get_free_page_space_def)
next
  case (Some i)
  from first_from_SomeD [OF this] Some show ?thesis by (auto simp: get_free_page_space_def)
qed

lemma free_page_space_SomeD:
  assumes "get_free_page_space s \<noteq> -1"
  obtains i where "get_free_page_space s = int i" "i < length (framestore s)" "available (framestore s ! i)"
proof -
  from assms obtain i where i: "first_from (\<lambda>i. available (framestore s ! i)) 0 (length (framestore s)) = Some i"
    "get_free_page_space s = int i"
    by (auto simp: get_free_page_space_def split: option.splits)
  from first_from_SomeD [OF i(1)] i(2) that show ?thesis by auto
qed

lemma upd_frame_int:
  "i < length (framestore s) \<Longrightarrow>
   upd_frame (int i) f s = Some (s\<lparr>framestore := (framestore s)[i := f (framestore s ! i)]\<rparr>)"
  by (simp add: upd_frame_def)

lemma length_pad_lines: "length ls \<le> 3 \<Longrightarrow> length (pad_lines ls) = 3"
  by (simp add: pad_lines_def)

lemma length_read_lines: "read_lines n k rest = (ls, r) \<Longrightarrow> length ls \<le> k"
  by (induction n k rest arbitrary: ls r rule: read_lines.induct) (auto split: option.splits prod.splits)

text \<open>What \<^verbatim>\<open>load_file\<close> leaves of one page: the lines are in a frame that was free, the other frames are
  untouched.\<close>

lemma load_page_spec:
  assumes "read_lines 4096 3 rest = (ls, rest')" "ls \<noteq> []" "get_free_page_space s \<noteq> -1" "int32 (timer s + 1)"
  shows "\<exists>i. i < length (framestore s) \<and> available (framestore s ! i) \<and>
     load_page pn p rest s = Some (rest', s\<lparr>timer := timer s + 1,
       framestore := (framestore s)[i := set_page pn p (pad_lines ls) (timer s) (framestore s ! i)]\<rparr>)"
proof -
  from assms(3) obtain i where i: "get_free_page_space s = int i" "i < length (framestore s)" "available (framestore s ! i)"
    by (rule free_page_space_SomeD)
  have "load_page pn p rest s = Some (rest', s\<lparr>timer := timer s + 1,
       framestore := (framestore s)[i := set_page pn p (pad_lines ls) (timer s) (framestore s ! i)]\<rparr>)"
    using assms(1,2,4) i by (simp add: load_page_def increment_timer_def upd_frame_int)
  with i show ?thesis by blast
qed

definition free_frames :: "'a a2_scheme \<Rightarrow> nat" where
  "free_frames s = length (filter available (framestore s))"

lemma free_frames_pos: "0 < free_frames s \<Longrightarrow> get_free_page_space s \<noteq> -1"
  by (auto simp: free_frames_def free_page_space_iff filter_empty_conv in_set_conv_nth)

lemma filter_update_length:
  "i < length xs \<Longrightarrow> P (xs ! i) \<Longrightarrow> \<not> P y \<Longrightarrow> Suc (length (filter P (xs[i := y]))) = length (filter P xs)"
proof (induction xs arbitrary: i)
  case (Cons x xs)
  then show ?case by (cases i) auto
qed simp

section \<open>Properties\<close>

text \<open>
  C17. Page replacement is least recently used: whenever some frame is taken,
  \<^verbatim>\<open>get_victim_page_index\<close> returns the taken frame with the smallest timestamp, the first one among
  equals.
\<close>

theorem victim_is_least_recently_used:
  assumes "k < length (framestore s)" "\<not> available (framestore s ! k)" "last_used (framestore s ! k) < MAX_INT"
  shows "\<exists>i<length (framestore s). get_victim_page_index s = Some (int i) \<and> \<not> available (framestore s ! i) \<and>
     (\<forall>j<length (framestore s). \<not> available (framestore s ! j) \<longrightarrow>
        last_used (framestore s ! i) \<le> last_used (framestore s ! j) \<and>
        (j < i \<longrightarrow> last_used (framestore s ! i) < last_used (framestore s ! j)))"
  by (rule victim_spec [of "framestore s ! k"]) (use assms in auto)

definition taken :: "int \<Rightarrow> int \<Rightarrow> int \<Rightarrow> Page" where
  "taken p n t = \<lparr>page_pid = p, page_number = n, page_lines = [''a'', ''b'', ''c''], available = False, last_used = t\<rparr>"

text \<open>A kernel with two processes, number 2 at node 7 with one line left to load, and number 1 at node 8
  whose pages are in the frames 0 and 1.\<close>

definition example_store :: "Page list \<Rightarrow> a2" where
  "example_store fs = \<lparr>nodes = [7 \<mapsto> \<lparr>pcb = makePCB 2 Map.empty 0 (Some ''x''), next = None\<rparr>,
       8 \<mapsto> \<lparr>pcb = makePCB 1 [0 \<mapsto> 0, 1 \<mapsto> 1] 2 (Some []), next = None\<rparr>], head = None,
     framestore = fs, timer = 10, pid_counter = 3, backing_store_path = ''b'', files = Map.empty, stdout = []\<rparr>"

theorem victim_is_least_recently_used_witness:
  "\<exists>i<3. get_victim_page_index (example_store [taken 1 0 5, taken 1 1 3, taken 2 0 4]) = Some (int i) \<and>
         last_used ([taken 1 0 5, taken 1 1 3, taken 2 0 4] ! i) \<le> 3"
proof -
  let ?fs = "[taken 1 0 5, taken 1 1 3, taken 2 0 4]"
  have fs: "framestore (example_store ?fs) = ?fs" by (simp add: example_store_def)
  have "1 < length ?fs" "\<not> available (?fs ! 1)" "last_used (?fs ! 1) < MAX_INT"
    by (simp_all add: taken_def MAX_INT_def)
  from victim_is_least_recently_used [of 1 "example_store ?fs", unfolded fs, OF this] obtain i where
    "i < length ?fs" "get_victim_page_index (example_store ?fs) = Some (int i)" "last_used (?fs ! i) \<le> last_used (?fs ! 1)"
    by (auto simp: taken_def)
  then show ?thesis by (intro exI [of _ i]) (simp add: taken_def)
qed



text \<open>
  \<^verbatim>\<open>get_page_table\<close> allocates one entry too few: for every process that has a page, it stores an entry
  at an index that is not below the number of entries it allocated.
\<close>

theorem page_table_overflows:
  assumes "pg \<in> set (framestore s)" "page_pid pg = p" "0 \<le> page_number pg"
  shows "\<exists>k i. get_page_table p s k = Some i \<and> k \<ge> page_table_alloc p s \<and> 0 \<le> k"
proof -
  note mem = get_max_page_mem [OF assms]
  then obtain i where i: "i < length (framestore s)" "page_of p (get_max_page p s) (framestore s ! i)" by blast
  have "table_upto p (framestore s) n (get_max_page p s) \<noteq> None" if "i < n" for n
    using that
  proof (induction n)
    case (Suc n)
    then show ?case using i(2) by (auto simp: table_upto_Suc less_Suc_eq)
  qed simp
  with i(1) have "get_page_table p s (get_max_page p s) \<noteq> None" by (simp add: get_page_table_upto)
  with mem(1) show ?thesis by (auto simp: page_table_alloc_def)
qed

theorem page_table_overflows_witness:
  "\<exists>k i. get_page_table 1 (example_store [taken 1 0 5, taken 1 1 6]) k = Some i \<and>
         k \<ge> page_table_alloc 1 (example_store [taken 1 0 5, taken 1 1 6])"
  using page_table_overflows [of "taken 1 0 5" "example_store [taken 1 0 5, taken 1 1 6]" 1]
  by (auto simp: example_store_def taken_def)

lemma fetch_with_eviction:
  assumes "get_pcb node s = Some b" "fp b = Some src" "read_lines 1024 3 src = (ls, rest)" "ls \<noteq> []"
    and "get_free_page_space s = -1" "get_victim_page_index s = Some (int v)" "v < length (framestore s)"
    and "int32 (timer s + 1)"
  shows "\<exists>s'. fetch_a_page node s = Some (True, s') \<and>
     framestore s' = (framestore s)[v := set_page (curr_page b) (pid b) (pad_lines ls) (timer s)
                                            ((framestore s ! v)\<lparr>available := True\<rparr>)] \<and>
     (\<forall>a. a \<noteq> node \<longrightarrow> get_pcb a s' = get_pcb a s) \<and>
     get_pcb node s' = Some (b\<lparr>fp := Some rest, num_pages := num_pages b + 1,
                              pagetable := (pagetable b)(int v \<mapsto> -1, num_pages b \<mapsto> int v)\<rparr>)"
proof -
  obtain nd where nd: "nodes s node = Some nd" "pcb nd = b" using assms(1) by (auto simp: get_pcb_def)
  let ?s1 = "s\<lparr>nodes := (nodes s)(node \<mapsto> nd\<lparr>pcb := b\<lparr>fp := Some rest\<rparr>\<rparr>)\<rparr>"
  have "get_free_page_space ?s1 = -1" "get_victim_page_index ?s1 = Some (int v)"
    using assms(5,6) by (simp_all add: get_free_page_space_def get_victim_page_index_def)
  moreover have out: "fold a2_printf xs t = t\<lparr>stdout := stdout t @ xs\<rparr>" for xs and t :: "'a a2_scheme"
    by (induction xs arbitrary: t) (simp_all add: a2_printf_def)
  ultimately show ?thesis
    using assms nd by (simp add: fetch_a_page_def upd_pcb_def get_pcb_def evict_page_def frame_at_def upd_frame_def
        increment_timer_def out a2_printf_def Let_def)
qed

text \<open>
  When all frames are taken, \<^verbatim>\<open>fetch_a_page\<close> gives the frame of the least recently used page to the new
  page but leaves the page table of the process that owned it unchanged: that process still maps its
  page to the frame, which now holds the lines of another process.
\<close>

theorem evicted_page_stays_mapped:
  assumes "get_pcb node s = Some b" "fp b = Some src" "read_lines 1024 3 src = (ls, rest)" "ls \<noteq> []"
    and "get_free_page_space s = -1" "get_victim_page_index s = Some (int v)" "v < length (framestore s)"
    and "int32 (timer s + 1)"
    and "owner \<noteq> node" "get_pcb owner s = Some ob" "pagetable ob k = Some (int v)"
  shows "\<exists>s'. fetch_a_page node s = Some (True, s') \<and> get_pcb owner s' = Some ob \<and>
     pagetable ob k = Some (int v) \<and> page_pid (framestore s' ! v) = pid b \<and> page_lines (framestore s' ! v) = pad_lines ls"
  using fetch_with_eviction [OF assms(1-8)] assms(7,9-11) by (fastforce simp: set_page_def)

theorem evicted_page_stays_mapped_witness:
  "\<exists>s'. fetch_a_page 7 (example_store [taken 1 0 5, taken 1 1 3]) = Some (True, s') \<and>
     map_option (\<lambda>b. pagetable b 1) (get_pcb 8 s') = Some (Some 1) \<and>
     page_pid (framestore s' ! 1) = 2 \<and> page_lines (framestore s' ! 1) = [''x'', ''none'', ''none'']"
proof -
  let ?s = "example_store [taken 1 0 5, taken 1 1 3]"
  have "read_lines 1024 3 ''x'' = ([''x''], [])"
    by (simp add: numeral_3_eq_3 fgets_def newline_def c_string_def numeral_eq_Suc)
  moreover have "get_pcb 7 ?s = Some (makePCB 2 Map.empty 0 (Some ''x''))" "int32 (timer ?s + 1)"
    "get_pcb 8 ?s = Some (makePCB 1 [0 \<mapsto> 0, 1 \<mapsto> 1] 2 (Some []))" "get_free_page_space ?s = -1"
    "get_victim_page_index ?s = Some (int 1)" "1 < length (framestore ?s)"
    by (simp_all add: example_store_def get_pcb_def int32_def get_free_page_space_def taken_def
        get_victim_page_index_def MAX_INT_def)
  moreover have "pad_lines [''x''] = [''x'', ''none'', ''none'']"
    by (simp add: pad_lines_def none_line_def numeral_2_eq_2)
  ultimately show ?thesis
    using evicted_page_stays_mapped [of 7 ?s "makePCB 2 Map.empty 0 (Some ''x'')" "''x''" "[''x'']" "[]" 1 8
        "makePCB 1 [0 \<mapsto> 0, 1 \<mapsto> 1] 2 (Some [])" 1]
    by (auto simp: makePCB_def)
qed

end
