(* ===== verification/Scheduler.thy ===== *)
theory Scheduler
  imports Frame_Store Shell_Memory
begin

text \<open>
  The kernel of the second program (\<^verbatim>\<open>a2/kernel.c\<close>): creation of processes, execution of a process for a
  number of lines, and the scheduling policies. The interpreter that executes a line is the argument
  \<open>parse\<close>; it returns the state in which the program has called \<^verbatim>\<open>exit\<close> (\<^term>\<open>Inl\<close>), or a
  result code and the new state (\<^term>\<open>Inr\<close>). The theory of the interpreter closes the circle. New
  nodes get the address \<open>next_addr\<close>.

  The schedulers are shown to execute every line of every resident program exactly once, in the
  order their policy promises.
\<close>

section \<open>State\<close>

record k2 = a2 +
  active :: bool
  in_background :: bool
  varmemory :: shellmem
  next_addr :: nat

type_synonym 'a parser = "string \<Rightarrow> 'a k2_scheme \<Rightarrow> ('a k2_scheme + int \<times> 'a k2_scheme) option"

text \<open>Error codes of \<^verbatim>\<open>a2/interpreter.h\<close>.\<close>

definition FILE_DOES_NOT_EXIST :: int where "FILE_DOES_NOT_EXIST = 1"

definition FILE_ERROR :: int where "FILE_ERROR = 2"

definition SCHEDULING_ERROR :: int where "SCHEDULING_ERROR = 5"

section \<open>Processes\<close>

definition malloc_node :: "PCB \<Rightarrow> 'a k2_scheme \<Rightarrow> nat \<times> 'a k2_scheme" where
  "malloc_node b s =
     (next_addr s, s\<lparr>nodes := (nodes s)(next_addr s \<mapsto> \<lparr>pcb = b, next = None\<rparr>), next_addr := Suc (next_addr s)\<rparr>)"

definition process_initialize :: "string \<Rightarrow> 'a k2_scheme \<Rightarrow> (int \<times> 'a k2_scheme) option" where
  "process_initialize filename s =
     (case files s filename of
        None \<Rightarrow> Some (FILE_DOES_NOT_EXIST, s)
      | Some src \<Rightarrow>
          do { (p, s1) \<leftarrow> generatePID s;
               (error_code, rest, s2) \<leftarrow> load_file src p s1;
               if error_code \<noteq> 0 then Some (FILE_ERROR, s2)
               else do { let (node, s3) = malloc_node (makePCB p (get_page_table p s2) (get_num_pages p s2) (Some rest)) s2;
                         s4 \<leftarrow> ready_queue_add_to_tail node s3;
                         Some (0, s4) } })"

text \<open>Opening the streams of \<^verbatim>\<open>initialize_multiple_process\<close>: for each file name given, the stream (a null pointer
  when the file does not exist) and a process id; -1 where no name is given.\<close>

primrec open_streams ::
    "string option list \<Rightarrow> 'a k2_scheme \<Rightarrow> ((string option \<times> int) list \<times> 'a k2_scheme) option" where
  "open_streams [] s = Some ([], s)"
| "open_streams (f # fs) s =
     (case f of
        None \<Rightarrow> do { (xs, s1) \<leftarrow> open_streams fs s; Some ((None, -1) # xs, s1) }
      | Some filename \<Rightarrow>
          do { (p, s1) \<leftarrow> generatePID s;
               (xs, s2) \<leftarrow> open_streams fs s1;
               Some ((files s filename, p) # xs, s2) })"

primrec enqueue_processes :: "(string option \<times> int) list \<Rightarrow> 'a k2_scheme \<Rightarrow> 'a k2_scheme option" where
  "enqueue_processes [] s = Some s"
| "enqueue_processes (x # xs) s =
     (if snd x = -1 then enqueue_processes xs s
      else do { let (node, s1) = malloc_node (makePCB (snd x) (get_page_table (snd x) s) (get_num_pages (snd x) s) (fst x)) s;
                s2 \<leftarrow> ready_queue_add_to_tail node s1;
                enqueue_processes xs s2 })"

definition initialize_multiple_process :: "string option list \<Rightarrow> 'a k2_scheme \<Rightarrow> (int \<times> 'a k2_scheme) option" where
  "initialize_multiple_process filenames s =
     do { (streams, s1) \<leftarrow> open_streams filenames s;
          (error_code, streams', s2) \<leftarrow> load_multiple_files streams s1;
          if error_code \<noteq> 0 then Some (FILE_ERROR, s2)
          else do { s3 \<leftarrow> enqueue_processes streams' s2; Some (0, s3) } }"

section \<open>Execution\<close>

definition advance :: "PCB \<Rightarrow> PCB" where
  "advance b = (if curr_line b = 2 then b\<lparr>curr_line := 0, curr_page := curr_page b + 1\<rparr>
                else b\<lparr>curr_line := curr_line b + 1\<rparr>)"

text \<open>The loop of \<^verbatim>\<open>execute_process\<close>, with the number of rounds left.\<close>

primrec execute_process ::
    "'a parser \<Rightarrow> nat \<Rightarrow> nat \<Rightarrow> 'a k2_scheme \<Rightarrow> ('a k2_scheme + bool \<times> 'a k2_scheme) option" where
  "execute_process parse node 0 s = Some (Inr (False, s))"
| "execute_process parse node (Suc k) s =
     do { b \<leftarrow> get_pcb node s;
          if curr_page b \<ge> num_pages b
          then do { (page_was_fetched, s1) \<leftarrow> fetch_a_page node s;
                    if \<not> page_was_fetched
                    then do { s2 \<leftarrow> terminate_process node s1; Some (Inr (True, s2)) }
                    else Some (Inr (False, s1)) }
          else do { page_num \<leftarrow> pagetable b (curr_page b);
                    (line, s1) \<leftarrow> get_line page_num (curr_line b) s;
                    (t, s2) \<leftarrow> increment_timer s1;
                    s3 \<leftarrow> upd_frame page_num (update_page_timestamp t) s2;
                    s4 \<leftarrow> upd_pcb node (priority_update (\<lambda>_. False)) (s3\<lparr>in_background := True\<rparr>);
                    if line = none_line
                    then do { s5 \<leftarrow> terminate_process node s4; Some (Inr (True, s5\<lparr>in_background := False\<rparr>)) }
                    else do { r \<leftarrow> parse line s4;
                              (case r of
                                 Inl final \<Rightarrow> Some (Inl final)
                               | Inr (_, s5) \<Rightarrow>
                                   do { s6 \<leftarrow> upd_pcb node advance (s5\<lparr>in_background := False\<rparr>);
                                        execute_process parse node k s6 }) } } }"

section \<open>Schedulers\<close>

partial_function (option) scheduler_FCFS :: "'a parser \<Rightarrow> 'a k2_scheme \<Rightarrow> ('a k2_scheme + 'a k2_scheme) option" where
  "scheduler_FCFS parse s =
     (if is_ready_empty s then (if active s then scheduler_FCFS parse s else Some (Inr s))
      else do { (p, s1) \<leftarrow> ready_queue_pop_head s;
                cur \<leftarrow> deref p;
                r \<leftarrow> execute_process parse cur (nat MAX_INT) s1;
                (case r of
                   Inl final \<Rightarrow> Some (Inl final)
                 | Inr (process_done, s2) \<Rightarrow>
                     if process_done then scheduler_FCFS parse s2
                     else do { s3 \<leftarrow> ready_queue_add_to_head cur s2; scheduler_FCFS parse s3 }) })"

declare scheduler_FCFS.simps [code]

partial_function (option) scheduler_SJF :: "'a parser \<Rightarrow> 'a k2_scheme \<Rightarrow> ('a k2_scheme + 'a k2_scheme) option" where
  "scheduler_SJF parse s =
     (if is_ready_empty s then (if active s then scheduler_SJF parse s else Some (Inr s))
      else do { (p, s1) \<leftarrow> ready_queue_pop_shortest_job s;
                cur \<leftarrow> deref p;
                r \<leftarrow> execute_process parse cur (nat MAX_INT) s1;
                (case r of
                   Inl final \<Rightarrow> Some (Inl final)
                 | Inr (_, s2) \<Rightarrow> scheduler_SJF parse s2) })"

declare scheduler_SJF.simps [code]

partial_function (option) scheduler_AGING_alternative ::
    "'a parser \<Rightarrow> 'a k2_scheme \<Rightarrow> ('a k2_scheme + 'a k2_scheme) option" where
  "scheduler_AGING_alternative parse s =
     (if is_ready_empty s then (if active s then scheduler_AGING_alternative parse s else Some (Inr s))
      else do { (p, s1) \<leftarrow> ready_queue_pop_shortest_job s;
                cur \<leftarrow> deref p;
                s2 \<leftarrow> ready_queue_decrement_job_length_score s1;
                r \<leftarrow> execute_process parse cur 1 s2;
                (case r of
                   Inl final \<Rightarrow> Some (Inl final)
                 | Inr (process_done, s3) \<Rightarrow>
                     if process_done then scheduler_AGING_alternative parse s3
                     else do { s4 \<leftarrow> ready_queue_add_to_head cur s3; scheduler_AGING_alternative parse s4 }) })"

declare scheduler_AGING_alternative.simps [code]

text \<open>The choice of the next process in \<^verbatim>\<open>scheduler_AGING\<close>: the head of the queue, unless a shorter job waits.\<close>

definition aging_choose :: "'a k2_scheme \<Rightarrow> (nat \<times> 'a k2_scheme) option" where
  "aging_choose s =
     do { (p, s1) \<leftarrow> ready_queue_pop_head s;
          cur \<leftarrow> deref p;
          shortest \<leftarrow> ready_queue_get_shortest_job_score s1;
          b \<leftarrow> get_pcb cur s1;
          if shortest < job_length_score b
          then do { s2 \<leftarrow> ready_queue_promote shortest s1;
                    s3 \<leftarrow> ready_queue_add_to_tail cur s2;
                    (p', s4) \<leftarrow> ready_queue_pop_head s3;
                    cur' \<leftarrow> deref p';
                    Some (cur', s4) }
          else Some (cur, s1) }"

partial_function (option) aging_loop :: "'a parser \<Rightarrow> 'a k2_scheme \<Rightarrow> ('a k2_scheme + 'a k2_scheme) option" where
  "aging_loop parse s =
     (if is_ready_empty s then (if active s then aging_loop parse s else Some (Inr s))
      else do { (cur, s1) \<leftarrow> aging_choose s;
                s2 \<leftarrow> ready_queue_decrement_job_length_score s1;
                r \<leftarrow> execute_process parse cur 1 s2;
                (case r of
                   Inl final \<Rightarrow> Some (Inl final)
                 | Inr (process_done, s3) \<Rightarrow>
                     if process_done then aging_loop parse s3
                     else do { s4 \<leftarrow> ready_queue_add_to_head cur s3; aging_loop parse s4 }) })"

declare aging_loop.simps [code]

definition scheduler_AGING :: "'a parser \<Rightarrow> 'a k2_scheme \<Rightarrow> ('a k2_scheme + 'a k2_scheme) option" where
  "scheduler_AGING parse s = Option.bind (sort_ready_queue s) (aging_loop parse)"

partial_function (option) scheduler_RR ::
    "'a parser \<Rightarrow> nat \<Rightarrow> 'a k2_scheme \<Rightarrow> ('a k2_scheme + 'a k2_scheme) option" where
  "scheduler_RR parse quanta s =
     (if is_ready_empty s then (if active s then scheduler_RR parse quanta s else Some (Inr s))
      else do { (p, s1) \<leftarrow> ready_queue_pop_head s;
                cur \<leftarrow> deref p;
                r \<leftarrow> execute_process parse cur quanta s1;
                (case r of
                   Inl final \<Rightarrow> Some (Inl final)
                 | Inr (process_done, s2) \<Rightarrow>
                     if process_done then scheduler_RR parse quanta s2
                     else do { s3 \<leftarrow> ready_queue_add_to_tail cur s2; scheduler_RR parse quanta s3 }) })"

declare scheduler_RR.simps [code]

definition schedule_by_policy ::
    "'a parser \<Rightarrow> string \<Rightarrow> 'a k2_scheme \<Rightarrow> ('a k2_scheme + int \<times> 'a k2_scheme) option" where
  "schedule_by_policy parse policy s =
     (let ran = map_option (\<lambda>r. case r of Inl final \<Rightarrow> Inl final | Inr s' \<Rightarrow> Inr (0, s'))
      in if policy \<notin> {''FCFS'', ''SJF'', ''RR'', ''AGING'', ''RR30''} then Some (Inr (SCHEDULING_ERROR, s))
         else if active s then Some (Inr (0, s))
         else if in_background s then Some (Inr (0, s))
         else if policy = ''FCFS'' then ran (scheduler_FCFS parse s)
         else if policy = ''SJF'' then ran (scheduler_SJF parse s)
         else if policy = ''RR'' then ran (scheduler_RR parse 2 s)
         else if policy = ''AGING'' then ran (scheduler_AGING parse s)
         else ran (scheduler_RR parse 30 s))"

section \<open>Resident programs\<close>

text \<open>
  \<open>at PL b p l xs\<close>: from line \<open>l\<close> of page \<open>p\<close> on, the process \<open>b\<close> has the lines \<open>xs\<close> left to execute, all of them
  in the frames \<open>PL\<close>; it ends at a line \<^verbatim>\<open>none\<close> or after its last page.
\<close>

definition frame_of :: "string list list \<Rightarrow> PCB \<Rightarrow> int \<Rightarrow> nat \<Rightarrow> bool" where
  "frame_of PL b p i \<longleftrightarrow> pagetable b p = Some (int i) \<and> i < length PL \<and> length (PL ! i) = 3"

primrec at :: "string list list \<Rightarrow> PCB \<Rightarrow> int \<Rightarrow> nat \<Rightarrow> string list \<Rightarrow> bool" where
  "at PL b p l [] \<longleftrightarrow> p \<ge> num_pages b \<or> (\<exists>i. frame_of PL b p i \<and> PL ! i ! l = none_line)"
| "at PL b p l (x # xs) \<longleftrightarrow> p < num_pages b \<and> (\<exists>i. frame_of PL b p i \<and> PL ! i ! l = x) \<and> x \<noteq> none_line \<and>
     (if l = 2 then at PL b (p + 1) 0 xs else at PL b p (l + 1) xs)"

text \<open>A process whose whole program is in the frame store (nothing is left to read from its file).\<close>

definition resident :: "'a k2_scheme \<Rightarrow> nat \<Rightarrow> string list \<Rightarrow> bool" where
  "resident s node xs \<longleftrightarrow> (\<exists>b l. get_pcb node s = Some b \<and> fp b = Some [] \<and> curr_line b = int l \<and> l < 3 \<and>
     at (map page_lines (framestore s)) b (curr_page b) l xs)"

text \<open>Lines that only print and set variables: their effect is a function \<open>f\<close> of the output and the
  variables.\<close>

type_synonym user = "string list \<times> shellmem"

definition user_of :: "'a k2_scheme \<Rightarrow> user" where
  "user_of s = (stdout s, varmemory s)"

definition user_step :: "(string \<Rightarrow> user \<Rightarrow> user) \<Rightarrow> string \<Rightarrow> 'a k2_scheme \<Rightarrow> 'a k2_scheme" where
  "user_step f l s = s\<lparr>stdout := fst (f l (user_of s)), varmemory := snd (f l (user_of s))\<rparr>"

definition runs_lines :: "'a parser \<Rightarrow> (string \<Rightarrow> user \<Rightarrow> user) \<Rightarrow> string set \<Rightarrow> bool" where
  "runs_lines parse f L \<longleftrightarrow>
     (\<forall>l\<in>L. \<forall>s. in_background s \<longrightarrow> (\<exists>c. parse l s = Some (Inr (c, user_step f l s))))"

text \<open>What the execution of one process keeps.\<close>

definition others_kept :: "nat \<Rightarrow> 'a k2_scheme \<Rightarrow> 'a k2_scheme \<Rightarrow> bool" where
  "others_kept node s s' \<longleftrightarrow> head s' = head s \<and> active s' = active s \<and> next_addr s' = next_addr s \<and>
     (\<forall>a. a \<noteq> node \<longrightarrow> nodes s' a = nodes s a) \<and>
     map page_lines (framestore s') = map page_lines (framestore s)"

lemma others_kept_trans: "others_kept n s t \<Longrightarrow> others_kept n t u \<Longrightarrow> others_kept n s u"
  by (simp add: others_kept_def)

lemma at_cong:
  "pagetable b' = pagetable b \<Longrightarrow> num_pages b' = num_pages b \<Longrightarrow> at PL b' p l xs = at PL b p l xs"
  by (induction xs arbitrary: p l) (auto simp: frame_of_def)

lemma upd_pcb_Some:
  "nodes s node = Some nd \<Longrightarrow> upd_pcb node g s = Some (s\<lparr>nodes := (nodes s)(node \<mapsto> nd\<lparr>pcb := g (pcb nd)\<rparr>)\<rparr>)"
  by (simp add: upd_pcb_def)

text \<open>One line of a resident program.\<close>

lemma execute_line:
  assumes nd: "nodes s node = Some nd" "pcb nd = b"
    and b: "curr_page b < num_pages b" "curr_line b = int l" "l < 3"
      "frame_of (map page_lines (framestore s)) b (curr_page b) i"
    and x: "page_lines (framestore s ! i) ! l = x" "x \<noteq> none_line"
    and t: "0 \<le> timer s" "timer s + 2 < 2 ^ 31"
    and p: "runs_lines parse f {x}"
  shows "\<exists>s' nd'. execute_process parse node (Suc k) s = execute_process parse node k s' \<and>
     nodes s' node = Some nd' \<and> next nd' = next nd \<and> pcb nd' = advance (b\<lparr>priority := False\<rparr>) \<and>
     others_kept node s s' \<and> user_of s' = f x (user_of s) \<and> timer s' = timer s + 2"
proof -
  from b(4) have i: "pagetable b (curr_page b) = Some (int i)" "i < length (framestore s)"
      "length (page_lines (framestore s ! i)) = 3"
    by (auto simp: frame_of_def)
  let ?f1 = "(framestore s)[i := (framestore s ! i)\<lparr>last_used := timer s\<rparr>]"
  let ?s1 = "s\<lparr>timer := timer s + 1, framestore := ?f1\<rparr>"
  have gl: "get_line (int i) (int l) s = Some (x, ?s1)"
    using i b(3) x(1) t by (simp add: get_line_def increment_timer_def upd_frame_def frame_at_def int32_def)
  let ?s3 = "?s1\<lparr>timer := timer s + 2, framestore := ?f1[i := update_page_timestamp (timer s + 1) (?f1 ! i)]\<rparr>"
  have ts: "increment_timer ?s1 = Some (timer s + 1, ?s1\<lparr>timer := timer s + 2\<rparr>)"
    "upd_frame (int i) (update_page_timestamp (timer s + 1)) (?s1\<lparr>timer := timer s + 2\<rparr>) = Some ?s3"
    using i t by (simp_all add: increment_timer_def upd_frame_def int32_def)
  let ?s4 = "?s3\<lparr>in_background := True, nodes := (nodes s)(node \<mapsto> nd\<lparr>pcb := b\<lparr>priority := False\<rparr>\<rparr>)\<rparr>"
  have s4: "upd_pcb node (priority_update (\<lambda>_. False)) (?s3\<lparr>in_background := True\<rparr>) = Some ?s4"
    using nd by (simp add: upd_pcb_def)
  have "in_background ?s4" by simp
  with p obtain c where c: "parse x ?s4 = Some (Inr (c, user_step f x ?s4))"
    unfolding runs_lines_def by blast
  let ?nd' = "nd\<lparr>pcb := advance (b\<lparr>priority := False\<rparr>)\<rparr>"
  let ?s6 = "(user_step f x ?s4)\<lparr>in_background := False, nodes := (nodes s)(node \<mapsto> ?nd')\<rparr>"
  have s6: "upd_pcb node advance ((user_step f x ?s4)\<lparr>in_background := False\<rparr>) = Some ?s6"
    by (simp add: upd_pcb_def user_step_def)
  have "execute_process parse node (Suc k) s = execute_process parse node k ?s6"
    using nd b(1,2) i(1) gl ts s4 c s6 x(2) by (simp add: get_pcb_def)
  moreover have "map page_lines (?f1[i := update_page_timestamp (timer s + 1) (?f1 ! i)]) = map page_lines (framestore s)"
    using i(2) by (simp add: list_eq_iff_nth_eq nth_list_update update_page_timestamp_def)
  then have "others_kept node s ?s6" by (simp add: others_kept_def user_step_def)
  moreover have "user_of ?s6 = f x (user_of s)" "timer ?s6 = timer s + 2"
    by (simp_all add: user_of_def user_step_def)
  moreover have "nodes ?s6 node = Some ?nd'" "next ?nd' = next nd" "pcb ?nd' = advance (b\<lparr>priority := False\<rparr>)" by simp_all
  ultimately show ?thesis by blast
qed

lemma execute_end:
  assumes "resident s node []" "0 \<le> timer s" "timer s + 2 < 2 ^ 31"
  shows "\<exists>s'. execute_process parse node (Suc k) s = Some (Inr (True, s')) \<and> nodes s' node = None \<and>
     others_kept node s s' \<and> user_of s' = user_of s \<and> timer s \<le> timer s' \<and> timer s' \<le> timer s + 2"
proof -
  from assms(1) obtain b l nd where b: "nodes s node = Some nd" "pcb nd = b" "fp b = Some []" "curr_line b = int l" "l < 3"
    "at (map page_lines (framestore s)) b (curr_page b) l []"
    by (auto simp: resident_def get_pcb_def)
  show ?thesis
  proof (cases "curr_page b \<ge> num_pages b")
    case True
    have "read_lines 1024 3 [] = ([], [])" by (simp add: numeral_3_eq_3 fgets_def)
    then have "execute_process parse node (Suc k) s = Some (Inr (True, s\<lparr>nodes := (nodes s)(node := None)\<rparr>))"
      using True b by (simp add: get_pcb_def fetch_a_page_def upd_pcb_def terminate_process_def free_node_def)
    then show ?thesis by (auto simp: others_kept_def user_of_def)
  next
    case False
    with b(6) obtain i where i: "pagetable b (curr_page b) = Some (int i)" "i < length (framestore s)"
        "length (page_lines (framestore s ! i)) = 3" "page_lines (framestore s ! i) ! l = none_line"
      by (auto simp: frame_of_def)
    let ?f1 = "(framestore s)[i := (framestore s ! i)\<lparr>last_used := timer s\<rparr>]"
    let ?s' = "s\<lparr>timer := timer s + 2, framestore := ?f1[i := update_page_timestamp (timer s + 1) (?f1 ! i)],
                in_background := False, nodes := (nodes s)(node := None)\<rparr>"
    have "execute_process parse node (Suc k) s = Some (Inr (True, ?s'))"
      using False b i assms(2,3)
      by (simp add: get_pcb_def get_line_def increment_timer_def upd_frame_def frame_at_def int32_def upd_pcb_def
          terminate_process_def free_node_def)
    moreover have "map page_lines (?f1[i := update_page_timestamp (timer s + 1) (?f1 ! i)]) = map page_lines (framestore s)"
      using i(2) by (simp add: list_eq_iff_nth_eq nth_list_update update_page_timestamp_def)
    ultimately show ?thesis by (auto simp: others_kept_def user_of_def)
  qed
qed

text \<open>A bound on the ticks that a program with the lines \<open>xs\<close> needs.\<close>

definition ticks :: "string list \<Rightarrow> int" where
  "ticks xs = 2 * int (length xs) + 2"

lemma resident_advance:
  assumes "others_kept node s s'" "nodes s' node = Some nd'" "pcb nd' = advance (b\<lparr>priority := False\<rparr>)"
    and "fp b = Some []" "curr_line b = int l" "l < 3"
    and "at (map page_lines (framestore s)) b (curr_page b) l (x # xs)"
  shows "resident s' node xs"
proof (cases "l = 2")
  case True
  have "pagetable (pcb nd') = pagetable b" "num_pages (pcb nd') = num_pages b"
    using assms(3) by (simp_all add: advance_def)
  then have "at (map page_lines (framestore s')) (pcb nd') (curr_page b + 1) 0 xs"
    using assms(1,7) True at_cong [of "pcb nd'" b] by (simp add: others_kept_def)
  with assms True show ?thesis by (auto simp: resident_def get_pcb_def advance_def)
next
  case False
  have "pagetable (pcb nd') = pagetable b" "num_pages (pcb nd') = num_pages b"
    using assms(3) by (simp_all add: advance_def)
  then have "at (map page_lines (framestore s')) (pcb nd') (curr_page b) (l + 1) xs"
    using assms(1,7) False at_cong [of "pcb nd'" b] by (simp add: others_kept_def)
  with assms False show ?thesis
    by (auto simp: resident_def get_pcb_def advance_def intro!: exI [of _ "l + 1"])
qed

lemma execute_quantum:
  "resident s node xs \<Longrightarrow> runs_lines parse f (set xs) \<Longrightarrow> 0 \<le> timer s \<Longrightarrow> timer s + ticks xs < 2 ^ 31 \<Longrightarrow>
   \<exists>s'. execute_process parse node k s = Some (Inr (length xs < k, s')) \<and> others_kept node s s' \<and>
     user_of s' = fold f (take k xs) (user_of s) \<and> timer s \<le> timer s' \<and>
     timer s' + (if length xs < k then 0 else ticks (drop k xs)) \<le> timer s + ticks xs \<and>
     (if length xs < k then nodes s' node = None else nodes s' node \<noteq> None \<and> resident s' node (drop k xs))"
proof (induction k arbitrary: s xs)
  case 0
  then show ?case by (auto simp: others_kept_def resident_def get_pcb_def)
next
  case (Suc k)
  show ?case
  proof (cases xs)
    case Nil
    with execute_end [of s node parse k] Suc.prems show ?thesis by (auto simp: ticks_def)
  next
    case (Cons x ys)
    from Suc.prems(1) Cons obtain b l nd where b: "nodes s node = Some nd" "pcb nd = b" "fp b = Some []"
      "curr_line b = int l" "l < 3" "at (map page_lines (framestore s)) b (curr_page b) l (x # ys)"
      by (auto simp: resident_def get_pcb_def)
    then obtain i where i: "curr_page b < num_pages b" "frame_of (map page_lines (framestore s)) b (curr_page b) i"
      "page_lines (framestore s ! i) ! l = x" "x \<noteq> none_line" by (auto simp: frame_of_def)
    have t: "timer s + 2 < 2 ^ 31" "runs_lines parse f {x}" "runs_lines parse f (set ys)"
      using Suc.prems(2,4) Cons by (simp_all add: ticks_def runs_lines_def)
    from execute_line [OF b(1,2) i(1) b(4,5) i(2,3,4) Suc.prems(3) t(1,2)] obtain s1 nd' where
      s1: "execute_process parse node (Suc k) s = execute_process parse node k s1" "nodes s1 node = Some nd'"
        "pcb nd' = advance (b\<lparr>priority := False\<rparr>)" "others_kept node s s1" "user_of s1 = f x (user_of s)"
        "timer s1 = timer s + 2" by blast
    have "resident s1 node ys" by (rule resident_advance [OF s1(4,2,3) b(3-6)])
    moreover have "0 \<le> timer s1" "timer s1 + ticks ys < 2 ^ 31"
      using Suc.prems(3,4) Cons s1(6) by (simp_all add: ticks_def)
    ultimately obtain s' where
      s': "execute_process parse node k s1 = Some (Inr (length ys < k, s'))" "others_kept node s1 s'"
        "user_of s' = fold f (take k ys) (user_of s1)" "timer s1 \<le> timer s'"
        "timer s' + (if length ys < k then 0 else ticks (drop k ys)) \<le> timer s1 + ticks ys"
        "if length ys < k then nodes s' node = None else nodes s' node \<noteq> None \<and> resident s' node (drop k ys)"
      using Suc.IH [of s1 ys] t(3) by blast
    with s1 Cons others_kept_trans [OF s1(4) s'(2)] show ?thesis by (auto simp: ticks_def)
  qed
qed

section \<open>Scheduling resident programs\<close>

text \<open>The queue holds the processes of \<open>jobs\<close>, each with the lines it has left; the timer has room for
  all of them.\<close>

definition total_ticks :: "(nat \<times> string list) list \<Rightarrow> int" where
  "total_ticks jobs = sum_list (map (\<lambda>j. ticks (snd j)) jobs)"

definition jobs_ok :: "'a k2_scheme \<Rightarrow> (nat \<times> string list) list \<Rightarrow> bool" where
  "jobs_ok s jobs \<longleftrightarrow> queue s (map fst jobs) \<and> (\<forall>j\<in>set jobs. resident s (fst j) (snd j)) \<and> \<not> active s \<and>
     0 \<le> timer s \<and> timer s + total_ticks jobs < 2 ^ 31"

lemma ticks_pos: "2 \<le> ticks xs"
  by (simp add: ticks_def)

lemma total_ticks_nonneg: "0 \<le> total_ticks jobs"
  unfolding total_ticks_def by (rule sum_list_nonneg) (auto simp: ticks_def)

lemma k2_more_eqD:
  assumes "rq.more s' = rq.more (s :: 'a k2_scheme)"
  shows "framestore s' = framestore s" "timer s' = timer s" "active s' = active s" "user_of s' = user_of s"
  using assms by (cases s; cases s'; simp add: user_of_def)+

lemma same_pcbs_resident:
  assumes "same_pcbs s s'"
  shows "resident s' n xs = resident s n xs" "timer s' = timer s" "active s' = active s" "user_of s' = user_of s"
  using assms k2_more_eqD [of s' s] by (simp_all add: same_pcbs_def resident_def)

lemma others_kept_resident:
  assumes "others_kept n s s'" "m \<noteq> n"
  shows "resident s' m xs = resident s m xs"
  using assms by (simp add: others_kept_def resident_def get_pcb_def)

lemma others_kept_queue:
  assumes "others_kept n s s'" "queue s ps" "n \<notin> set ps"
  shows "queue s' ps"
proof -
  have "chain (nodes s') (head s') ps None"
    by (rule chain_same_next [where h = "nodes s"]) (use assms in \<open>auto simp: others_kept_def queue_def\<close>)
  with assms(2) show ?thesis by (simp add: queue_def)
qed

lemma turn_of_first:
  assumes "jobs_ok s ((n, xs) # jobs)" "runs_lines parse f (set xs)"
  shows "\<exists>s1 s2. ready_queue_pop_head s = Some (Some n, s1) \<and>
     execute_process parse n k s1 = Some (Inr (length xs < k, s2)) \<and>
     user_of s2 = fold f (take k xs) (user_of s) \<and>
     queue s2 (map fst jobs) \<and> n \<notin> set (map fst jobs) \<and> (\<forall>j\<in>set jobs. resident s2 (fst j) (snd j)) \<and>
     \<not> active s2 \<and> 0 \<le> timer s2 \<and>
     timer s2 + (if length xs < k then 0 else ticks (drop k xs)) + total_ticks jobs < 2 ^ 31 \<and>
     (length xs < k \<or> nodes s2 n \<noteq> None \<and> resident s2 n (drop k xs))"
proof -
  from assms(1) have ok: "queue s (n # map fst jobs)" "resident s n xs" "\<forall>j\<in>set jobs. resident s (fst j) (snd j)"
      "\<not> active s" "0 \<le> timer s" "timer s + ticks xs + total_ticks jobs < 2 ^ 31"
    by (simp_all add: jobs_ok_def total_ticks_def)
  from pop_head_queue(2) [OF ok(1)] obtain s1 where
    s1: "ready_queue_pop_head s = Some (Some n, s1)" "queue s1 (map fst jobs)" "same_pcbs s s1" by blast
  note sp = same_pcbs_resident [OF s1(3)]
  have "timer s1 + ticks xs < 2 ^ 31" using ok(6) total_ticks_nonneg [of jobs] sp(2) by simp
  with execute_quantum [of s1 n xs parse f k] ok sp assms(2) obtain s2 where
    s2: "execute_process parse n k s1 = Some (Inr (length xs < k, s2))" "others_kept n s1 s2"
      "user_of s2 = fold f (take k xs) (user_of s1)" "timer s1 \<le> timer s2"
      "timer s2 + (if length xs < k then 0 else ticks (drop k xs)) \<le> timer s1 + ticks xs"
      "if length xs < k then nodes s2 n = None else nodes s2 n \<noteq> None \<and> resident s2 n (drop k xs)" by auto
  have n: "n \<notin> set (map fst jobs)" using ok(1) by (simp add: queue_def)
  have q2: "queue s2 (map fst jobs)" by (rule others_kept_queue [OF s2(2) s1(2) n])
  have "resident s2 (fst j) (snd j)" if "j \<in> set jobs" for j
    using that ok(3) sp(1) others_kept_resident [OF s2(2), of "fst j" "snd j"] n by force
  moreover have "\<not> active s2" "0 \<le> timer s2"
    "timer s2 + (if length xs < k then 0 else ticks (drop k xs)) + total_ticks jobs < 2 ^ 31"
    using s2(2,4,5) ok(4,5,6) sp by (simp_all add: others_kept_def)
  ultimately show ?thesis
    using s1(1) s2(1,3,6) sp(4) q2 n by (intro exI [of _ s1] exI [of _ s2]) (simp split: if_splits)
qed

text \<open>The order in which round robin with quantum \<open>q\<close> executes the lines.\<close>

function rr_order :: "nat \<Rightarrow> 'a list list \<Rightarrow> 'a list" where
  "rr_order q [] = []"
| "rr_order q (xs # xss) =
     (if length xs < q then xs @ rr_order q xss
      else if q = 0 then [] else take q xs @ rr_order q (xss @ [drop q xs]))"
  by pat_completeness auto
termination
  by (relation "measure (\<lambda>(q, xss). sum_list (map (\<lambda>xs. Suc (length xs)) xss))") auto

lemma rr_turn_back:
  assumes "queue s2 (map fst jobs)" "nodes s2 n \<noteq> None" "n \<notin> set (map fst jobs)" "resident s2 n ys"
    "\<forall>j\<in>set jobs. resident s2 (fst j) (snd j)" "\<not> active s2" "0 \<le> timer s2"
    "timer s2 + ticks ys + total_ticks jobs < 2 ^ 31"
  shows "\<exists>s3. ready_queue_add_to_tail n s2 = Some s3 \<and> jobs_ok s3 (jobs @ [(n, ys)]) \<and> user_of s3 = user_of s2"
proof -
  from assms(2) obtain nd where "nodes s2 n = Some nd" by blast
  from add_to_tail_queue [OF assms(1) this assms(3)] obtain s3 where
    s3: "ready_queue_add_to_tail n s2 = Some s3" "queue s3 (map fst jobs @ [n])" "same_pcbs s2 s3" by blast
  with same_pcbs_resident [OF s3(3)] assms show ?thesis by (simp add: jobs_ok_def total_ticks_def)
qed

lemma scheduler_RR_order:
  "jobs_ok s jobs \<Longrightarrow> 0 < q \<Longrightarrow> runs_lines parse f (\<Union>j\<in>set jobs. set (snd j)) \<Longrightarrow>
   \<exists>s'. scheduler_RR parse q s = Some (Inr s') \<and> queue s' [] \<and>
        user_of s' = fold f (rr_order q (map snd jobs)) (user_of s)"
proof (induction q "map snd jobs" arbitrary: jobs s rule: rr_order.induct)
  case (1 q)
  then have "queue s []" "\<not> active s" by (simp_all add: jobs_ok_def)
  then have "scheduler_RR parse q s = Some (Inr s)"
    by (subst scheduler_RR.simps) (simp add: is_ready_empty_def queue_def)
  with 1 \<open>queue s []\<close> show ?case by simp
next
  case (2 q xs xss)
  from 2(3) obtain n jobs' where jobs: "jobs = (n, xs) # jobs'" "xss = map snd jobs'" by (cases jobs) auto
  have runs: "runs_lines parse f (set xs)" "runs_lines parse f (\<Union>j\<in>set jobs'. set (snd j))"
    "runs_lines parse f (\<Union>j\<in>set (jobs' @ [(n, drop q xs)]). set (snd j))"
    using 2(6) jobs by (auto simp: runs_lines_def dest: in_set_dropD)
  have ne: "\<not> is_ready_empty s" using 2(4) jobs by (simp add: jobs_ok_def queue_def is_ready_empty_def)
  from turn_of_first [OF 2(4) [unfolded jobs] runs(1), of q] obtain s1 s2 where
    t: "ready_queue_pop_head s = Some (Some n, s1)" "execute_process parse n q s1 = Some (Inr (length xs < q, s2))"
      "user_of s2 = fold f (take q xs) (user_of s)" "queue s2 (map fst jobs')" "n \<notin> set (map fst jobs')"
      "\<forall>j\<in>set jobs'. resident s2 (fst j) (snd j)" "\<not> active s2" "0 \<le> timer s2"
      "timer s2 + (if length xs < q then 0 else ticks (drop q xs)) + total_ticks jobs' < 2 ^ 31"
      "length xs < q \<or> nodes s2 n \<noteq> None \<and> resident s2 n (drop q xs)" by blast
  show ?case
  proof (cases "length xs < q")
    case True
    have "jobs_ok s2 jobs'" using t True by (simp add: jobs_ok_def)
    from 2(1) [OF True jobs(2) this 2(5) runs(2)] t True ne jobs show ?thesis
      by (subst scheduler_RR.simps) (simp add: deref_def)
  next
    case False
    with t have "timer s2 + ticks (drop q xs) + total_ticks jobs' < 2 ^ 31" "nodes s2 n \<noteq> None"
        "resident s2 n (drop q xs)" by auto
    from rr_turn_back [OF t(4) this(2) t(5) this(3) t(6,7,8) this(1)] obtain s3 where
      s3: "ready_queue_add_to_tail n s2 = Some s3" "jobs_ok s3 (jobs' @ [(n, drop q xs)])" "user_of s3 = user_of s2" by blast
    have "xss @ [drop q xs] = map snd (jobs' @ [(n, drop q xs)])" using jobs by simp
    from 2(2) [OF False _ this s3(2) 2(5) runs(3)] 2(5) s3 t False ne jobs show ?thesis
      by (subst scheduler_RR.simps) (simp add: deref_def)
  qed
qed

lemma MAX_INT_bound:
  assumes "timer s + ticks xs + total_ticks jobs < 2 ^ 31" "0 \<le> timer s"
  shows "length xs < nat MAX_INT"
  using assms total_ticks_nonneg [of jobs] by (simp add: ticks_def MAX_INT_def)

lemma scheduler_FCFS_order:
  "jobs_ok s jobs \<Longrightarrow> runs_lines parse f (\<Union>j\<in>set jobs. set (snd j)) \<Longrightarrow>
   \<exists>s'. scheduler_FCFS parse s = Some (Inr s') \<and> queue s' [] \<and>
        user_of s' = fold f (concat (map snd jobs)) (user_of s)"
proof (induction jobs arbitrary: s)
  case Nil
  then have "queue s []" "\<not> active s" by (simp_all add: jobs_ok_def)
  then have "scheduler_FCFS parse s = Some (Inr s)"
    by (subst scheduler_FCFS.simps) (simp add: is_ready_empty_def queue_def)
  with \<open>queue s []\<close> show ?case by simp
next
  case (Cons j jobs)
  obtain n xs where j: "j = (n, xs)" by (cases j)
  have runs: "runs_lines parse f (set xs)" "runs_lines parse f (\<Union>j\<in>set jobs. set (snd j))"
    using Cons.prems(2) j by (auto simp: runs_lines_def)
  have ne: "\<not> is_ready_empty s" using Cons.prems(1) by (simp add: jobs_ok_def queue_def is_ready_empty_def)
  have "timer s + ticks xs + total_ticks jobs < 2 ^ 31" "0 \<le> timer s"
    using Cons.prems(1) j by (simp_all add: jobs_ok_def total_ticks_def)
  from MAX_INT_bound [OF this] have short: "length xs < nat MAX_INT" .
  from turn_of_first [OF Cons.prems(1) [unfolded j] runs(1), of "nat MAX_INT"] short obtain s1 s2 where
    t: "ready_queue_pop_head s = Some (Some n, s1)" "execute_process parse n (nat MAX_INT) s1 = Some (Inr (True, s2))"
      "user_of s2 = fold f xs (user_of s)" "jobs_ok s2 jobs" by (auto simp: jobs_ok_def)
  from Cons.IH [OF t(4) runs(2)] t ne j show ?case
    by (subst scheduler_FCFS.simps) (simp add: deref_def)
qed

section \<open>Properties\<close>

text \<open>
  C14. Round robin (\<^verbatim>\<open>exec\<close>, quantum two) runs every program in the ready queue to its end and executes their
  lines in turns of two: the effect on the output and the variables is that of the lines in the order
  \<^term>\<open>rr_order 2\<close>. The programs are resident (no page has to be loaded) and consist of lines that
  only print and set variables.
\<close>

theorem RR_runs_all_programs:
  assumes "jobs_ok s jobs" "\<not> in_background s" "runs_lines parse f (\<Union>j\<in>set jobs. set (snd j))"
  shows "\<exists>s'. schedule_by_policy parse ''RR'' s = Some (Inr (0, s')) \<and> queue s' [] \<and>
     user_of s' = fold f (rr_order 2 (map snd jobs)) (user_of s)"
proof -
  from scheduler_RR_order [OF assms(1) _ assms(3), of 2] obtain s' where
    "scheduler_RR parse 2 s = Some (Inr s')" "queue s' []" "user_of s' = fold f (rr_order 2 (map snd jobs)) (user_of s)"
    by auto
  moreover have "\<not> active s" using assms(1) by (simp add: jobs_ok_def)
  ultimately show ?thesis using assms(2) by (simp add: schedule_by_policy_def)
qed

text \<open>Two resident programs, of three lines and of one.\<close>

definition example_kernel :: k2 where
  "example_kernel = a2.extend (rq.extend
     \<lparr>nodes = [1 \<mapsto> \<lparr>pcb = makePCB 1 [0 \<mapsto> 0] 1 (Some []), next = Some 2\<rparr>,
               2 \<mapsto> \<lparr>pcb = makePCB 2 [0 \<mapsto> 1] 1 (Some []), next = None\<rparr>], head = Some 1\<rparr>
     \<lparr>framestore = [set_page 0 1 [''a'', ''b'', ''c''] 0 init_page, set_page 0 2 [''x'', ''none'', ''none''] 1 init_page],
      timer = 2, pid_counter = 3, backing_store_path = ''b'', files = Map.empty, stdout = []\<rparr>)
     \<lparr>active = False, in_background = False, varmemory = [], next_addr = 3\<rparr>"

definition log_line :: "string \<Rightarrow> user \<Rightarrow> user" where
  "log_line l u = (fst u @ [l], snd u)"

definition log_parser :: "'a parser" where
  "log_parser l s = Some (Inr (0, user_step log_line l s))"

lemma log_parser_runs: "runs_lines log_parser log_line L"
  by (simp add: runs_lines_def log_parser_def)

lemma example_kernel_sel:
  "nodes example_kernel = [1 \<mapsto> \<lparr>pcb = makePCB 1 [0 \<mapsto> 0] 1 (Some []), next = Some 2\<rparr>,
               2 \<mapsto> \<lparr>pcb = makePCB 2 [0 \<mapsto> 1] 1 (Some []), next = None\<rparr>]"
  "head example_kernel = Some 1" "timer example_kernel = 2" "active example_kernel = False"
  "map page_lines (framestore example_kernel) = [[''a'', ''b'', ''c''], [''x'', ''none'', ''none'']]"
  "in_background example_kernel = False" "user_of example_kernel = ([], [])"
  by (simp_all add: example_kernel_def a2.defs rq.defs set_page_def user_of_def)

lemma example_kernel_jobs: "jobs_ok example_kernel [(1, [''a'', ''b'', ''c'']), (2, [''x''])]"
proof -
  have "resident example_kernel 1 [''a'', ''b'', ''c'']"
    by (auto simp: resident_def get_pcb_def example_kernel_sel makePCB_def frame_of_def none_line_def)
  moreover have "resident example_kernel 2 [''x'']"
    by (auto simp: resident_def get_pcb_def example_kernel_sel makePCB_def frame_of_def none_line_def)
  ultimately show ?thesis
    by (simp add: jobs_ok_def queue_def example_kernel_sel total_ticks_def ticks_def)
qed

theorem RR_runs_all_programs_witness:
  "\<exists>s'. schedule_by_policy log_parser ''RR'' example_kernel = Some (Inr (0, s')) \<and> queue s' [] \<and>
        user_of s' = ([''a'', ''b'', ''x'', ''c''], [])"
  using RR_runs_all_programs [OF example_kernel_jobs _ log_parser_runs]
  by (simp add: example_kernel_sel log_line_def)

text \<open>
  C33. First come, first served (\<^verbatim>\<open>run\<close>) runs every resident program to its end, one after the other in the
  order of the ready queue, each of its lines exactly once.
\<close>

theorem FCFS_runs_all_programs:
  assumes "jobs_ok s jobs" "\<not> in_background s" "runs_lines parse f (\<Union>j\<in>set jobs. set (snd j))"
  shows "\<exists>s'. schedule_by_policy parse ''FCFS'' s = Some (Inr (0, s')) \<and> queue s' [] \<and>
     user_of s' = fold f (concat (map snd jobs)) (user_of s)"
proof -
  from scheduler_FCFS_order [OF assms(1,3)] obtain s' where
    "scheduler_FCFS parse s = Some (Inr s')" "queue s' []" "user_of s' = fold f (concat (map snd jobs)) (user_of s)"
    by auto
  moreover have "\<not> active s" using assms(1) by (simp add: jobs_ok_def)
  ultimately show ?thesis using assms(2) by (simp add: schedule_by_policy_def)
qed

theorem FCFS_runs_all_programs_witness:
  "\<exists>s'. schedule_by_policy log_parser ''FCFS'' example_kernel = Some (Inr (0, s')) \<and> queue s' [] \<and>
        user_of s' = ([''a'', ''b'', ''c'', ''x''], [])"
  using FCFS_runs_all_programs [OF example_kernel_jobs _ log_parser_runs]
  by (simp add: example_kernel_sel log_line_def)

lemma fetch_with_free_frame:
  assumes "get_pcb node s = Some b" "fp b = Some src" "read_lines 1024 3 src = (ls, rest)" "ls \<noteq> []"
    and "get_free_page_space s \<noteq> -1" "int32 (timer s + 1)"
  shows "\<exists>s'. fetch_a_page node s = Some (True, s') \<and> head s' = head s \<and> a2.more s' = a2.more s \<and> stdout s' = stdout s"
proof -
  obtain nd where nd: "nodes s node = Some nd" "pcb nd = b" using assms(1) by (auto simp: get_pcb_def)
  from assms(5) obtain i where i: "get_free_page_space s = int i" "i < length (framestore s)" by (rule free_page_space_SomeD)
  have "get_free_page_space (s\<lparr>nodes := h\<rparr>) = int i" for h using i(1) by (simp add: get_free_page_space_def)
  then show ?thesis
    using assms nd i by (simp add: fetch_a_page_def upd_pcb_def get_pcb_def upd_frame_def increment_timer_def Let_def)
qed

lemma k2_a2_more_eqD:
  assumes "a2.more s' = a2.more (s :: 'a k2_scheme)"
  shows "active s' = active s" "varmemory s' = varmemory s"
  using assms by (cases s; cases s'; simp)+

text \<open>
  \<^verbatim>\<open>scheduler_SJF\<close> loses a process that has a page fault: the process was taken out of the queue, its next
  page is loaded, and it is never put back. With a single process in the queue, the scheduler
  returns although the process still had lines to execute.
\<close>

theorem SJF_loses_faulting_process:
  assumes "queue s [n]" "\<not> active s" "get_pcb n s = Some b" "curr_page b \<ge> num_pages b"
    and "fp b = Some src" "read_lines 1024 3 src = (ls, rest)" "ls \<noteq> []" "get_free_page_space s \<noteq> -1" "int32 (timer s + 1)"
  shows "\<exists>s'. scheduler_SJF parse s = Some (Inr s') \<and> queue s' [] \<and> user_of s' = user_of s"
proof -
  have ne: "\<not> is_ready_empty s" using assms(1) by (simp add: queue_def is_ready_empty_def)
  from sort_queue [OF assms(1)] obtain s0 where
    s0: "sort_ready_queue s = Some s0" "queue s0 [n]" "same_pcbs s s0" by auto
  from pop_head_queue(2) [OF s0(2)] obtain s1 where
    s1: "ready_queue_pop_head s0 = Some (Some n, s1)" "queue s1 []" "same_pcbs s0 s1" by blast
  have sp: "same_pcbs s s1" using s0(3) s1(3) by (rule same_pcbs_trans)
  note eq = same_pcbs_resident(2-4) [OF sp]
  have fr: "framestore s1 = framestore s" using sp k2_more_eqD(1) [of s1 s] by (simp add: same_pcbs_def)
  have pcb1: "get_pcb n s1 = Some b" using sp assms(3) by (simp add: same_pcbs_def)
  have "get_free_page_space s1 \<noteq> -1" using assms(8) fr by (simp add: get_free_page_space_def)
  from fetch_with_free_frame [OF pcb1 assms(5-7) this] assms(9) eq(1) obtain s2 where
    s2: "fetch_a_page n s1 = Some (True, s2)" "head s2 = head s1" "a2.more s2 = a2.more s1" "stdout s2 = stdout s1"
    by auto
  obtain m where m: "nat MAX_INT = Suc m" by (metis MAX_INT_def gr0_implies_Suc zero_less_nat_eq zero_less_numeral)
  have "execute_process parse n (nat MAX_INT) s1 = Some (Inr (False, s2))"
    using pcb1 assms(4) s2(1) by (simp add: m)
  moreover have q2: "head s2 = None" using s2(2) s1(2) by (simp add: queue_def)
  moreover have "\<not> active s2" using k2_a2_more_eqD(1) [OF s2(3)] eq(2) assms(2) by simp
  then have "scheduler_SJF parse s2 = Some (Inr s2)"
    using q2 by (subst scheduler_SJF.simps) (simp add: is_ready_empty_def)
  ultimately have "scheduler_SJF parse s = Some (Inr s2)"
    using ne s0(1) s1(1) by (subst scheduler_SJF.simps) (simp add: ready_queue_pop_shortest_job_def deref_def)
  moreover have "user_of s2 = user_of s"
    using s2(4) k2_a2_more_eqD(2) [OF s2(3)] eq(3) by (simp add: user_of_def)
  ultimately show ?thesis using q2 by (simp add: queue_def)
qed

definition faulting_kernel :: k2 where
  "faulting_kernel = a2.extend (rq.extend
     \<lparr>nodes = [1 \<mapsto> \<lparr>pcb = makePCB 1 Map.empty 0 (Some ''x''), next = None\<rparr>], head = Some 1\<rparr>
     \<lparr>framestore = [init_page], timer = 0, pid_counter = 2, backing_store_path = ''b'', files = Map.empty, stdout = []\<rparr>)
     \<lparr>active = False, in_background = False, varmemory = [], next_addr = 2\<rparr>"

theorem SJF_loses_faulting_process_witness:
  "\<exists>s'. scheduler_SJF log_parser faulting_kernel = Some (Inr s') \<and> queue s' [] \<and> user_of s' = ([], [])"
proof -
  have q: "queue faulting_kernel [1]" by (simp add: queue_def faulting_kernel_def a2.defs rq.defs)
  have r: "read_lines 1024 3 ''x'' = ([''x''], [])"
    by (simp add: numeral_3_eq_3 fgets_def newline_def c_string_def numeral_eq_Suc)
  have "\<not> active faulting_kernel" "get_pcb 1 faulting_kernel = Some (makePCB 1 Map.empty 0 (Some ''x''))"
    "get_free_page_space faulting_kernel \<noteq> -1" "int32 (timer faulting_kernel + 1)" "user_of faulting_kernel = ([], [])"
    by (simp_all add: faulting_kernel_def a2.defs rq.defs get_pcb_def get_free_page_space_def int32_def init_page_def
        user_of_def)
  with SJF_loses_faulting_process [OF q, of "makePCB 1 Map.empty 0 (Some ''x'')" "''x''", OF _ _ _ _ r]
  show ?thesis by (simp add: makePCB_def)
qed

text \<open>
  The aging scheduler chooses a process with the smallest job length score among all processes that
  are waiting, and keeps the others in the queue.
\<close>

theorem aging_chooses_shortest:
  assumes "queue s ps" "ps \<noteq> []" "\<forall>a\<in>set ps. score s a \<le> MAX_INT"
  shows "\<exists>n s' qs. aging_choose s = Some (n, s') \<and> queue s' qs \<and> mset (n # qs) = mset ps \<and> same_pcbs s s' \<and>
     (\<forall>a\<in>set ps. score s n \<le> score s a)"
proof -
  from assms(2) obtain c rest where ps: "ps = c # rest" by (cases ps) auto
  from pop_head_queue(2) [OF assms(1) [unfolded ps]] obtain s1 where
    s1: "ready_queue_pop_head s = Some (Some c, s1)" "queue s1 rest" "same_pcbs s s1" "nodes s1 = nodes s" by blast
  have sc: "score s1 = score s" using s1(3) by (simp add: score_def same_pcbs_def fun_eq_iff)
  obtain b where b: "get_pcb c s1 = Some b" "score s c = job_length_score b"
    using assms(1) ps s1(4) by (auto simp: queue_def score_def get_pcb_def)
  have sh: "ready_queue_get_shortest_job_score s1 = Some (Min (insert MAX_INT (score s ` set rest)))"
    using shortest_loop_chain [of s1 "head s1" rest MAX_INT] s1(2)
    by (simp add: ready_queue_get_shortest_job_score_def queue_def foldl_min sc)
  show ?thesis
  proof (cases "Min (insert MAX_INT (score s ` set rest)) < score s c")
    case False
    then have "aging_choose s = Some (c, s1)" using s1(1) sh b by (simp add: aging_choose_def deref_def)
    moreover have "score s c \<le> score s a" if "a \<in> set rest" for a
      using False that by (simp add: not_less)
    ultimately show ?thesis using s1 ps by (intro exI [of _ c] exI [of _ s1] exI [of _ rest]) auto
  next
    case True
    have ne: "rest \<noteq> []" using True assms(3) ps by auto
    have le: "\<forall>a\<in>set rest. score s1 a \<le> MAX_INT" using assms(3) ps sc by simp
    from promote_shortest_exists [OF s1(2) ne le] obtain m s2 xs n ys where
      m: "m = Min (score s1 ` set rest)" "ready_queue_promote m s1 = Some s2" "rest = xs @ n # ys" "score s1 n = m"
        "queue s2 (n # xs @ ys)" "same_pcbs s1 s2" by blast
    have min_eq: "Min (insert MAX_INT (score s ` set rest)) = m"
    proof -
      have "m \<in> score s1 ` set rest" using ne m(1) by simp
      then have "m \<le> MAX_INT" using le by auto
      moreover have "Min (insert MAX_INT (score s ` set rest)) = min MAX_INT m" using ne m(1) sc by simp
      ultimately show ?thesis by simp
    qed
    have c2: "nodes s2 c \<noteq> None" "c \<notin> set (n # xs @ ys)"
      using assms(1) ps m(3,6) s1(4) same_pcbs_allocated [of s1 s2 c] by (auto simp: queue_def)
    then obtain nd where "nodes s2 c = Some nd" by blast
    from add_to_tail_queue [OF m(5) this c2(2)] obtain s3 where
      s3: "ready_queue_add_to_tail c s2 = Some s3" "queue s3 (n # xs @ ys @ [c])" "same_pcbs s2 s3" by auto
    from pop_head_queue(2) [OF s3(2)] obtain s4 where
      s4: "ready_queue_pop_head s3 = Some (Some n, s4)" "queue s4 (xs @ ys @ [c])" "same_pcbs s3 s4" by blast
    have "aging_choose s = Some (n, s4)"
      using s1(1) sh b True m(2) s3(1) s4(1) min_eq by (simp add: aging_choose_def deref_def)
    moreover have "same_pcbs s s4" using s1(3) m(6) s3(3) s4(3) same_pcbs_trans by blast
    moreover have "score s n \<le> score s a" if "a \<in> set ps" for a
      using that ps m(1,4) sc True min_eq by auto
    ultimately show ?thesis using s4(2) m(3) ps by (intro exI [of _ n] exI [of _ s4] exI [of _ "xs @ ys @ [c]"]) auto
  qed
qed

theorem aging_chooses_shortest_witness:
  "\<exists>n s'. aging_choose (rq.extend (example_queue 3 1 2) (rq.more example_kernel)) = Some (n, s')"
proof -
  let ?s = "rq.extend (example_queue 3 1 2) (rq.more example_kernel)"
  have "queue ?s [1, 2, 3]" by (simp add: queue_def example_queue_def rq.defs)
  moreover have "\<forall>a\<in>set [1, 2, 3]. score ?s a \<le> MAX_INT"
    by (simp add: score_def get_pcb_def example_queue_def example_pcb_def rq.defs MAX_INT_def)
  ultimately show ?thesis using aging_chooses_shortest [of ?s "[1, 2, 3]"] by auto
qed

end
