(* ===== verification/Host_Files.thy ===== *)
theory Host_Files
  imports Prelude "HOL-Library.Sublist"
begin

text \<open>
  The removal of a directory of the host, \<^verbatim>\<open>rm_rf\<close> of \<^verbatim>\<open>a2/shell.c\<close>, on the calls it makes to the host. It returns on every
  host that refuses to open paths over some length, links that form a cycle included. On a host that keeps its files as a tree (locale
  \<open>posix_tree\<close>, interpreted as \<open>th\<close>) it removes the directory and nothing else.
\<close>

section \<open>Removing a directory\<close>

text \<open>
  \<^verbatim>\<open>readdir\<close> gives the entries that were there when the directory was opened: those that are removed meanwhile were read before.
\<close>

definition rm_entry ::
    "host \<Rightarrow> (string \<Rightarrow> hostfiles \<Rightarrow> (int \<times> hostfiles) option) \<Rightarrow> string \<Rightarrow> string \<Rightarrow> hostfiles \<Rightarrow> (int \<times> hostfiles) option" where
  "rm_entry h rm path d_name fs =
     (let len = length path + length d_name + 2;
          buf = path @ ''/'' @ d_name
      in if \<not> hmalloc h len then Some (- 1, fs)
         else if fst (hcall h (Stat buf) fs) \<noteq> 0 then Some (- 1, fs)
         else if fst (hcall h (Is_dir buf) fs) \<noteq> 0 then rm buf fs
         else Some (hcall h (Unlink buf) fs))"

fun rm_loop ::
    "host \<Rightarrow> (string \<Rightarrow> hostfiles \<Rightarrow> (int \<times> hostfiles) option) \<Rightarrow> string \<Rightarrow> string list \<Rightarrow> hostfiles \<Rightarrow> (int \<times> hostfiles) option" where
  "rm_loop h rm path [] fs = Some (0, fs)"
| "rm_loop h rm path (d_name # ps) fs =
     (if d_name = ''.'' \<or> d_name = ''..'' then rm_loop h rm path ps fs
      else do { (r2, fs1) \<leftarrow> rm_entry h rm path d_name fs;
                if r2 \<noteq> 0 then Some (r2, fs1) else rm_loop h rm path ps fs1 })"

lemma rm_loop_mono [partial_function_mono]:
  assumes "\<And>p fs. mono_option (\<lambda>f. rm f p fs)"
  shows "mono_option (\<lambda>f. rm_loop h (rm f) path ps fs)"
proof (induction ps arbitrary: fs)
  case Nil
  show ?case by (simp add: option.const_mono)
next
  case (Cons n ps)
  have "mono_option (\<lambda>f. rm_entry h (rm f) path n fs)"
    unfolding rm_entry_def Let_def by (intro partial_function_mono assms)
  then show ?case
    unfolding rm_loop.simps case_prod_beta by (intro partial_function_mono Cons.IH)
qed

partial_function (option) rm_rf :: "host \<Rightarrow> string \<Rightarrow> hostfiles \<Rightarrow> (int \<times> hostfiles) option" where
  "rm_rf h path fs =
     (case hdir h path fs of
        None \<Rightarrow> Some (- 1, fs)
      | Some ps \<Rightarrow> Option.bind (rm_loop h (\<lambda>p fs. rm_rf h p fs) path ps fs)
                    (\<lambda>rf. if fst rf = 0 then Some (hcall h (Rmdir path) (snd rf)) else Some rf))"

declare rm_rf.simps [code]

section \<open>It returns\<close>

lemma rm_loop_returns:
  assumes "\<And>n fs. \<exists>y. rm (path @ ''/'' @ n) fs = Some y"
  shows "\<exists>y. rm_loop h rm path ps fs = Some y"
proof (induction ps arbitrary: fs)
  case (Cons n ps)
  obtain r fs1 where "rm_entry h rm path n fs = Some (r, fs1)"
    using assms by (fastforce simp: rm_entry_def Let_def)
  then show ?case using Cons by simp
qed simp

text \<open>
  C36. \<^verbatim>\<open>rm_rf\<close> returns on every host that refuses to open a path over \<open>L\<close> characters, whatever its directories
  contain: also when links lead back to a directory above.
\<close>

theorem rm_rf_returns:
  assumes "\<And>p fs. L < length p \<Longrightarrow> hdir h p fs = None"
  shows "\<exists>r fs'. rm_rf h path fs = Some (r, fs')"
proof (induction "Suc L - length path" arbitrary: path fs rule: less_induct)
  case less
  show ?case
  proof (cases "hdir h path fs")
    case (Some ps)
    with assms have "length path \<le> L" by (metis leI option.distinct(1))
    then have "\<exists>y. rm_rf h (path @ ''/'' @ n) fs = Some y" for n fs
      using less by fastforce
    then obtain rf where "rm_loop h (rm_rf h) path ps fs = Some rf"
      using rm_loop_returns [of "rm_rf h" path] by metis
    then show ?thesis using Some by (cases rf) (simp add: rm_rf.simps)
  qed (simp add: rm_rf.simps)
qed

text \<open>A host where every directory contains a link to itself, and paths over 9 characters are refused.\<close>

definition link_host :: host where
  "link_host =
     \<lparr>hcall = \<lambda>c fs. (case c of Stat p \<Rightarrow> (0, fs) | Is_dir p \<Rightarrow> (1, fs) | _ \<Rightarrow> (- 1, fs)),
      hdir = \<lambda>p fs. if length p \<le> 9 then Some [''.'', ''..'', ''l''] else None, hmalloc = \<lambda>n. True\<rparr>"

theorem rm_rf_returns_witness:
  "(\<exists>r fs'. rm_rf link_host ''a'' Map.empty = Some (r, fs')) \<and> fst (hcall link_host (Is_dir ''a/l/l'') Map.empty) = 1"
proof
  have "hdir link_host p fs = None" if "9 < length p" for p fs
    using that by (simp add: link_host_def)
  then show "\<exists>r fs'. rm_rf link_host ''a'' Map.empty = Some (r, fs')" by (rule rm_rf_returns [of 9])
qed (simp add: link_host_def)

section \<open>A host whose files form a tree\<close>

text \<open>A directory \<open>p\<close> is the path \<open>p\<close> followed by a slash; it has an entry of its own, so that it can be empty.\<close>

definition below :: "string \<Rightarrow> hostfiles \<Rightarrow> string set" where
  "below p fs = {k \<in> dom fs. prefix (p @ ''/'') k}"

definition child_of :: "string \<Rightarrow> string \<Rightarrow> string" where
  "child_of p k = takeWhile (\<lambda>c. c \<noteq> CHR ''/'') (drop (Suc (length p)) k)"

definition children :: "string \<Rightarrow> hostfiles \<Rightarrow> string set" where
  "children p fs = child_of p ` (below p fs - {p @ ''/''})"

text \<open>Every directory on the way from \<open>p\<close> to an entry below it exists and is not a file as well, and no name is one of the two dots.\<close>

definition tidy_key :: "string \<Rightarrow> hostfiles \<Rightarrow> string \<Rightarrow> bool" where
  "tidy_key p fs k =
     list_all (\<lambda>i. k ! i = CHR ''/'' \<longrightarrow>
        fs (take (Suc i) k) \<noteq> None \<and> fs (take i k) = None \<and> child_of (take i k) k \<notin> {''.'', ''..''}) [length p..<length k]"

definition tidy :: "string \<Rightarrow> hostfiles \<Rightarrow> bool" where
  "tidy p fs = (\<forall>k\<in>below p fs. tidy_key p fs k)"

text \<open>What is left of \<open>fs\<close> without the directory \<open>p\<close>, and without the entries \<open>M\<close> of \<open>p\<close>.\<close>

definition clear :: "string \<Rightarrow> hostfiles \<Rightarrow> hostfiles" where
  "clear p fs = (\<lambda>k. if prefix (p @ ''/'') k then None else fs k)"

definition purge :: "string \<Rightarrow> string set \<Rightarrow> hostfiles \<Rightarrow> hostfiles" where
  "purge p M fs = (\<lambda>k. if \<exists>n\<in>M. k = p @ ''/'' @ n \<or> prefix (p @ ''/'' @ n @ ''/'') k then None else fs k)"

lemma belowD: "k \<in> below p fs \<Longrightarrow> \<exists>r. k = p @ ''/'' @ r \<and> p @ ''/'' @ r \<in> dom fs"
  by (auto simp: below_def prefix_def)

lemma tidyD:
  assumes "tidy p fs" "q @ ''/'' @ r \<in> dom fs" "prefix (p @ ''/'') (q @ ''/'' @ r)" "length p \<le> length q"
  shows "q @ ''/'' \<in> dom fs" "fs q = None" "takeWhile (\<lambda>c. c \<noteq> CHR ''/'') r \<notin> {''.'', ''..''}"
proof -
  have "tidy_key p fs (q @ ''/'' @ r)" using assms by (auto simp: tidy_def below_def)
  moreover have "length q \<in> set [length p..<length (q @ ''/'' @ r)]" using assms by simp
  ultimately have "fs (take (Suc (length q)) (q @ ''/'' @ r)) \<noteq> None \<and> fs q = None \<and> child_of q (q @ ''/'' @ r) \<notin> {''.'', ''..''}"
    unfolding tidy_key_def list_all_iff by (fastforce simp: nth_append)
  then show "q @ ''/'' \<in> dom fs" "fs q = None" "takeWhile (\<lambda>c. c \<noteq> CHR ''/'') r \<notin> {''.'', ''..''}"
    by (auto simp: child_of_def)
qed

lemma tidy_root:
  assumes "tidy p fs" "below p fs \<noteq> {}"
  shows "p @ ''/'' \<in> dom fs" "fs p = None"
proof -
  obtain r where "p @ ''/'' @ r \<in> dom fs" using assms(2) belowD by blast
  then show "p @ ''/'' \<in> dom fs" "fs p = None"
    using tidyD [OF assms(1), of p r] by (auto simp: prefix_def)
qed

lemma child_props:
  assumes "tidy p fs" "n \<in> children p fs"
  shows "CHR ''/'' \<notin> set n" "n \<notin> {''.'', ''..''}" "n \<noteq> []"
    "fs (p @ ''/'' @ n) \<noteq> None \<or> below (p @ ''/'' @ n) fs \<noteq> {}"
proof -
  obtain k where k: "k \<in> below p fs" "k \<noteq> p @ ''/''" "n = child_of p k"
    using assms(2) by (auto simp: children_def)
  then obtain r where r: "k = p @ ''/'' @ r" "p @ ''/'' @ r \<in> dom fs" using belowD by blast
  with k have n: "n = takeWhile (\<lambda>c. c \<noteq> CHR ''/'') r" and ne: "r \<noteq> []"
    by (auto simp: child_of_def)
  show "CHR ''/'' \<notin> set n" unfolding n using set_takeWhileD by fastforce
  show "n \<notin> {''.'', ''..''}" unfolding n using tidyD(3) [OF assms(1) r(2)] by (simp add: prefix_def)
  have split: "r = n \<or> (\<exists>r'. r = n @ ''/'' @ r')"
  proof (cases "dropWhile (\<lambda>c. c \<noteq> CHR ''/'') r")
    case Nil
    then show ?thesis using n by (metis append_Nil2 takeWhile_dropWhile_id)
  next
    case (Cons c r')
    then have "c = CHR ''/''" by (simp add: dropWhile_eq_Cons_conv)
    have "r = n @ c # r'"
      using takeWhile_dropWhile_id [of "\<lambda>c. c \<noteq> CHR ''/''" r, symmetric] unfolding Cons n [symmetric] .
    then show ?thesis using \<open>c = _\<close> by simp
  qed
  have "p @ ''/'' @ n @ ''/'' @ r' \<in> dom fs \<Longrightarrow> below (p @ ''/'' @ n) fs \<noteq> {}" for r'
    by (auto simp: below_def prefix_def)
  then show "fs (p @ ''/'' @ n) \<noteq> None \<or> below (p @ ''/'' @ n) fs \<noteq> {}"
    using r(2) split by auto
  show "n \<noteq> []"
  proof
    assume "n = []"
    then obtain r' where "r = ''/'' @ r'" using split ne by auto
    then have "(p @ ''/'') @ ''/'' @ r' \<in> dom fs" using r(2) by simp
    from tidyD(2) [OF assms(1) this] have "fs (p @ ''/'') = None" by (simp add: prefix_def)
    moreover have "p @ ''/'' \<in> dom fs" using tidy_root(1) [OF assms(1)] k(1) by auto
    ultimately show False by auto
  qed
qed

lemma entry_tail:
  assumes "k = p @ ''/'' @ n \<or> prefix (p @ ''/'' @ n @ ''/'') k" "CHR ''/'' \<notin> set n"
  shows "\<exists>r. k = p @ ''/'' @ r \<and> n = takeWhile (\<lambda>c. c \<noteq> CHR ''/'') r"
proof -
  obtain r where r: "k = p @ ''/'' @ n @ r" "r = [] \<or> (\<exists>r'. r = CHR ''/'' # r')"
    using assms(1) by (auto simp: prefix_def)
  have "takeWhile (\<lambda>c. c \<noteq> CHR ''/'') (n @ r) = n @ takeWhile (\<lambda>c. c \<noteq> CHR ''/'') r"
    using assms(2) by (intro takeWhile_append2) auto
  moreover have "takeWhile (\<lambda>c. c \<noteq> CHR ''/'') r = []" using r(2) by auto
  ultimately show ?thesis using r(1) by (intro exI [of _ "n @ r"]) simp
qed

lemma purge_same:
  assumes "n \<notin> M" "\<forall>m\<in>insert n M. CHR ''/'' \<notin> set m" "k = p @ ''/'' @ n \<or> prefix (p @ ''/'' @ n @ ''/'') k"
  shows "purge p M fs k = fs k"
proof -
  have False if "m \<in> M" "k = p @ ''/'' @ m \<or> prefix (p @ ''/'' @ m @ ''/'') k" for m
    using entry_tail [OF assms(3)] entry_tail [OF that(2)] that(1) assms(1,2) by auto
  then show ?thesis by (auto simp: purge_def)
qed

lemma purge_below:
  assumes "n \<notin> M" "\<forall>m\<in>insert n M. CHR ''/'' \<notin> set m"
  shows "below (p @ ''/'' @ n) (purge p M fs) = below (p @ ''/'' @ n) fs"
  using purge_same [OF assms, of _ p fs] by (auto simp: below_def dom_def)

lemma tidy_sub:
  assumes tidy: "tidy p fs" and n: "n \<notin> M" "\<forall>m\<in>insert n M. CHR ''/'' \<notin> set m"
  shows "tidy (p @ ''/'' @ n) (purge p M fs)"
  unfolding tidy_def purge_below [OF n]
proof
  let ?q = "p @ ''/'' @ n"
  fix k assume k: "k \<in> below ?q fs"
  then have "k \<in> below p fs" by (auto simp: below_def prefix_def)
  then have key: "tidy_key p fs k" using tidy by (simp add: tidy_def)
  have same: "purge p M fs (take i k) = fs (take i k) \<and> purge p M fs (take (Suc i) k) = fs (take (Suc i) k)"
    if "i \<in> set [length ?q..<length k]" for i
  proof -
    have "take j k = ?q \<or> prefix (?q @ ''/'') (take j k)" if "length ?q \<le> j" for j
    proof -
      obtain r where "k = ?q @ ''/'' @ r" using k belowD by blast
      then have "take j k = ?q @ take (j - length ?q) (CHR ''/'' # r)" using that by (simp add: take_append take_Cons' not_less_eq_eq)
      then show ?thesis by (cases "j - length ?q") (auto simp: prefix_def)
    qed
    then show ?thesis using that purge_same [OF n, of "take i k" p fs] purge_same [OF n, of "take (Suc i) k" p fs] by simp
  qed
  show "tidy_key ?q (purge p M fs) k"
    using key same unfolding tidy_key_def list_all_iff by auto
qed

lemma clear_purge:
  assumes "n \<notin> M" "\<forall>m\<in>insert n M. CHR ''/'' \<notin> set m" "fs (p @ ''/'' @ n) = None"
  shows "clear (p @ ''/'' @ n) (purge p M fs) = purge p (insert n M) fs"
  using assms by (auto simp: clear_def purge_def fun_eq_iff)

lemma delete_purge:
  assumes "n \<notin> M" "\<forall>m\<in>insert n M. CHR ''/'' \<notin> set m" "below (p @ ''/'' @ n) fs = {}"
  shows "(purge p M fs)(p @ ''/'' @ n := None) = purge p (insert n M) fs"
proof -
  have "fs k = None" if "prefix (p @ ''/'' @ n @ ''/'') k" for k
    using assms(3) that by (auto simp: below_def)
  then show ?thesis by (auto simp: purge_def fun_eq_iff)
qed

lemma purge_children:
  assumes "tidy p fs" "below p fs \<noteq> {}"
  shows "below p (purge p (children p fs) fs) = {p @ ''/''}"
    and "(purge p (children p fs) fs)(p @ ''/'' := None) = clear p fs"
proof -
  have gone: "purge p (children p fs) fs (p @ ''/'' @ r) = None" if "r \<noteq> []" for r
  proof (cases "fs (p @ ''/'' @ r)")
    case (Some c)
    let ?n = "takeWhile (\<lambda>c. c \<noteq> CHR ''/'') r"
    have "?n \<in> children p fs"
      using Some that by (auto simp: children_def below_def child_of_def prefix_def intro!: image_eqI [of _ _ "p @ ''/'' @ r"])
    moreover have "r = ?n \<or> prefix (?n @ ''/'') r"
    proof (cases "dropWhile (\<lambda>c. c \<noteq> CHR ''/'') r")
      case Nil
      then show ?thesis by (metis append_Nil2 takeWhile_dropWhile_id)
    next
      case (Cons c r')
      then have "c = CHR ''/''" by (simp add: dropWhile_eq_Cons_conv)
      have "r = ?n @ c # r'"
        using takeWhile_dropWhile_id [of "\<lambda>c. c \<noteq> CHR ''/''" r, symmetric] unfolding Cons .
      then show ?thesis using \<open>c = _\<close> by (metis append.assoc append_Cons append_Nil prefixI)
    qed
    ultimately show ?thesis by (force simp: purge_def prefix_def)
  qed (simp add: purge_def)
  have "[] \<notin> children p fs" using child_props(3) [OF assms(1)] by blast
  then have root: "purge p (children p fs) fs (p @ ''/'') = fs (p @ ''/'')"
    by (auto simp: purge_def prefix_def)
  show "below p (purge p (children p fs) fs) = {p @ ''/''}"
    using gone root tidy_root(1) [OF assms] by (fastforce simp: below_def prefix_def dom_def)
  show "(purge p (children p fs) fs)(p @ ''/'' := None) = clear p fs"
  proof
    fix k
    show "((purge p (children p fs) fs)(p @ ''/'' := None)) k = clear p fs k"
    proof (cases "prefix (p @ ''/'') k")
      case True
      then obtain r where "k = p @ ''/'' @ r" by (auto simp: prefix_def)
      then show ?thesis using gone [of r] by (cases "r = []") (auto simp: clear_def)
    next
      case False
      then have "purge p (children p fs) fs k = fs k" by (auto simp: purge_def prefix_def)
      then show ?thesis using False by (auto simp: clear_def)
    qed
  qed
qed

locale posix_tree =
  fixes h :: host and U :: "string set"
  assumes finite_paths: "finite U"
    and memory: "hmalloc h n"
    and opens: "dom fs \<subseteq> U \<Longrightarrow> below p fs \<noteq> {} \<Longrightarrow>
          \<exists>ns. hdir h p fs = Some ns \<and> distinct ns \<and> set ns = {''.'', ''..''} \<union> children p fs"
    and stat: "dom fs \<subseteq> U \<Longrightarrow> fst (hcall h (Stat p) fs) = 0 \<longleftrightarrow> fs p \<noteq> None \<or> below p fs \<noteq> {}"
    and is_dir: "dom fs \<subseteq> U \<Longrightarrow> fst (hcall h (Is_dir p) fs) \<noteq> 0 \<longleftrightarrow> below p fs \<noteq> {}"
    and access: "dom fs \<subseteq> U \<Longrightarrow> hcall h (Access p) fs = (if fs p \<noteq> None \<or> below p fs \<noteq> {} then 0 else - 1, fs)"
    and unlink: "dom fs \<subseteq> U \<Longrightarrow> fs p \<noteq> None \<Longrightarrow> below p fs = {} \<Longrightarrow> hcall h (Unlink p) fs = (0, fs(p := None))"
    and rmdir: "dom fs \<subseteq> U \<Longrightarrow> below p fs = {p @ ''/''} \<Longrightarrow> hcall h (Rmdir p) fs = (0, fs(p @ ''/'' := None))"
    and mkdir: "dom fs \<subseteq> U \<Longrightarrow> p @ ''/'' \<in> U \<Longrightarrow> fs p = None \<Longrightarrow> below p fs = {} \<Longrightarrow>
          hcall h (Mkdir p) fs = (0, fs(p @ ''/'' := Some []))"
begin

lemma purge_dom: "dom fs \<subseteq> U \<Longrightarrow> dom (purge p M fs) \<subseteq> U"
  by (auto simp: purge_def dom_def)

lemma below_sub:
  assumes "dom fs \<subseteq> U" "tidy p fs" "n \<in> children p fs"
  shows "card (below (p @ ''/'' @ n) fs) < card (below p fs)"
proof (rule psubset_card_mono)
  show "finite (below p fs)"
    using finite_subset [OF _ finite_paths] assms(1) by (auto simp: below_def)
  have "p @ ''/'' \<in> below p fs" "p @ ''/'' \<notin> below (p @ ''/'' @ n) fs"
    using tidy_root(1) [OF assms(2)] assms(3) by (auto simp: children_def below_def prefix_def)
  moreover have "below (p @ ''/'' @ n) fs \<subseteq> below p fs" by (auto simp: below_def prefix_def)
  ultimately show "below (p @ ''/'' @ n) fs \<subset> below p fs" by blast
qed

lemma entry_removed:
  assumes dom: "dom fs \<subseteq> U" and tidy: "tidy p fs" and n: "n \<in> children p fs" "n \<notin> M" "M \<subseteq> children p fs"
    and rm: "\<And>q fs. dom fs \<subseteq> U \<Longrightarrow> tidy q fs \<Longrightarrow> below q fs \<noteq> {} \<Longrightarrow>
               card (below q fs) < card (below p fs0) \<Longrightarrow> rm q fs = Some (0, clear q fs)"
    and card: "card (below (p @ ''/'' @ n) fs) < card (below p fs0)"
  shows "rm_entry h rm p n (purge p M fs) = Some (0, purge p (insert n M) fs)"
proof -
  let ?q = "p @ ''/'' @ n" and ?fs = "purge p M fs"
  have slash: "\<forall>m\<in>insert n M. CHR ''/'' \<notin> set m" using n child_props(1) [OF tidy] by auto
  have pf: "?fs ?q = fs ?q" using purge_same [OF n(2) slash] by simp
  have bl: "below ?q ?fs = below ?q fs" by (rule purge_below [OF n(2) slash])
  have ex: "fs ?q \<noteq> None \<or> below ?q fs \<noteq> {}" by (rule child_props(4) [OF tidy n(1)])
  have D: "dom ?fs \<subseteq> U" by (rule purge_dom [OF dom])
  show ?thesis
  proof (cases "below ?q fs = {}")
    case True
    then have "hcall h (Unlink ?q) ?fs = (0, ?fs(?q := None))"
      using unlink [OF D, of ?q] ex pf bl by auto
    then show ?thesis
      using True ex stat [OF D, of ?q] is_dir [OF D, of ?q] pf bl delete_purge [OF n(2) slash True]
      by (simp add: rm_entry_def memory)
  next
    case False
    have t: "tidy ?q ?fs" by (rule tidy_sub [OF tidy n(2) slash])
    have "rm ?q ?fs = Some (0, clear ?q ?fs)"
      using rm [OF D t] False bl card by simp
    moreover have "fs ?q = None" using tidy_root(2) [OF t] False bl pf by simp
    ultimately show ?thesis
      using False stat [OF D, of ?q] is_dir [OF D, of ?q] bl clear_purge [OF n(2) slash]
      by (simp add: rm_entry_def memory)
  qed
qed

lemma entries_removed:
  assumes dom: "dom fs \<subseteq> U" and tidy: "tidy p fs"
    and rm: "\<And>q fs'. dom fs' \<subseteq> U \<Longrightarrow> tidy q fs' \<Longrightarrow> below q fs' \<noteq> {} \<Longrightarrow>
               card (below q fs') < card (below p fs) \<Longrightarrow> rm q fs' = Some (0, clear q fs')"
  shows "M \<subseteq> children p fs \<Longrightarrow> distinct ns \<Longrightarrow> set ns \<inter> M = {} \<Longrightarrow> set ns \<subseteq> {''.'', ''..''} \<union> children p fs \<Longrightarrow>
    rm_loop h rm p ns (purge p M fs) = Some (0, purge p (M \<union> (set ns - {''.'', ''..''})) fs)"
proof (induction ns arbitrary: M)
  case (Cons n ns)
  show ?case
  proof (cases "n \<in> {''.'', ''..''}")
    case True
    then have "set (n # ns) - {''.'', ''..''} = set ns - {''.'', ''..''}" by auto
    then show ?thesis using True Cons by simp
  next
    case False
    then have n: "n \<in> children p fs" using Cons.prems by auto
    have "rm_entry h rm p n (purge p M fs) = Some (0, purge p (insert n M) fs)"
      by (rule entry_removed [OF dom tidy n _ _ rm below_sub [OF dom tidy n]]) (use Cons.prems in auto)
    moreover have "rm_loop h rm p ns (purge p (insert n M) fs) = Some (0, purge p (insert n M \<union> (set ns - {''.'', ''..''})) fs)"
      using Cons.prems n by (intro Cons.IH) auto
    moreover have "insert n M \<union> (set ns - {''.'', ''..''}) = M \<union> (set (n # ns) - {''.'', ''..''})" using False by auto
    ultimately show ?thesis using False by simp
  qed
qed simp

lemma removes_tree:
  assumes "dom fs \<subseteq> U" "tidy p fs" "below p fs \<noteq> {}"
  shows "rm_rf h p fs = Some (0, clear p fs)"
  using assms
proof (induction "card (below p fs)" arbitrary: p fs rule: less_induct)
  case less
  obtain ns where ns: "hdir h p fs = Some ns" "distinct ns" "set ns = {''.'', ''..''} \<union> children p fs"
    using opens [OF less.prems(1,3)] by blast
  have none: "purge p {} fs = fs" by (simp add: purge_def)
  have dots: "set ns - {''.'', ''..''} = children p fs"
    using child_props(2) [OF less.prems(2)] ns(3) by auto
  have "rm_loop h (rm_rf h) p ns (purge p {} fs) = Some (0, purge p ({} \<union> (set ns - {''.'', ''..''})) fs)"
    by (rule entries_removed [OF less.prems(1,2) less.hyps]) (use ns in auto)
  then have "rm_loop h (rm_rf h) p ns fs = Some (0, purge p (children p fs) fs)"
    using none dots by simp
  then show ?case
    using ns(1) rmdir [OF purge_dom [OF less.prems(1)] purge_children(1) [OF less.prems(2,3)]]
      purge_children(2) [OF less.prems(2,3)]
    by (simp add: rm_rf.simps)
qed

end

text \<open>A host with the paths \<open>U\<close>, and what its calls do to them.\<close>

definition paths_below :: "string list \<Rightarrow> string \<Rightarrow> hostfiles \<Rightarrow> string list" where
  "paths_below U p fs = filter (\<lambda>k. fs k \<noteq> None \<and> prefix (p @ ''/'') k) U"

definition tree_call :: "string list \<Rightarrow> host_call \<Rightarrow> hostfiles \<Rightarrow> int \<times> hostfiles" where
  "tree_call U c fs =
     (case c of
        Stat p \<Rightarrow> (if fs p \<noteq> None \<or> paths_below U p fs \<noteq> [] then 0 else - 1, fs)
      | Access p \<Rightarrow> (if fs p \<noteq> None \<or> paths_below U p fs \<noteq> [] then 0 else - 1, fs)
      | Is_dir p \<Rightarrow> (if paths_below U p fs \<noteq> [] then 1 else 0, fs)
      | Unlink p \<Rightarrow> if fs p \<noteq> None then (0, fs(p := None)) else (- 1, fs)
      | Rmdir p \<Rightarrow> if set (paths_below U p fs) = {p @ ''/''} then (0, fs(p @ ''/'' := None)) else (- 1, fs)
      | Mkdir p \<Rightarrow> if fs p = None \<and> paths_below U p fs = [] then (0, fs(p @ ''/'' := Some [])) else (- 1, fs)
      | _ \<Rightarrow> (- 1, fs))"

definition tree_dir :: "string list \<Rightarrow> string \<Rightarrow> hostfiles \<Rightarrow> string list option" where
  "tree_dir U p fs =
     (if paths_below U p fs = [] then None
      else Some (remdups ([''.'', ''..''] @ map (child_of p) (filter (\<lambda>k. k \<noteq> p @ ''/'') (paths_below U p fs)))))"

definition tree_host :: "string list \<Rightarrow> host" where
  "tree_host U = \<lparr>hcall = tree_call U, hdir = tree_dir U, hmalloc = \<lambda>n. True\<rparr>"

lemma paths_below_set:
  assumes "dom fs \<subseteq> set U"
  shows "set (paths_below U p fs) = below p fs" "paths_below U p fs = [] \<longleftrightarrow> below p fs = {}"
proof -
  show "set (paths_below U p fs) = below p fs" using assms by (auto simp: paths_below_def below_def dom_def)
  then show "paths_below U p fs = [] \<longleftrightarrow> below p fs = {}" by (metis set_empty)
qed

lemma tree_lists:
  assumes "dom fs \<subseteq> set U" "below p fs \<noteq> {}"
  shows "\<exists>ns. tree_dir U p fs = Some ns \<and> distinct ns \<and> set ns = {''.'', ''..''} \<union> children p fs"
proof (intro exI conjI)
  let ?ns = "remdups ([''.'', ''..''] @ map (child_of p) (filter (\<lambda>k. k \<noteq> p @ ''/'') (paths_below U p fs)))"
  show "tree_dir U p fs = Some ?ns" using paths_below_set [OF assms(1), of p] assms(2) by (simp add: tree_dir_def)
  show "distinct ?ns" by (rule distinct_remdups)
  show "set ?ns = {''.'', ''..''} \<union> children p fs"
    using paths_below_set [OF assms(1), of p] by (auto simp: children_def)
qed

interpretation th: posix_tree "tree_host U" "set U" for U
  by unfold_locales (insert tree_lists, simp_all add: tree_host_def tree_call_def paths_below_set)


definition example_files :: hostfiles where
  "example_files = [''b/'' \<mapsto> [], ''b/d/'' \<mapsto> [], ''b/d/f'' \<mapsto> ''x'', ''b/g'' \<mapsto> ''y'', ''bc'' \<mapsto> ''z'']"

definition example_paths :: "string list" where
  "example_paths = [''b/'', ''b/d/'', ''b/d/f'', ''b/g'', ''bc'']"

lemma example_files_tidy:
  "dom example_files \<subseteq> set example_paths" "tidy ''b'' example_files" "below ''b'' example_files \<noteq> {}"
proof -
  have dom: "dom example_files = {''b/'', ''b/d/'', ''b/d/f'', ''b/g'', ''bc''}"
    by (auto simp: example_files_def)
  then show "dom example_files \<subseteq> set example_paths" by (simp add: example_paths_def)
  have b: "below ''b'' example_files = {''b/'', ''b/d/'', ''b/d/f'', ''b/g''}"
    unfolding below_def dom by auto
  then show "below ''b'' example_files \<noteq> {}" by simp
  show "tidy ''b'' example_files"
    unfolding tidy_def b
    by (simp add: tidy_key_def example_files_def child_of_def upt_rec)
qed


end
