(* ===== verification/Shell2.thy ===== *)
theory Shell2
  imports Scheduler Shell1 Host_Files
begin

text \<open>
  The shell and the interpreter of the second program (\<^verbatim>\<open>a2/shell.c\<close>, \<^verbatim>\<open>a2/interpreter.c\<close>). \<^verbatim>\<open>parseInput\<close> splits a
  line at blanks and semicolons and calls the interpreter for each command; it may loop for ever,
  so it is a \<^theory_text>\<open>partial_function\<close>. The interpreter starts the schedulers of the kernel, which call
  \<^verbatim>\<open>parseInput\<close> for the lines of the scripts; the depth of this recursion is bounded by fuel.
\<close>

section \<open>Splitting a line into commands\<close>

text \<open>The array \<open>words\<close> (at most 100 entries) keeps the words of earlier commands of the line behind the
  \<open>w\<close> words of the current one.\<close>

definition put_word :: "nat \<Rightarrow> string \<Rightarrow> string list \<Rightarrow> string list" where
  "put_word w x words = (if w < length words then words[w := x] else words @ [x])"

definition strip_args :: "nat \<Rightarrow> string list \<Rightarrow> string list" where
  "strip_args w words =
     (if 1 \<le> w \<and> w \<le> 7 then map strip_eol (take w words) @ drop w words else words)"

type_synonym 'a a2_interp = "string list \<Rightarrow> nat \<Rightarrow> 'a k2_scheme \<Rightarrow> (int, 'a k2_scheme) outcome"

partial_function (option) a2_parse_loop ::
    "'a a2_interp \<Rightarrow> nat \<Rightarrow> string \<Rightarrow> string list \<Rightarrow> nat \<Rightarrow> 'a k2_scheme \<Rightarrow> (int, 'a k2_scheme) outcome" where
  "a2_parse_loop interp a r words w s =
     (if a < 1000 \<and> r \<noteq> [] \<and> hd r \<noteq> newline then
        (let blanks = length (takeWhile (\<lambda>c. c = CHR '' '') r);
             a1 = a + blanks; r1 = drop blanks r;
             word = take (1000 - a1) (takeWhile (\<lambda>c. \<not> is_sep c) r1);
             a2 = a1 + length word; r2 = drop (length word) r1
         in if r1 = [] then interp words w s
            else if length word \<ge> 200 then None
            else if word = [] then a2_parse_loop interp a2 r2 words w s
            else if w \<ge> 100 then None
            else if r2 \<noteq> [] \<and> hd r2 = CHR '';''
            then Option.bind (interp (put_word w word words) (w + 1) s) (\<lambda>res.
                   case res of
                     Inl final \<Rightarrow> Some (Inl final)
                   | Inr es \<Rightarrow>
                       if fst es = -1 then Some (Inr es)
                       else let next = skip_blanks (a2 + 1) (tl r2)
                            in a2_parse_loop interp (fst next) (snd next)
                                 (strip_args (w + 1) (put_word w word words)) 0 (snd es))
            else a2_parse_loop interp (a2 + 1) (tl r2) (put_word w word words) (w + 1) s)
      else interp words w s)"

declare a2_parse_loop.simps [code]

definition a2_parseInput_with :: "'a a2_interp \<Rightarrow> string \<Rightarrow> 'a k2_scheme \<Rightarrow> (int, 'a k2_scheme) outcome" where
  "a2_parseInput_with interp ui s =
     (let start = skip_blanks 0 ui in a2_parse_loop interp (fst start) (snd start) [] 0 s)"

section \<open>Commands\<close>

definition a2_error_msgs :: "string list" where
  "a2_error_msgs = [''no error'', ''file does not exist'', ''file could not be loaded'', ''no space left in shell memory'',
     ''ready queue is full'', ''scheduling policy error'', ''too many tokens'', ''too few tokens'', ''non-alphanumeric token'',
     ''unknown name'', ''cd'', ''mkdir'']"

definition TOO_MANY_TOKENS :: nat where "TOO_MANY_TOKENS = 6"
definition TOO_FEW_TOKENS :: nat where "TOO_FEW_TOKENS = 7"
definition BAD_COMMAND :: nat where "BAD_COMMAND = 9"
definition ERROR_CD :: nat where "ERROR_CD = 10"
definition ERROR_MKDIR :: nat where "ERROR_MKDIR = 11"

definition a2_handle_error :: "nat \<Rightarrow> 'a k2_scheme \<Rightarrow> (int, 'a k2_scheme) outcome" where
  "a2_handle_error code s =
     (if code < length a2_error_msgs
      then returns (int code) (a2_printf (''Bad command: '' @ a2_error_msgs ! code @ [newline]) s) else None)"

definition a2_help_string :: string where
  "a2_help_string = a1_help_string @ '' ''"

definition a2_help :: "'a k2_scheme \<Rightarrow> (int, 'a k2_scheme) outcome" where
  "a2_help s = returns 0 (a2_printf (a2_help_string @ [newline]) s)"

definition a2_host :: "host \<Rightarrow> host_call \<Rightarrow> 'a k2_scheme \<Rightarrow> int \<times> 'a k2_scheme" where
  "a2_host host c s = (let (r, fs) = hcall host c (files s) in (r, s\<lparr>files := fs\<rparr>))"

definition removeBackingStore :: "host \<Rightarrow> 'a k2_scheme \<Rightarrow> (int \<times> 'a k2_scheme) option" where
  "removeBackingStore host s = do { (r, fs) \<leftarrow> rm_rf host (backing_store_path s) (files s); Some (r, s\<lparr>files := fs\<rparr>) }"

definition a2_quit :: "host \<Rightarrow> 'a k2_scheme \<Rightarrow> (int, 'a k2_scheme) outcome" where
  "a2_quit host s =
     do { s1 \<leftarrow> ready_queue_destory (a2_printf (''Bye!'' @ [newline]) s);
          (r, s2) \<leftarrow> removeBackingStore host s1;
          Some (Inl s2) }"

definition a2_set :: "string \<Rightarrow> string \<Rightarrow> 'a k2_scheme \<Rightarrow> (int, 'a k2_scheme) outcome" where
  "a2_set var val s = returns 0 (s\<lparr>varmemory := a2_mem_set_value (length (varmemory s)) var val (varmemory s)\<rparr>)"

definition a2_print :: "string \<Rightarrow> 'a k2_scheme \<Rightarrow> (int, 'a k2_scheme) outcome" where
  "a2_print var s =
     (let val = (case a2_mem_get_value (length (varmemory s)) var (varmemory s) of Some v \<Rightarrow> v | None \<Rightarrow> [newline])
      in returns 0 (a2_printf (val @ [newline]) s))"

text \<open>An argument that is not there is a null pointer, and reading it is undefined.\<close>

definition a2_echo :: "string option \<Rightarrow> 'a k2_scheme \<Rightarrow> (int, 'a k2_scheme) outcome" where
  "a2_echo arg s =
     do { var \<leftarrow> arg;
          if isVariable var then a2_print (tl var) s else returns 0 (a2_printf (var @ [newline]) s) }"

definition my_ls :: "host \<Rightarrow> 'a k2_scheme \<Rightarrow> (int, 'a k2_scheme) outcome" where
  "my_ls host s = (let (r, s') = a2_host host (System ''ls | sort'') s in returns r s')"

definition my_mkdir :: "host \<Rightarrow> string option \<Rightarrow> 'a k2_scheme \<Rightarrow> (int, 'a k2_scheme) outcome" where
  "my_mkdir host arg s =
     do { dirname \<leftarrow> arg;
          let make = (\<lambda>dir. let (r, s') = a2_host host (System (''mkdir '' @ dir)) s in returns r s');
          if isVariable dirname
          then (case a2_mem_get_value (length (varmemory s)) (tl dirname) (varmemory s) of
                  None \<Rightarrow> a2_handle_error ERROR_MKDIR s
                | Some v \<Rightarrow> if CHR '' '' \<in> set v then a2_handle_error ERROR_MKDIR s else make v)
          else make dirname }"

definition my_touch :: "host \<Rightarrow> string option \<Rightarrow> 'a k2_scheme \<Rightarrow> (int, 'a k2_scheme) outcome" where
  "my_touch host arg s =
     do { filename \<leftarrow> arg;
          let (r, s') = a2_host host (System (''touch '' @ filename)) s;
          returns r s' }"

definition my_cd :: "host \<Rightarrow> string option \<Rightarrow> 'a k2_scheme \<Rightarrow> (int, 'a k2_scheme) outcome" where
  "my_cd host arg s =
     do { dirname \<leftarrow> arg;
          let (is_dir, s1) = a2_host host (Is_dir dirname) s;
          if is_dir \<noteq> 0 then (let (r, s2) = a2_host host (Chdir dirname) s1 in returns r s2)
          else a2_handle_error ERROR_CD s1 }"

text \<open>\<^verbatim>\<open>run\<close> tests the result of \<^verbatim>\<open>process_initialize\<close> against 11, a code it never returns.\<close>

definition a2_run :: "'a parser \<Rightarrow> string \<Rightarrow> 'a k2_scheme \<Rightarrow> (int, 'a k2_scheme) outcome" where
  "a2_run parse script s =
     do { (errCode, s1) \<leftarrow> process_initialize script s;
          if errCode = 11 then a2_handle_error 11 s1
          else and_then (schedule_by_policy parse ''FCFS'' s1) (\<lambda>_ s2. returns errCode s2) }"

definition a2_exec :: "'a parser \<Rightarrow> string option list \<Rightarrow> 'a k2_scheme \<Rightarrow> (int, 'a k2_scheme) outcome" where
  "a2_exec parse fnames s =
     do { (error_code, s1) \<leftarrow> initialize_multiple_process fnames s;
          if error_code \<noteq> 0 then a2_handle_error (nat error_code) s1
          else and_then (schedule_by_policy parse ''RR'' s1) (\<lambda>_ s2. returns error_code s2) }"

definition resetmem :: "'a k2_scheme \<Rightarrow> (int, 'a k2_scheme) outcome" where
  "resetmem s = returns 0 (s\<lparr>varmemory := a2_mem_clear (length (varmemory s)) (varmemory s)\<rparr>)"

fun join_words :: "string list \<Rightarrow> string" where
  "join_words [] = []"
| "join_words [w] = w"
| "join_words (w # v # ws) = w @ CHR '' '' # join_words (v # ws)"

text \<open>The body of \<^verbatim>\<open>interpreter\<close>; \<open>parse\<close> is \<^verbatim>\<open>parseInput\<close> for the lines of scripts.\<close>

definition a2_command :: "host \<Rightarrow> 'a parser \<Rightarrow> 'a a2_interp" where
  "a2_command host parse words0 n s =
     (if n < 1 then a2_handle_error TOO_FEW_TOKENS s
      else if n > 7 then a2_handle_error TOO_MANY_TOKENS s
      else let words = strip_args n words0; arg1 = (if 1 < length words then Some (words ! 1) else None)
      in if words ! 0 = ''help'' then (if n > 1 then a2_handle_error TOO_MANY_TOKENS s else a2_help s)
         else if words ! 0 = ''quit'' \<or> words ! 0 = ''exit''
         then (if n > 1 then a2_handle_error TOO_MANY_TOKENS s else a2_quit host s)
         else if words ! 0 = ''set''
         then (if n < 3 then a2_handle_error TOO_FEW_TOKENS s else a2_set (words ! 1) (join_words (slice 2 (n - 2) words)) s)
         else if words ! 0 = ''print''
         then (if n < 2 then a2_handle_error TOO_FEW_TOKENS s
               else if n > 2 then a2_handle_error TOO_MANY_TOKENS s else a2_print (words ! 1) s)
         else if words ! 0 = ''run''
         then (if n < 2 then a2_handle_error TOO_FEW_TOKENS s
               else if n > 2 then a2_handle_error TOO_MANY_TOKENS s else a2_run parse (words ! 1) s)
         else if words ! 0 = ''echo'' then (if n > 2 then a2_handle_error TOO_MANY_TOKENS s else a2_echo arg1 s)
         else if words ! 0 = ''my_ls'' then (if n > 1 then a2_handle_error TOO_MANY_TOKENS s else my_ls host s)
         else if words ! 0 = ''my_mkdir''
         then (if n > 2 then a2_handle_error TOO_MANY_TOKENS s else my_mkdir host arg1 s)
         else if words ! 0 = ''my_touch''
         then (if n > 2 then a2_handle_error TOO_MANY_TOKENS s else my_touch host arg1 s)
         else if words ! 0 = ''my_cd'' then (if n > 2 then a2_handle_error TOO_MANY_TOKENS s else my_cd host arg1 s)
         else if words ! 0 = ''exec''
         then (if n \<le> 1 then a2_handle_error TOO_FEW_TOKENS s
               else if n > 5 then a2_handle_error TOO_MANY_TOKENS s
               else if n = 2 then a2_exec parse [Some (words ! 1), None, None] s
               else if n = 3 then a2_exec parse [Some (words ! 1), Some (words ! 2), None] s
               else if n = 4 then a2_exec parse [Some (words ! 1), Some (words ! 2), Some (words ! 3)] s
               else a2_handle_error BAD_COMMAND s)
         else if words ! 0 = ''resetmem'' then resetmem s
         else a2_handle_error BAD_COMMAND s)"

primrec a2_parseInput :: "host \<Rightarrow> nat \<Rightarrow> 'a parser" where
  "a2_parseInput host 0 ui s = None"
| "a2_parseInput host (Suc fuel) ui s = a2_parseInput_with (a2_command host (a2_parseInput host fuel)) ui s"


section \<open>What the parser does\<close>

text \<open>At a semicolon the inner loop reads an empty word and the outer loop continues without moving on.\<close>

lemma a2_parse_loop_stuck:
  assumes "a < 1000"
  shows "a2_parse_loop interp a (CHR '';'' # r) words w s = None"
proof (rule ccontr)
  assume "a2_parse_loop interp a (CHR '';'' # r) words w s \<noteq> None"
  then obtain y where "a2_parse_loop interp a (CHR '';'' # r) words w s = Some y" by blast
  then have "\<not> (a < 1000 \<and> (\<exists>r'. CHR '';'' # r = CHR '';'' # r'))"
    by (rule a2_parse_loop.raw_induct
          [where P = "\<lambda>i a r w' w s y. \<not> (a < 1000 \<and> (\<exists>r'. r = CHR '';'' # r'))", rotated])
       (clarsimp simp: Let_def is_sep_def newline_def, blast)
  then show False using assms by blast
qed

definition blank_after :: "string list \<Rightarrow> string" where
  "blank_after ws = concat (map (\<lambda>w. w @ '' '') ws)"

definition place :: "nat \<Rightarrow> string list \<Rightarrow> string list \<Rightarrow> string list" where
  "place k ws old = take k old @ ws @ drop (k + length ws) old"

lemma place_put: "k \<le> length old \<Longrightarrow> place (Suc k) ws (put_word k w old) = place k (w # ws) old"
  by (auto simp: place_def put_word_def take_Suc_conv_app_nth)

lemma place_one: "k \<le> length old \<Longrightarrow> put_word k w old = place k [w] old"
  by (auto simp: place_def put_word_def upd_conv_take_nth_drop)

lemma plain_word_split:
  assumes "plain_word w" "is_sep d" "a + length w < 1000"
  shows "takeWhile (\<lambda>c. c = CHR '' '') (w @ d # r) = []"
    and "take (1000 - a) (takeWhile (\<lambda>c. \<not> is_sep c) (w @ d # r)) = w"
    and "hd (w @ d # r) \<noteq> newline"
    and "w \<noteq> []" "length w < 200"
  using assms plain_hd [OF assms(1), of "d # r"] takeWhile_word [of w d r]
  by (cases w; auto simp: plain_word_def)+

lemma a2_parse_word:
  assumes "plain_word w" "is_sep d" "a + length w < 1000" "k < 100" "d \<noteq> CHR '';''"
  shows "a2_parse_loop interp a (w @ d # r) old k s = a2_parse_loop interp (a + length w + 1) r (put_word k w old) (k + 1) s"
  using assms(4,5) assms(1-3) plain_word_split [OF assms(1-3)]
  by (subst a2_parse_loop.simps) (simp add: Let_def)

lemma a2_parse_words:
  "\<forall>w\<in>set ws. plain_word w \<Longrightarrow> a + length (blank_after ws) \<le> 1000 \<Longrightarrow> k + length ws \<le> 100 \<Longrightarrow> k \<le> length old \<Longrightarrow>
   a2_parse_loop interp a (blank_after ws @ r) old k s =
   a2_parse_loop interp (a + length (blank_after ws)) r (place k ws old) (k + length ws) s"
proof (induction ws arbitrary: a k old)
  case Nil
  then show ?case by (simp add: blank_after_def place_def)
next
  case (Cons w ws)
  have "a2_parse_loop interp a (w @ CHR '' '' # (blank_after ws @ r)) old k s =
        a2_parse_loop interp (a + length w + 1) (blank_after ws @ r) (put_word k w old) (k + 1) s"
    using Cons.prems by (intro a2_parse_word) (auto simp: blank_after_def is_sep_def)
  also have "\<dots> = a2_parse_loop interp (a + length w + 1 + length (blank_after ws)) r (place (k + 1) ws (put_word k w old))
      (k + 1 + length ws) s"
    using Cons.prems by (intro Cons.IH) (auto simp: blank_after_def put_word_def)
  finally show ?case using Cons.prems by (simp add: blank_after_def place_put add.assoc)
qed


lemma place_snoc: "put_word (length vs) v (place 0 vs old) = place 0 (vs @ [v]) old"
  by (cases "drop (length vs) old")
     (auto simp: place_def put_word_def list_update_append drop_Suc simp flip: tl_drop)

lemma unwords_snoc: "unwords (ws @ [w]) = blank_after ws @ w"
  by (induction ws rule: unwords.induct) (auto simp: blank_after_def)

lemma skip_blanks_word: "w \<noteq> [] \<Longrightarrow> hd w \<noteq> CHR '' '' \<Longrightarrow> skip_blanks a (w @ r) = (a, w @ r)"
  by (cases w) (auto simp: skip_blanks_def)

lemma a2_parse_joined:
  assumes "ws \<noteq> []" "\<forall>w\<in>set ws. plain_word w" "length ws \<le> 100" "a + length (unwords ws) < 1000"
  shows "a2_parse_loop interp a (unwords ws @ [newline]) old 0 s = interp (place 0 ws old) (length ws) s"
proof -
  from assms(1) obtain vs v where ws: "ws = vs @ [v]" by (cases ws rule: rev_cases) auto
  let ?a = "a + length (blank_after vs)"
  have "a2_parse_loop interp a (blank_after vs @ (v @ newline # [])) old 0 s =
        a2_parse_loop interp ?a (v @ newline # []) (place 0 vs old) (0 + length vs) s"
    using assms by (intro a2_parse_words) (auto simp: ws unwords_snoc)
  also have "\<dots> = a2_parse_loop interp (?a + length v + 1) [] (put_word (0 + length vs) v (place 0 vs old)) (0 + length vs + 1) s"
    using assms by (intro a2_parse_word) (auto simp: ws unwords_snoc newline_def is_sep_def)
  also have "put_word (0 + length vs) v (place 0 vs old) = place 0 ws old"
    by (simp add: ws place_snoc)
  finally show ?thesis by (subst (asm) (2) a2_parse_loop.simps) (simp add: ws unwords_snoc)
qed


text \<open>A line of several commands, and its meaning: the commands are interpreted in their order until one
  of them ends the program or returns -1. Behind the words of a command the interpreter finds the
  words that longer commands before it have left.\<close>

fun command_line :: "string list list \<Rightarrow> string" where
  "command_line [] = []"
| "command_line [c] = unwords c @ [newline]"
| "command_line (c # d # cs) = unwords c @ CHR '';'' # command_line (d # cs)"

fun run_commands ::
    "'a a2_interp \<Rightarrow> string list \<Rightarrow> string list list \<Rightarrow> 'a k2_scheme \<Rightarrow> (int, 'a k2_scheme) outcome" where
  "run_commands interp old [] s = interp old 0 s"
| "run_commands interp old [c] s = interp (place 0 c old) (length c) s"
| "run_commands interp old (c # d # cs) s =
     and_then (interp (place 0 c old) (length c) s) (\<lambda>e s'.
       if e = -1 then Some (Inr (e, s'))
       else run_commands interp (strip_args (length c) (place 0 c old)) (d # cs) s')"

definition plain_command :: "string list \<Rightarrow> bool" where
  "plain_command c \<longleftrightarrow> c \<noteq> [] \<and> length c \<le> 100 \<and> (\<forall>w\<in>set c. plain_word w)"

lemma a2_parse_last_word:
  assumes "plain_word w" "a + length w < 1000" "k < 100"
  shows "a2_parse_loop interp a (w @ CHR '';'' # r) old k s =
    and_then (interp (put_word k w old) (k + 1) s) (\<lambda>e s'.
       if e = -1 then Some (Inr (e, s'))
       else let next = skip_blanks (a + length w + 1) r
            in a2_parse_loop interp (fst next) (snd next) (strip_args (k + 1) (put_word k w old)) 0 s')"
proof -
  have "is_sep CHR '';''" by (simp add: is_sep_def)
  from plain_word_split [OF assms(1) this assms(2)] assms(3) show ?thesis
    by (cases "interp (put_word k w old) (Suc k) s"; subst a2_parse_loop.simps)
       (auto simp: Let_def and_then_def split: sum.splits)
qed

lemma a2_parse_semicolon:
  assumes "plain_command c" "a + length (unwords c) < 1000"
  shows "a2_parse_loop interp a (unwords c @ CHR '';'' # r) old 0 s =
    and_then (interp (place 0 c old) (length c) s) (\<lambda>e s'.
       if e = -1 then Some (Inr (e, s'))
       else let next = skip_blanks (a + length (unwords c) + 1) r
            in a2_parse_loop interp (fst next) (snd next) (strip_args (length c) (place 0 c old)) 0 s')"
proof -
  from assms(1) obtain vs v where c: "c = vs @ [v]" by (cases c rule: rev_cases) (auto simp: plain_command_def)
  let ?a = "a + length (blank_after vs)"
  have "a2_parse_loop interp a (blank_after vs @ (v @ CHR '';'' # r)) old 0 s =
        a2_parse_loop interp ?a (v @ CHR '';'' # r) (place 0 vs old) (0 + length vs) s"
    using assms by (intro a2_parse_words) (auto simp: c unwords_snoc plain_command_def)
  moreover have "plain_word v" "?a + length v < 1000" "length vs < 100"
    using assms by (auto simp: c unwords_snoc plain_command_def)
  ultimately show ?thesis by (simp add: c unwords_snoc a2_parse_last_word place_snoc add.assoc cong: if_cong)
qed

lemma unwords_start: "plain_command c \<Longrightarrow> skip_blanks a (unwords c @ r) = (a, unwords c @ r)"
  using unwords_hd [of c "[]"] by (intro skip_blanks_word) (auto simp: plain_command_def)

lemma a2_parse_commands:
  "cs \<noteq> [] \<Longrightarrow> \<forall>c\<in>set cs. plain_command c \<Longrightarrow> a + length (command_line cs) \<le> 1000 \<Longrightarrow>
   a2_parse_loop interp a (command_line cs) old 0 s = run_commands interp old cs s"
proof (induction cs arbitrary: a old s rule: command_line.induct)
  case (2 c)
  then show ?case by (auto simp: plain_command_def intro: a2_parse_joined)
next
  case (3 c d cs)
  have next_start: "skip_blanks k (command_line (d # cs)) = (k, command_line (d # cs))" for k
    using 3(3) by (cases cs) (auto intro: unwords_start)
  have "a2_parse_loop interp a (command_line (c # d # cs)) old 0 s =
    and_then (interp (place 0 c old) (length c) s) (\<lambda>e s'.
       if e = -1 then Some (Inr (e, s'))
       else a2_parse_loop interp (a + length (unwords c) + 1) (command_line (d # cs)) (strip_args (length c) (place 0 c old)) 0 s')"
    using 3(3,4) a2_parse_semicolon [of c a interp "command_line (d # cs)" old s] by (simp add: next_start cong: if_cong)
  moreover have "a2_parse_loop interp (a + length (unwords c) + 1) (command_line (d # cs)) words 0 s' =
      run_commands interp words (d # cs) s'" for words s'
    using 3(3,4) by (intro "3.IH") auto
  ultimately show ?case by (simp cong: if_cong)
qed simp


lemma a2_parseInput_commands:
  assumes "cs \<noteq> []" "\<forall>c\<in>set cs. plain_command c" "length (command_line cs) \<le> 1000"
  shows "a2_parseInput_with interp (command_line cs) s = run_commands interp [] cs s"
proof -
  have "skip_blanks 0 (command_line cs) = (0, command_line cs)"
    using assms(1,2) by (cases cs rule: command_line.cases) (auto intro: unwords_start)
  with assms show ?thesis by (simp add: a2_parseInput_with_def a2_parse_commands)
qed

lemma a2_parse_blank_semicolon:
  assumes "plain_command c" "length (unwords c) < 999"
  shows "a2_parseInput_with interp (unwords c @ '' ;'' @ r) s = None"
proof -
  have "skip_blanks 0 (unwords c @ '' ;'' @ r) = (0, unwords c @ '' ;'' @ r)"
    using assms(1) by (intro unwords_start)
  moreover from assms(1) obtain vs v where c: "c = vs @ [v]" by (cases c rule: rev_cases) (auto simp: plain_command_def)
  then have "unwords c @ '' ;'' @ r = blank_after c @ CHR '';'' # r" by (simp add: unwords_snoc) (simp add: blank_after_def)
  moreover have "length (blank_after c) < 1000" using assms(2) by (simp add: c unwords_snoc) (simp add: blank_after_def)
  moreover have "a2_parse_loop interp 0 (blank_after c @ CHR '';'' # r) [] 0 s =
      a2_parse_loop interp (0 + length (blank_after c)) (CHR '';'' # r) (place 0 c []) (0 + length c) s"
    using assms(1) \<open>length (blank_after c) < 1000\<close> by (intro a2_parse_words) (auto simp: plain_command_def)
  ultimately show ?thesis by (simp only: a2_parseInput_with_def a2_parse_loop_stuck Let_def fst_conv snd_conv add_0)
qed

section \<open>Properties\<close>

text \<open>
  C34. A line of commands separated by semicolons is interpreted command by command: \<^verbatim>\<open>parseInput\<close> calls the
  interpreter with exactly the words of each command, in the order of the line, and stops early
  only when a command returns -1 or ends the program. The parser that the schedulers call for the lines of
  scripts is \<^verbatim>\<open>parseInput\<close> itself.
\<close>

theorem a2_parse_runs_commands:
  assumes "cs \<noteq> []" "\<forall>c\<in>set cs. plain_command c" "length (command_line cs) \<le> 1000"
  shows "a2_parseInput host (Suc fuel) (command_line cs) s =
         run_commands (a2_command host (a2_parseInput host fuel)) [] cs s"
  using assms by (simp add: a2_parseInput_commands)

theorem a2_parse_runs_commands_witness:
  "a2_parseInput idle_host (Suc 0) (''echo a;echo b'' @ [newline]) example_kernel =
   run_commands (a2_command idle_host (a2_parseInput idle_host 0)) [] [[''echo'', ''a''], [''echo'', ''b'']] example_kernel"
proof -
  have "command_line [[''echo'', ''a''], [''echo'', ''b'']] = ''echo a;echo b'' @ [newline]" by simp
  moreover have "\<forall>c\<in>set [[''echo'', ''a''], [''echo'', ''b'']]. plain_command c"
    by (simp add: plain_command_def plain_word_def is_sep_def newline_def)
  ultimately show ?thesis using a2_parse_runs_commands [of "[[''echo'', ''a''], [''echo'', ''b'']]" idle_host 0 example_kernel] by simp
qed

text \<open>
  A blank before a semicolon makes the shell hang: for every command, \<^verbatim>\<open>parseInput\<close> of the command followed by
  a blank and a semicolon does not return, whatever follows and whatever the interpreter does. The loop reads an empty word at
  the semicolon and continues at the same position.
\<close>

theorem a2_blank_before_semicolon_hangs:
  assumes "plain_command c" "length (unwords c) < 999"
  shows "a2_parseInput host fuel (unwords c @ '' ;'' @ r) s = None"
  using a2_parse_blank_semicolon [OF assms] by (cases fuel) simp_all

theorem a2_blank_before_semicolon_hangs_witness:
  "a2_parseInput idle_host 5 ''echo a ; echo b'' example_kernel = None"
  using a2_blank_before_semicolon_hangs [of "[''echo'', ''a'']" idle_host 5 "'' echo b''" example_kernel]
  by (simp add: plain_command_def plain_word_def is_sep_def newline_def)

text \<open>
  \<^verbatim>\<open>run\<close> of a script that does not exist, at the prompt with no process waiting, returns
  \<^verbatim>\<open>FILE_DOES_NOT_EXIST\<close> and leaves the state, the output included, as it was: the error is never reported,
  because the result is compared with 11.
\<close>

theorem run_missing_script_is_silent:
  assumes "files s script = None" "is_ready_empty s" "\<not> active s"
  shows "a2_run parse script s = Some (Inr (FILE_DOES_NOT_EXIST, s))"
  using assms by (simp add: a2_run_def process_initialize_def FILE_DOES_NOT_EXIST_def schedule_by_policy_def
      scheduler_FCFS.simps returns_def Let_def)

theorem run_missing_script_is_silent_witness:
  "a2_run log_parser ''nosuch'' (example_kernel\<lparr>head := None\<rparr>) =
   Some (Inr (FILE_DOES_NOT_EXIST, example_kernel\<lparr>head := None\<rparr>))"
  by (rule run_missing_script_is_silent) (simp_all add: example_kernel_def a2.defs rq.defs is_ready_empty_def)

end
