(* ===== verification/Fsutil2.thy ===== *)
theory Fsutil2
  imports Fsutil
begin

text \<open>
  The commands of the shell on the whole file system (\<^verbatim>\<open>a3/fs/fsutil2.c\<close>): copying to and from the host, searching, fragmentation and recovery.
  The files of the host are a field of the state; \<open>host_writable\<close> tells for which names \<^verbatim>\<open>fopen\<close> for writing succeeds. The disk file is not one
  of them.
\<close>

section \<open>State\<close>

record ustate = dstate +
  host_files :: hostfiles
  host_writable :: "string \<Rightarrow> bool"

text \<open>The string in a buffer, read from the start to the first zero; without one the code reads past the buffer.\<close>

definition buffer_string :: "byte list \<Rightarrow> string option" where
  "buffer_string bs = (if 0 \<in> set bs then Some (bytes_string bs) else None)"

text \<open>A file of the host with a new content; \<^term>\<open>None\<close> when it cannot be opened, since the callers write through the null stream.\<close>

definition host_write :: "string \<Rightarrow> string \<Rightarrow> 'a ustate_scheme \<Rightarrow> 'a ustate_scheme option" where
  "host_write name content s = (if host_writable s name then Some (s\<lparr>host_files := (host_files s)(name \<mapsto> content)\<rparr>) else None)"

section \<open>Copying in\<close>

definition partial_write_message :: "int \<Rightarrow> int \<Rightarrow> 'a ustate_scheme \<Rightarrow> 'a ustate_scheme" where
  "partial_write_message bytes_written bufsize s =
     printf (''Warning: could only write '' @ int_str bytes_written @ '' out of '' @ int_str bufsize @
             '' bytes (reached end of file'' @ [newline]) s"

text \<open>The quotients are taken in double precision, which is exact here.\<close>

definition get_overhead :: "int \<Rightarrow> int" where
  "get_overhead sz =
     (if sz \<le> 123 * 512 then 512
      else if sz \<le> 123 * 512 + 128 * 512 then 2 * 512
      else let remainder = sz - (123 * 512 + 128 * 512);
               rem_data_blocks = (remainder + 511) div 512;
               pt_blocks_required = (rem_data_blocks + 127) div 128
           in (3 + pt_blocks_required) * 512)"

text \<open>The conversion of \<^verbatim>\<open>size_t\<close> to \<^verbatim>\<open>int\<close>.\<close>

definition size_int :: "u64 \<Rightarrow> int" where
  "size_int w = signed_take_bit 31 (uint w)"

definition get_write_size :: "u64 \<Rightarrow> u64 \<Rightarrow> u64 option" where
  "get_write_size bufsize free_space =
     (if free_space = 1 then Some 0
      else if bufsize \<ge> free_space then Some (free_space - of_int (get_overhead (size_int free_space)))
      else let file_overhead = get_overhead (size_int bufsize);
               spaces_left_for_overhead = size_int (free_space - bufsize)
           in if file_overhead \<le> spaces_left_for_overhead then Some bufsize
              else if spaces_left_for_overhead = 1 then Some (123 * 512)
              else if spaces_left_for_overhead = 2 \<or> spaces_left_for_overhead = 3 then Some (123 * 512 + 128 * 512)
              else do { left \<leftarrow> chk32 (spaces_left_for_overhead - 3);
                        extra \<leftarrow> chk32 (left * 512);
                        total \<leftarrow> chk32 (123 * 512 + 128 * 512 + extra);
                        Some (of_int total) })"

text \<open>The loop stores \<^verbatim>\<open>getc\<close> in a \<^verbatim>\<open>char\<close>, so it ends at a byte 255 as it does at the end of the file.\<close>

definition copy_buffer :: "string \<Rightarrow> byte list" where
  "copy_buffer content =
     (let bs = takeWhile (\<lambda>b. b \<noteq> 255) (map char_byte content) in bs @ replicate (length content + 1 - length bs) 0)"

definition copy_in :: "nat \<Rightarrow> byte list \<Rightarrow> string \<Rightarrow> 'a ustate_scheme \<Rightarrow> (int \<times> 'a ustate_scheme) option" where
  "copy_in fuel junk fname s =
     (case host_files s fname of
        None \<Rightarrow> Some (1, s)
      | Some content \<Rightarrow>
          do { bufsize \<leftarrow> chk32 (int (length content) + 1);
               (num, s1) \<leftarrow> fsutil_freespace s;
               if num = 0 then Some (12, s1)
               else do {
                 free_space \<leftarrow> chk32 (int num * 512);
                 write_size \<leftarrow> get_write_size (of_int bufsize) (of_int free_space);
                 (created, s2) \<leftarrow> fsutil_create fuel junk fname (uint write_size) s1;
                 if created = 0 then Some (10, s2)
                 else do {
                   (bytes_written, s3) \<leftarrow> fsutil_write fuel fname (copy_buffer content) (uint write_size) s2;
                   if bytes_written = - 1 then Some (12, s3)
                   else if bytes_written \<noteq> bufsize
                   then do { b \<leftarrow> chk32 (bufsize + 1); Some (0, partial_write_message bytes_written b s3) }
                   else Some (0, s3) } } })"

section \<open>Copying out\<close>

definition copy_out :: "nat \<Rightarrow> string \<Rightarrow> 'a ustate_scheme \<Rightarrow> (int \<times> 'a ustate_scheme) option" where
  "copy_out fuel fname s =
     do { (found, s1) \<leftarrow> fsutil_file_exists fuel fname s;
          if \<not> found then Some (1, s1)
          else do {
            (bufsize, s2) \<leftarrow> fsutil_size fuel fname s1;
            (_, s3) \<leftarrow> fsutil_seek fuel fname 0 s2;
            (r, s4) \<leftarrow> fsutil_read fuel fname bufsize s3;
            case r of
              None \<Rightarrow> Some (13, s4)
            | Some bytes \<Rightarrow>
                do { (_, s5) \<leftarrow> fsutil_seek fuel fname 0 s4;
                     if \<not> host_writable s5 fname then Some (13, s5)
                     else do { str \<leftarrow> buffer_string bytes; s6 \<leftarrow> host_write fname str s5; Some (0, s6) } } } }"

section \<open>Searching\<close>

text \<open>The loop over the entries of a directory that three commands share, with what the body accumulates.\<close>

partial_function (option) each_entry ::
    "(string \<Rightarrow> 'b \<Rightarrow> 'a dstate_scheme \<Rightarrow> ('b \<times> 'a dstate_scheme) option) \<Rightarrow> nat \<Rightarrow> 'b \<Rightarrow> 'a dstate_scheme \<Rightarrow> ('b \<times> 'a dstate_scheme) option" where
  "each_entry body d acc s =
     do { (r, s1) \<leftarrow> dir_readdir d s;
          case r of
            None \<Rightarrow> Some (acc, s1)
          | Some name \<Rightarrow> do { (acc1, s2) \<leftarrow> body name acc s1; each_entry body d acc1 s2 } }"

declare each_entry.simps [code]

fun strstr :: "string \<Rightarrow> string \<Rightarrow> bool" where
  "strstr [] pat = (pat = [])"
| "strstr (c # cs) pat = (take (length pat) (c # cs) = pat \<or> strstr cs pat)"

text \<open>The whole content of an open file.\<close>

definition slurp :: "nat \<Rightarrow> 'a dstate_scheme \<Rightarrow> (byte list \<times> 'a dstate_scheme) option" where
  "slurp f s =
     do { len \<leftarrow> file_length f s;
          s1 \<leftarrow> file_seek f 0 s;
          (bytes, s2) \<leftarrow> file_read f len s1;
          s3 \<leftarrow> file_seek f 0 s2;
          Some (bytes, s3) }"

definition find_body :: "nat \<Rightarrow> string \<Rightarrow> string \<Rightarrow> unit \<Rightarrow> 'a dstate_scheme \<Rightarrow> (unit \<times> 'a dstate_scheme) option" where
  "find_body fuel pattern name u s =
     do { (p, s1) \<leftarrow> filesys_open fuel name s;
          f \<leftarrow> p;
          (bytes, s2) \<leftarrow> slurp f s1;
          str \<leftarrow> buffer_string bytes;
          s3 \<leftarrow> file_close (save_map fuel) p (if strstr str pattern then printf (name @ [newline]) s2 else s2);
          Some (u, s3) }"

definition find_file :: "nat \<Rightarrow> string \<Rightarrow> 'a dstate_scheme \<Rightarrow> 'a dstate_scheme option" where
  "find_file fuel pattern s =
     do { (p, s1) \<leftarrow> dir_open_root (save_map fuel) s;
          d \<leftarrow> p;
          (_, s2) \<leftarrow> each_entry (find_body fuel pattern) d () s1;
          dir_close (save_map fuel) p s2 }"

section \<open>Fragmentation\<close>

text \<open>A quotient \<open>a / b\<close> of two counters in double precision, for \<open>0 < a \<le> b\<close>: \<open>m / 2 ^ e\<close> with a mantissa of 53 bits; and
  its rendering with six digits. Both round to the nearest, to the even one of two.\<close>

definition round_div :: "nat \<Rightarrow> nat \<Rightarrow> nat" where
  "round_div a b = (let q = a div b; r = a mod b in if 2 * r < b \<or> 2 * r = b \<and> even q then q else q + 1)"

definition double_div :: "nat \<Rightarrow> nat \<Rightarrow> nat \<times> nat" where
  "double_div a b =
     (case first_from (\<lambda>e. 2 ^ 52 * b \<le> a * 2 ^ e) 52 33 of None \<Rightarrow> (0, 0) | Some e \<Rightarrow> (round_div (a * 2 ^ e) b, e))"

definition show_double :: "nat \<times> nat \<Rightarrow> string" where
  "show_double x =
     (let q = round_div (fst x * 10 ^ 6) (2 ^ snd x) in nat_str (q div 10 ^ 6) @ ''.'' @ pad_left 6 (CHR ''0'') (nat_str (q mod 10 ^ 6)))"

definition report_fragmentation_degree :: "nat \<Rightarrow> nat \<Rightarrow> nat \<times> nat \<Rightarrow> 'a dstate_scheme \<Rightarrow> 'a dstate_scheme" where
  "report_fragmentation_degree num_fragmentable num_fragmented pct s =
     printf (''Num fragmentable files: '' @ nat_str num_fragmentable @ [newline] @ ''Num fragmented files: '' @ nat_str num_fragmented @
             [newline] @ ''Fragmentation pct: '' @ show_double pct @ [newline]) s"

fun fragmented :: "block_sector_t list \<Rightarrow> bool" where
  "fragmented (x # y # xs) = (sint (y - x) > 3 \<or> fragmented (y # xs))"
| "fragmented _ = False"

text \<open>The inner loop. With no sector, \<^verbatim>\<open>num_sectors - 1\<close> wraps and the loop reads past the array.\<close>

definition fragmentation_loop :: "nat \<Rightarrow> block_sector_t list option \<Rightarrow> bool option" where
  "fragmentation_loop num_sectors ds =
     (if num_sectors = 0 then None
      else if num_sectors = 1 then Some False
      else do { xs \<leftarrow> ds;
                if fragmented (take num_sectors xs) then Some True
                else if num_sectors \<le> length xs then Some False else None })"

definition fragmentation_body ::
    "nat \<Rightarrow> string \<Rightarrow> nat \<times> nat \<Rightarrow> 'a dstate_scheme \<Rightarrow> ((nat \<times> nat) \<times> 'a dstate_scheme) option" where
  "fragmentation_body fuel name counts s =
     do { (p, s1) \<leftarrow> filesys_open fuel name s;
          f \<leftarrow> p;
          fl \<leftarrow> open_files s1 f;
          inode \<leftarrow> inodes s1 (f_inode fl);
          num_sectors \<leftarrow> bytes_to_sectors (d_length (i_data inode));
          (ds, s2) \<leftarrow> get_inode_data_sectors inode s1;
          r \<leftarrow> fragmentation_loop num_sectors ds;
          Some ((fst counts + (if num_sectors > 1 then 1 else 0), snd counts + (if r then 1 else 0)), s2) }"

definition fragmentation_degree :: "nat \<Rightarrow> 'a dstate_scheme \<Rightarrow> 'a dstate_scheme option" where
  "fragmentation_degree fuel s =
     do { (p, s1) \<leftarrow> dir_open_root (save_map fuel) s;
          d \<leftarrow> p;
          ((num_fragmentable, num_fragmented), s2) \<leftarrow> each_entry (fragmentation_body fuel) d (0, 0) s1;
          let pct = (if num_fragmentable \<noteq> 0 \<and> num_fragmented \<noteq> 0 then double_div num_fragmented num_fragmentable else (0, 0));
          dir_close (save_map fuel) p (report_fragmentation_degree num_fragmentable num_fragmented pct s2) }"

section \<open>Defragmentation\<close>

record file_data =
  fd_name :: string
  fd_content :: "byte list"
  fd_size :: int

text \<open>The list of the files' data, in the order of \<^verbatim>\<open>add_tail\<close>. The body leaves the file open.\<close>

definition defragment_body :: "nat \<Rightarrow> string \<Rightarrow> file_data list \<Rightarrow> 'a dstate_scheme \<Rightarrow> (file_data list \<times> 'a dstate_scheme) option" where
  "defragment_body fuel name existing_files s =
     do { (p, s1) \<leftarrow> filesys_open fuel name s;
          f \<leftarrow> p;
          f_length \<leftarrow> file_length f s1;
          (bytes, s2) \<leftarrow> slurp f s1;
          (_, s3) \<leftarrow> fsutil_rm fuel name s2;
          Some (existing_files @ [\<lparr>fd_name = name, fd_content = bytes, fd_size = f_length\<rparr>], s3) }"

fun restore_files :: "nat \<Rightarrow> byte list \<Rightarrow> file_data list \<Rightarrow> 'a dstate_scheme \<Rightarrow> 'a dstate_scheme option" where
  "restore_files fuel junk [] s = Some s"
| "restore_files fuel junk (fd # fds) s =
     do { (_, s1) \<leftarrow> fsutil_create fuel junk (fd_name fd) (fd_size fd) s;
          (_, s2) \<leftarrow> fsutil_write fuel (fd_name fd) (fd_content fd) (fd_size fd) s1;
          restore_files fuel junk fds s2 }"

definition defragment :: "nat \<Rightarrow> byte list \<Rightarrow> 'a dstate_scheme \<Rightarrow> (int \<times> 'a dstate_scheme) option" where
  "defragment fuel junk s =
     do { (p, s1) \<leftarrow> dir_open_root (save_map fuel) s;
          d \<leftarrow> p;
          (existing_files, s2) \<leftarrow> each_entry (defragment_body fuel) d [] s1;
          s3 \<leftarrow> restore_files fuel junk existing_files s2;
          Some (0, s3) }"

section \<open>Recovery\<close>

definition sector_is_inode :: "block_sector_t \<Rightarrow> 'a dstate_scheme \<Rightarrow> (bool \<times> 'a dstate_scheme) option" where
  "sector_is_inode sector s =
     do { (p, s1) \<leftarrow> inode_open sector s;
          i \<leftarrow> p;
          inode_at_sector \<leftarrow> inodes s1 i;
          Some (magic (i_data inode_at_sector) = INODE_MAGIC, s1) }"

definition bit_is_free :: "block_sector_t \<Rightarrow> 'a dstate_scheme \<Rightarrow> (bool \<times> 'a dstate_scheme) option" where
  "bit_is_free sector s =
     do { (b, con) \<leftarrow> bitmap_test (free_map s) (unat sector) (console s); Some (b = False, s\<lparr>console := con\<rparr>) }"

definition map_set :: "nat \<Rightarrow> 'a dstate_scheme \<Rightarrow> 'a dstate_scheme option" where
  "map_set idx s =
     do { (b, con) \<leftarrow> bitmap_set (free_map s) idx True (console s); Some (s\<lparr>free_map := b, console := con\<rparr>) }"

definition map_set_multiple :: "nat \<Rightarrow> nat \<Rightarrow> 'a dstate_scheme \<Rightarrow> 'a dstate_scheme option" where
  "map_set_multiple start cnt s =
     do { (b, con) \<leftarrow> bitmap_set_multiple (free_map s) start cnt True (console s); Some (s\<lparr>free_map := b, console := con\<rparr>) }"

text \<open>What \<^verbatim>\<open>recover_0\<close> does with a free sector that holds an inode.\<close>

definition revive :: "nat \<Rightarrow> byte list \<Rightarrow> block_sector_t \<Rightarrow> 'a dstate_scheme \<Rightarrow> 'a dstate_scheme option" where
  "revive fuel junk sector_i s =
     do { (p, s1) \<leftarrow> inode_open sector_i s;
          i \<leftarrow> p;
          inode_to_recover \<leftarrow> inodes s1 i;
          (ds, s2) \<leftarrow> get_inode_data_sectors inode_to_recover s1;
          num_sectors_in_inode \<leftarrow> bytes_to_sectors (inode_length inode_to_recover);
          s3 \<leftarrow> map_set (unat sector_i) s2;
          first \<leftarrow> (case ds of Some (x # _) \<Rightarrow> Some x | _ \<Rightarrow> None);
          s4 \<leftarrow> map_set_multiple (unat first) num_sectors_in_inode s3;
          s5 \<leftarrow> map_set (unat (doubly_indirect_block (i_data inode_to_recover))) s4;
          s6 \<leftarrow> map_set (unat (indirect_block (i_data inode_to_recover))) s5;
          (root, s7) \<leftarrow> dir_open_root (save_map fuel) s6;
          d \<leftarrow> root;
          (_, s8) \<leftarrow> dir_add fuel junk d (''recovered0-'' @ int_str (sint sector_i)) sector_i False s7;
          dir_close (save_map fuel) root s8 }"

partial_function (option) recover_0_loop :: "nat \<Rightarrow> byte list \<Rightarrow> nat \<Rightarrow> 'a dstate_scheme \<Rightarrow> 'a dstate_scheme option" where
  "recover_0_loop fuel junk i s =
     (if i < bitmap_size (free_map s)
      then do { let sector_i = of_nat i;
                (free, s1) \<leftarrow> bit_is_free sector_i s;
                (found, s2) \<leftarrow> (if free then sector_is_inode sector_i s1 else Some (False, s1));
                s3 \<leftarrow> (if found then revive fuel junk sector_i s2 else Some s2);
                recover_0_loop fuel junk (unat (sector_i + 1)) s3 }
      else Some s)"

declare recover_0_loop.simps [code]

definition recover_0 :: "nat \<Rightarrow> byte list \<Rightarrow> 'a dstate_scheme \<Rightarrow> 'a dstate_scheme option" where
  "recover_0 fuel junk s = recover_0_loop fuel junk 0 s"

partial_function (option) recover_1_loop :: "nat \<Rightarrow> 'a ustate_scheme \<Rightarrow> 'a ustate_scheme option" where
  "recover_1_loop i s =
     (if i < bitmap_size (free_map s)
      then do { let sector = of_nat i;
                (found, s1) \<leftarrow> sector_is_inode sector s;
                s2 \<leftarrow> (if found then Some s1
                       else do { (buf, t1) \<leftarrow> buffer_cache_read sector s1;
                                 if list_all (\<lambda>b. b = 0) buf then Some t1
                                 else do { str \<leftarrow> buffer_string buf;
                                           host_write (''recovered1-'' @ int_str (sint sector) @ ''.txt'') str t1 } });
                recover_1_loop (unat (sector + 1)) s2 }
      else Some s)"

declare recover_1_loop.simps [code]

definition recover_1 :: "'a ustate_scheme \<Rightarrow> 'a ustate_scheme option" where
  "recover_1 s = recover_1_loop 4 s"

text \<open>The name for the file of the host is written to an array of \<open>NAME_MAX + 1\<close> bytes. A file with nothing left over stays open.\<close>

definition recover_2_body :: "nat \<Rightarrow> string \<Rightarrow> unit \<Rightarrow> 'a ustate_scheme \<Rightarrow> (unit \<times> 'a ustate_scheme) option" where
  "recover_2_body fuel name u s =
     do { (p, s1) \<leftarrow> filesys_open fuel name s;
          f \<leftarrow> p;
          fl \<leftarrow> open_files s1 f;
          f_inode0 \<leftarrow> inodes s1 (f_inode fl);
          (ds, s2) \<leftarrow> get_inode_data_sectors f_inode0 s1;
          num_sectors_in_inode \<leftarrow> bytes_to_sectors (inode_length f_inode0);
          xs \<leftarrow> ds;
          last_sector \<leftarrow> (if 0 < num_sectors_in_inode \<and> num_sectors_in_inode \<le> length xs then Some (xs ! (num_sectors_in_inode - 1)) else None);
          let offset = nat (c_rem (inode_length f_inode0) 512);
          (buf, s3) \<leftarrow> buffer_cache_read last_sector s2;
          let file_name = ''recovered2-'' @ name @ ''.txt'';
          _ \<leftarrow> (if length file_name \<le> NAME_MAX then Some () else None);
          if list_all (\<lambda>b. b = 0) (drop offset buf) then Some (u, s3)
          else do { s4 \<leftarrow> host_write file_name (map byte_char (filter (\<lambda>b. b \<noteq> 0) (drop offset buf))) s3;
                    s5 \<leftarrow> file_close (save_map fuel) p s4;
                    Some (u, s5) } }"

definition recover_2 :: "nat \<Rightarrow> 'a ustate_scheme \<Rightarrow> 'a ustate_scheme option" where
  "recover_2 fuel s =
     do { (p, s1) \<leftarrow> dir_open_root (save_map fuel) s;
          d \<leftarrow> p;
          (_, s2) \<leftarrow> each_entry (recover_2_body fuel) d () s1;
          dir_close (save_map fuel) p s2 }"

definition recover :: "nat \<Rightarrow> byte list \<Rightarrow> int \<Rightarrow> 'a ustate_scheme \<Rightarrow> 'a ustate_scheme option" where
  "recover fuel junk flag s =
     (if flag = 0 then recover_0 fuel junk s
      else if flag = 1 then recover_1 s
      else if flag = 2 then recover_2 fuel s
      else Some s)"

lemma size_int_of_int: "0 \<le> x \<Longrightarrow> x < 2 ^ 31 \<Longrightarrow> size_int (of_int x) = x"
  by (simp add: size_int_def uint_word_of_int signed_take_bit_int_eq_self)

lemma size_le_of_int:
  "0 \<le> x \<Longrightarrow> x < 2 ^ 31 \<Longrightarrow> 0 \<le> y \<Longrightarrow> y < 2 ^ 31 \<Longrightarrow> (of_int x :: u64) \<le> of_int y \<longleftrightarrow> x \<le> y"
  by (simp add: word_le_def uint_word_of_int)

lemma size_ne_1: "1 \<le> k \<Longrightarrow> 512 * k < 2 ^ 31 \<Longrightarrow> (of_int (512 * k) :: u64) \<noteq> 1"
  using size_le_of_int [of "512 * k" 1] by auto

lemma get_overhead_mono: "x \<le> y \<Longrightarrow> get_overhead x \<le> get_overhead y"
proof -
  assume "x \<le> y"
  then have "(x - 251 * 512 + 511) div 512 \<le> (y - 251 * 512 + 511) div 512" by (simp add: zdiv_mono1)
  then have "((x - 251 * 512 + 511) div 512 + 127) div 128 \<le> ((y - 251 * 512 + 511) div 512 + 127) div 128" by (simp add: zdiv_mono1)
  moreover have "y > 251 * 512 \<Longrightarrow> 0 \<le> ((y - 251 * 512 + 511) div 512 + 127) div 128" by simp
  ultimately show ?thesis using \<open>x \<le> y\<close> by (auto simp: get_overhead_def Let_def)
qed

lemma get_overhead_le: "1 \<le> k \<Longrightarrow> get_overhead (512 * k) \<le> 512 * k"
  by (auto simp: get_overhead_def Let_def)

lemma get_overhead_nonneg: "0 \<le> get_overhead x"
  by (simp add: get_overhead_def Let_def)

lemma get_overhead_sectors: "get_overhead x mod 512 = 0"
  by (simp add: get_overhead_def Let_def)

lemma sectors_exact: "(x :: int) mod 512 = 0 \<Longrightarrow> 512 * ((512 * k - x + 511) div 512) = 512 * k - x"
proof -
  assume "x mod 512 = 0"
  then obtain m where "x = 512 * m" by blast
  then have "512 * k - x + 511 = 511 + (k - m) * 512" by simp
  then show ?thesis using \<open>x = 512 * m\<close> by (simp only: div_mult_self1) simp
qed

lemma sectors_round: "(x :: int) mod 512 = 0 \<Longrightarrow> x \<le> 512 * k - b \<Longrightarrow> 512 * ((b + 511) div 512) + x \<le> 512 * k"
proof -
  assume x: "x mod 512 = 0" "x \<le> 512 * k - b"
  then obtain m where m: "x = 512 * m" by blast
  define q where "q = (b + 511) div 512"
  have "512 * q \<le> b + 511" using mult_div_mod_eq [of 512 "b + 511"] by (simp add: q_def)
  then have "q + m \<le> k" using x(2) m by linarith
  then show ?thesis by (simp add: m flip: q_def)
qed



theorem get_write_size_overshoots: "get_write_size 1000 1024 = Some 139264"
  by code_simp

end
