(* ===== verification/Shell3.thy ===== *)
theory Shell3
  imports Kernel3 Fsutil2 Shell1
begin

text \<open>
  The shell and the interpreter of the third program (\<^verbatim>\<open>a3/shell.c\<close>, \<^verbatim>\<open>a3/interpreter.c\<close>). Scripts run as processes of the kernel, which
  calls \<^verbatim>\<open>parseInput\<close> for each of their lines; the depth of this recursion is bounded by fuel. \<^verbatim>\<open>strtok\<close> keeps its position in a static
  variable, which such a call overwrites. The host's \<^verbatim>\<open>system\<close> is a parameter.
\<close>

section \<open>State\<close>

text \<open>What has been printed is the console of the file system followed by \<open>out3\<close>.\<close>

record sh3 = k3 +
  fs3 :: ustate
  strtok_rest :: string
  new_name_count :: nat

definition screen3 :: "'a sh3_scheme \<Rightarrow> console" where
  "screen3 s = console (fs3 s) @ map Text (out3 s)"

text \<open>A call of the file system. It prints behind what is printed already and sees the files of the host.\<close>

definition fs_call :: "(ustate \<Rightarrow> ('b \<times> ustate) option) \<Rightarrow> 'a sh3_scheme \<Rightarrow> ('b \<times> 'a sh3_scheme) option" where
  "fs_call op s =
     do { (r, u) \<leftarrow> op ((fs3 s)\<lparr>console := screen3 s, host_files := files3 s\<rparr>);
          Some (r, s\<lparr>fs3 := u, out3 := [], files3 := host_files u\<rparr>) }"

definition fs_do :: "(ustate \<Rightarrow> ustate option) \<Rightarrow> 'a sh3_scheme \<Rightarrow> 'a sh3_scheme option" where
  "fs_do op s = map_option snd (fs_call (\<lambda>u. map_option (Pair ()) (op u)) s)"

definition a3_system :: "host \<Rightarrow> string \<Rightarrow> 'a sh3_scheme \<Rightarrow> 'a sh3_scheme" where
  "a3_system host cmd s = s\<lparr>files3 := snd (hcall host (System cmd) (files3 s))\<rparr>"

section \<open>Errors\<close>

datatype Error =
  PLACEHOLDER | FILE_DOES_NOT_EXIST | NO_MEM_SPACE | READY_QUEUE_FULL | SCHEDULING_ERROR | TOO_MANY_TOKENS | TOO_FEW_TOKENS |
  NON_ALPHANUMERIC_TOKEN | BAD_COMMAND | ERROR_RM | FILE_CREATION_ERROR | FILESYSTEM_ERROR | FILE_WRITE_ERROR | FILE_READ_ERROR |
  EXTERNAL_FILE_READ_ERROR

primrec error_code :: "Error \<Rightarrow> int" where
  "error_code PLACEHOLDER = 0"
| "error_code FILE_DOES_NOT_EXIST = 1"
| "error_code NO_MEM_SPACE = 2"
| "error_code READY_QUEUE_FULL = 3"
| "error_code SCHEDULING_ERROR = 4"
| "error_code TOO_MANY_TOKENS = 5"
| "error_code TOO_FEW_TOKENS = 6"
| "error_code NON_ALPHANUMERIC_TOKEN = 7"
| "error_code BAD_COMMAND = 8"
| "error_code ERROR_RM = 9"
| "error_code FILE_CREATION_ERROR = 10"
| "error_code FILESYSTEM_ERROR = 11"
| "error_code FILE_WRITE_ERROR = 12"
| "error_code FILE_READ_ERROR = 13"
| "error_code EXTERNAL_FILE_READ_ERROR = 14"

definition error_msgs :: "string list" where
  "error_msgs = ['''', ''file does not exist'', ''no space left in shell memory'', ''ready queue is full'', ''scheduling policy error'',
     ''too many tokens'', ''too few tokens'', ''non-alphanumeric token'', ''unknown name'', ''rm'', ''file could not be created'',
     ''bad filesystem'', ''file could not be written (maybe no space?)'', ''file could not be read'', ''error reading external files'']"

definition handle_status :: "int \<Rightarrow> 'a sh3_scheme \<Rightarrow> (int, 'a sh3_scheme) outcome" where
  "handle_status code s =
     (if 0 \<le> code \<and> nat code < length error_msgs
      then returns code (put3 (''Bad command: '' @ error_msgs ! nat code @ [newline]) s) else None)"

definition handle_error :: "Error \<Rightarrow> 'a sh3_scheme \<Rightarrow> (int, 'a sh3_scheme) outcome" where
  "handle_error e = handle_status (error_code e)"

section \<open>Commands on variables and scripts\<close>

definition isalnum :: "char \<Rightarrow> bool" where
  "isalnum c \<longleftrightarrow> (let k = of_char c :: nat in 48 \<le> k \<and> k \<le> 57 \<or> 65 \<le> k \<and> k \<le> 90 \<or> 97 \<le> k \<and> k \<le> 122)"

definition isAlphaNumStr :: "string \<Rightarrow> bool" where
  "isAlphaNumStr str \<longleftrightarrow> str \<noteq> [] \<and> list_all isalnum str"

definition gap6 :: string where "gap6 = ''      ''"

definition a3_help_string :: string where
  "a3_help_string =
     ''COMMAND'' @ tab3 @ ''DESCRIPTION'' @ [newline] @
     '' help'' @ tab3 @ gap6 @ ''Displays all the commands'' @ [newline] @
     '' quit'' @ tab3 @ gap6 @ ''Exits / terminates the shell with '' @ quoted_bye @ [newline] @
     '' set VAR STRING'' @ take 2 tab3 @ gap6 @ ''Assigns a value to shell memory'' @ [newline] @
     '' print VAR'' @ take 2 tab3 @ gap6 @ ''Displays the STRING assigned to VAR'' @ [newline] @
     '' echo VAR                     Displays VAR if VAR doesn't begin with '$', otherwise displays the value assigned to VAR'' @ [newline] @
     '' ls                        Displays the folders and files in the current directory in ascending order according to ASCII values '' @
     [newline] @
     '' run SCRIPT.TXT'' @ take 2 tab3 @ gap6 @ ''Executes the file SCRIPT.TXT'' @ [newline] @
     '' exec [SCRIPT.TXT]     Executes up to 3 files using the round-robin scheduling policy'' @ [newline] @
     '' resetmem                     Deletes the content of the variable store'' @ [newline]"

definition a3_help :: "'a sh3_scheme \<Rightarrow> (int, 'a sh3_scheme) outcome" where
  "a3_help s = returns 0 (put3 (a3_help_string @ [newline]) s)"

definition a3_quit :: "'a sh3_scheme \<Rightarrow> (int, 'a sh3_scheme) outcome" where
  "a3_quit s = returns (- 1) (put3 (''Bye!'' @ [newline]) s)"

definition var_store_size :: "'a k3_scheme \<Rightarrow> nat" where
  "var_store_size s = length (mem3 s) - frame_var_border s"

text \<open>\<^verbatim>\<open>set\<close> also builds \<^verbatim>\<open>VAR=STRING\<close> in an array of 1000 bytes.\<close>

definition a3_set :: "string \<Rightarrow> string \<Rightarrow> 'a sh3_scheme \<Rightarrow> (int, 'a sh3_scheme) outcome" where
  "a3_set var val s =
     (if length (var @ ''='' @ val) < 1000
      then returns 0 (s\<lparr>mem3 := a3_mem_set_value (frame_var_border s) (var_store_size s) var val (mem3 s)\<rparr>) else None)"

definition a3_get :: "char \<Rightarrow> string \<Rightarrow> 'a sh3_scheme \<Rightarrow> string" where
  "a3_get caller var s = a3_mem_get_value (frame_var_border s) (var_store_size s) var caller (mem3 s)"

definition a3_print :: "string \<Rightarrow> 'a sh3_scheme \<Rightarrow> (int, 'a sh3_scheme) outcome" where
  "a3_print var s = returns 0 (put3 (a3_get (CHR ''p'') var s @ [newline]) s)"

definition a3_echo :: "string \<Rightarrow> 'a sh3_scheme \<Rightarrow> (int, 'a sh3_scheme) outcome" where
  "a3_echo var s =
     (if var = [] \<or> hd var \<noteq> CHR ''$''
      then if \<not> isAlphaNumStr var then handle_error NON_ALPHANUMERIC_TOKEN s else returns 0 (put3 (var @ [newline]) s)
      else if tl var \<noteq> [] \<and> \<not> isAlphaNumStr (tl var) then handle_error NON_ALPHANUMERIC_TOKEN s
      else returns 0 (put3 (a3_get (CHR ''e'') (tl var) s @ [newline]) s))"

text \<open>The values of \<^verbatim>\<open>set\<close>, joined in an array of 505 bytes: the inner \<^term>\<open>None\<close> is a token that is not alphanumeric.\<close>

fun set_buffer :: "string list \<Rightarrow> string \<Rightarrow> string option option" where
  "set_buffer [] buf = Some (Some buf)"
| "set_buffer (v # vs) buf =
     (if \<not> isAlphaNumStr v then Some None
      else let buf' = buf @ v @ (if vs = [] then [] else '' '') in if length buf' < 505 then set_buffer vs buf' else None)"

definition set_command :: "string list \<Rightarrow> 'a sh3_scheme \<Rightarrow> (int, 'a sh3_scheme) outcome" where
  "set_command args s =
     (if length args < 3 then handle_error TOO_FEW_TOKENS s
      else if \<not> isAlphaNumStr (args ! 1) then handle_error NON_ALPHANUMERIC_TOKEN s
      else do { r \<leftarrow> set_buffer (drop 2 args) [];
                case r of None \<Rightarrow> handle_error NON_ALPHANUMERIC_TOKEN s | Some buf \<Rightarrow> a3_set (args ! 1) buf s })"

text \<open>The copy of a script in the backing store, under a name that no script had before. Name and command are built in arrays of 100 bytes.\<close>

definition stage_script :: "host \<Rightarrow> string \<Rightarrow> 'a sh3_scheme \<Rightarrow> (string \<times> 'a sh3_scheme) option" where
  "stage_script host script s =
     (let new_name = ''./backing_store/'' @ script @ replicate (new_name_count s) (CHR ''a'');
          cmd = ''cp ./'' @ script @ '' '' @ new_name
      in if length cmd < 100 then Some (new_name, (a3_system host cmd s)\<lparr>new_name_count := new_name_count s + 1\<rparr>) else None)"

fun stage_scripts :: "host \<Rightarrow> string list \<Rightarrow> 'a sh3_scheme \<Rightarrow> (string list \<times> 'a sh3_scheme) option" where
  "stage_scripts host [] s = Some ([], s)"
| "stage_scripts host (x # xs) s =
     do { (y, s1) \<leftarrow> stage_script host x s; (ys, s2) \<leftarrow> stage_scripts host xs s1; Some (y # ys, s2) }"

definition remove_store :: "host \<Rightarrow> string \<Rightarrow> 'a sh3_scheme \<Rightarrow> 'a sh3_scheme" where
  "remove_store host cwd0 s = a3_system host (take 1068 (''rm -rf '' @ cwd0 @ ''/backing_store'')) s"

definition renew_store :: "host \<Rightarrow> string \<Rightarrow> 'a sh3_scheme \<Rightarrow> 'a sh3_scheme" where
  "renew_store host cwd0 s = a3_system host (take 1068 (''mkdir '' @ cwd0 @ ''/backing_store'')) (remove_store host cwd0 s)"

definition a3_run :: "'a sh3_ext parser3 \<Rightarrow> string \<Rightarrow> string \<Rightarrow> 'a sh3_scheme \<Rightarrow> (int, 'a sh3_scheme) outcome" where
  "a3_run parse script cwd0 s =
     and_then (new_proc script s) (\<lambda>e s1. if e \<noteq> 0 then returns 1 s1 else run_proc_RR parse cwd0 s1)"

fun new_procs :: "string list \<Rightarrow> 'a k3_scheme \<Rightarrow> (int, 'a k3_scheme) outcome" where
  "new_procs [] s = returns 0 s"
| "new_procs (x # xs) s = and_then (new_proc x s) (\<lambda>e s1. if e \<noteq> 0 then returns 1 s1 else new_procs xs s1)"

definition a3_exec :: "'a sh3_ext parser3 \<Rightarrow> string list \<Rightarrow> string \<Rightarrow> string \<Rightarrow> 'a sh3_scheme \<Rightarrow> (int, 'a sh3_scheme) outcome" where
  "a3_exec parse scripts policy cwd0 s =
     (if length scripts > 3 then returns 1 (put3 (''exec can only take between 1 to 3 scripts'' @ [newline]) s)
      else and_then (new_procs scripts s) (\<lambda>e s1.
             if e \<noteq> 0 then returns 1 s1
             else if policy = ''FIFO'' then run_proc_FIFO parse cwd0 s1
             else if policy = ''RR'' then run_proc_RR parse cwd0 s1
             else returns 0 s1))"

section \<open>Commands on files\<close>

definition isspace :: "char \<Rightarrow> bool" where
  "isspace c \<longleftrightarrow> (let k = of_char c :: nat in k = 32 \<or> 9 \<le> k \<and> k \<le> 13)"

definition isdigit :: "char \<Rightarrow> bool" where
  "isdigit c \<longleftrightarrow> (let k = of_char c :: nat in 48 \<le> k \<and> k \<le> 57)"

fun digits_value :: "string \<Rightarrow> int \<Rightarrow> int" where
  "digits_value [] n = n"
| "digits_value (c # cs) n = (if isdigit c then digits_value cs (10 * n + (int (of_char c) - 48)) else n)"

definition atoi :: "string \<Rightarrow> int option" where
  "atoi str =
     (case dropWhile isspace str of
        [] \<Rightarrow> Some 0
      | c # cs \<Rightarrow> chk32 (if c = CHR ''-'' then - digits_value cs 0 else if c = CHR ''+'' then digits_value cs 0 else digits_value (c # cs) 0))"

definition write_command :: "nat \<Rightarrow> string list \<Rightarrow> 'a sh3_scheme \<Rightarrow> (int, 'a sh3_scheme) outcome" where
  "write_command n args s =
     (if length args < 3 then handle_error TOO_FEW_TOKENS s
      else do {
        let buf = map char_byte (unwords (drop 2 args)) @ [0, 0];
        let sz = int (length buf);
        (bytes_written, s1) \<leftarrow> fs_call (fsutil_write n (args ! 1) buf sz) s;
        if bytes_written = - 1 then handle_error FILE_WRITE_ERROR s1
        else returns 0
          (if bytes_written \<noteq> sz
           then put3 (''Warning: could only write '' @ int_str bytes_written @ '' out of '' @ int_str sz @
                      '' bytes (reached end of file)'' @ [newline]) s1
           else s1) })"

text \<open>The buffer has one byte more than is read, and is all zeros before. The command returns 1 when all bytes were read.\<close>

definition read_command :: "nat \<Rightarrow> string list \<Rightarrow> 'a sh3_scheme \<Rightarrow> (int, 'a sh3_scheme) outcome" where
  "read_command n args s =
     (if length args \<noteq> 3 then handle_error TOO_MANY_TOKENS s
      else do {
        sz \<leftarrow> atoi (args ! 2);
        sz1 \<leftarrow> chk32 (sz + 1);
        if sz1 < 0 then None
        else do {
          (r, s1) \<leftarrow> fs_call (fsutil_read n (args ! 1) sz) s;
          case r of
            None \<Rightarrow> handle_error FILE_READ_ERROR s1
          | Some bytes \<Rightarrow> if sz1 = 0 then None
                         else returns (if int (length bytes) = sz then 1 else 0) (put3 (bytes_string bytes @ [newline]) s1) } })"

definition size_command :: "nat \<Rightarrow> string list \<Rightarrow> 'a sh3_scheme \<Rightarrow> (int, 'a sh3_scheme) outcome" where
  "size_command n args s =
     (if length args \<noteq> 2 then handle_error TOO_MANY_TOKENS s
      else do { (len, s1) \<leftarrow> fs_call (fsutil_size n (args ! 1)) s;
                if len = - 1 then handle_error FILE_DOES_NOT_EXIST s1
                else returns 0 (put3 (''File length: '' @ int_str len @ [newline]) s1) })"

definition seek_command :: "nat \<Rightarrow> string list \<Rightarrow> 'a sh3_scheme \<Rightarrow> (int, 'a sh3_scheme) outcome" where
  "seek_command n args s =
     (if length args \<noteq> 3 then handle_error TOO_MANY_TOKENS s
      else do { offset \<leftarrow> atoi (args ! 2);
                (status, s1) \<leftarrow> fs_call (fsutil_seek n (args ! 1) offset) s;
                if status = - 1 then handle_error FILE_DOES_NOT_EXIST s1 else returns 0 s1 })"

definition freespace_command :: "string list \<Rightarrow> 'a sh3_scheme \<Rightarrow> (int, 'a sh3_scheme) outcome" where
  "freespace_command args s =
     (if length args \<noteq> 1 then handle_error TOO_MANY_TOKENS s
      else do { (free_space, s1) \<leftarrow> fs_call fsutil_freespace s;
                total \<leftarrow> chk32 (int free_space * 512);
                returns 0 (put3 (''Num free sectors: '' @ nat_str free_space @ '' ('' @ int_str total @ '' total bytes)'' @ [newline]) s1) })"

definition ls_command :: "nat \<Rightarrow> string list \<Rightarrow> 'a sh3_scheme \<Rightarrow> (int, 'a sh3_scheme) outcome" where
  "ls_command n args s =
     (if length args > 1 then handle_error TOO_MANY_TOKENS s
      else do { (status, s1) \<leftarrow> fs_call (fsutil_ls n) s;
                if status = 1 then handle_error FILESYSTEM_ERROR s1 else returns 0 s1 })"

definition cat_command :: "nat \<Rightarrow> string list \<Rightarrow> 'a sh3_scheme \<Rightarrow> (int, 'a sh3_scheme) outcome" where
  "cat_command n args s =
     (if length args \<noteq> 2 then handle_error TOO_MANY_TOKENS s
      else do { (status, s1) \<leftarrow> fs_call (fsutil_cat n (args ! 1)) s;
                if status = 1 then handle_error FILE_DOES_NOT_EXIST s1 else returns 0 s1 })"

definition rm_command :: "nat \<Rightarrow> string list \<Rightarrow> 'a sh3_scheme \<Rightarrow> (int, 'a sh3_scheme) outcome" where
  "rm_command n args s =
     (if length args \<noteq> 2 then handle_error TOO_MANY_TOKENS s
      else do { (status, s1) \<leftarrow> fs_call (fsutil_rm n (args ! 1)) s;
                if status = 0 then handle_error ERROR_RM s1 else returns status s1 })"

definition create_command :: "nat \<Rightarrow> byte list \<Rightarrow> string list \<Rightarrow> 'a sh3_scheme \<Rightarrow> (int, 'a sh3_scheme) outcome" where
  "create_command n junk args s =
     (if length args \<noteq> 3 then handle_error TOO_MANY_TOKENS s
      else do { sz \<leftarrow> atoi (args ! 2);
                (status, s1) \<leftarrow> fs_call (fsutil_create n junk (args ! 1) sz) s;
                if status = 0 then handle_error FILE_CREATION_ERROR s1 else returns 0 s1 })"

text \<open>The two copy commands report the status of the copy.\<close>

definition copy_command :: "(string \<Rightarrow> ustate \<Rightarrow> (int \<times> ustate) option) \<Rightarrow> string list \<Rightarrow> 'a sh3_scheme \<Rightarrow> (int, 'a sh3_scheme) outcome" where
  "copy_command copy args s =
     (if length args \<noteq> 2 then handle_error TOO_MANY_TOKENS s
      else do { (status, s1) \<leftarrow> fs_call (copy (args ! 1)) s;
                if status \<noteq> 0 then handle_status status s1 else returns 0 s1 })"

definition plain_command3 :: "nat \<Rightarrow> (ustate \<Rightarrow> ustate option) \<Rightarrow> string list \<Rightarrow> 'a sh3_scheme \<Rightarrow> (int, 'a sh3_scheme) outcome" where
  "plain_command3 k op args s =
     (if length args \<noteq> k then handle_error TOO_MANY_TOKENS s else do { s1 \<leftarrow> fs_do op s; returns 0 s1 })"

definition fs_command :: "nat \<Rightarrow> byte list \<Rightarrow> string list \<Rightarrow> 'a sh3_scheme \<Rightarrow> (int, 'a sh3_scheme) outcome" where
  "fs_command n junk args s =
     (if args ! 0 = ''ls'' then ls_command n args s
      else if args ! 0 = ''cat'' then cat_command n args s
      else if args ! 0 = ''rm'' then rm_command n args s
      else if args ! 0 = ''create'' then create_command n junk args s
      else if args ! 0 = ''write'' then write_command n args s
      else if args ! 0 = ''find_file''
      then (if length args < 2 then handle_error TOO_FEW_TOKENS s
            else do { s1 \<leftarrow> fs_do (find_file n (unwords (drop 1 args))) s; returns 0 s1 })
      else if args ! 0 = ''read'' then read_command n args s
      else if args ! 0 = ''copy_in'' then copy_command (copy_in n junk) args s
      else if args ! 0 = ''copy_out'' then copy_command (copy_out n) args s
      else if args ! 0 = ''size'' then size_command n args s
      else if args ! 0 = ''seek'' then seek_command n args s
      else if args ! 0 = ''freespace'' then freespace_command args s
      else if args ! 0 = ''fragmentation_degree'' then plain_command3 1 (fragmentation_degree n) args s
      else if args ! 0 = ''defragment'' then plain_command3 1 (\<lambda>u. map_option snd (defragment n junk u)) args s
      else if args ! 0 = ''recover''
      then (if length args \<noteq> 2 then handle_error TOO_MANY_TOKENS s
            else do { flag \<leftarrow> atoi (args ! 1); s1 \<leftarrow> fs_do (recover n junk flag) s; returns 0 s1 })
      else handle_error BAD_COMMAND s)"

section \<open>The interpreter\<close>

text \<open>The body of \<^verbatim>\<open>interpreter\<close>; \<open>parse\<close> is \<^verbatim>\<open>parseInput\<close> for the lines of scripts. \<^verbatim>\<open>echo\<close> without an argument reads
  a word that was never set.\<close>

definition a3_command ::
    "host \<Rightarrow> nat \<Rightarrow> byte list \<Rightarrow> 'a sh3_ext parser3 \<Rightarrow> string \<Rightarrow> string list \<Rightarrow> 'a sh3_scheme \<Rightarrow> (int, 'a sh3_scheme) outcome" where
  "a3_command host n junk parse cwd0 args0 s =
     (if length args0 < 1 then handle_error TOO_FEW_TOKENS s
      else let args = map strip_eol args0
      in if args ! 0 = ''help'' then (if length args > 1 then handle_error TOO_MANY_TOKENS s else a3_help s)
         else if args ! 0 = ''quit'' \<or> args ! 0 = ''exit''
         then (if length args > 1 then handle_error TOO_MANY_TOKENS s
               else do { s1 \<leftarrow> fs_do (filesys_done n) (remove_store host cwd0 s); a3_quit s1 })
         else if args ! 0 = ''set'' then set_command args s
         else if args ! 0 = ''print''
         then (if length args < 2 then handle_error TOO_FEW_TOKENS s
               else if length args > 2 then handle_error TOO_MANY_TOKENS s else a3_print (args ! 1) s)
         else if args ! 0 = ''run''
         then (if length args < 2 then handle_error TOO_FEW_TOKENS s
               else if length args > 2 then handle_error TOO_MANY_TOKENS s
               else do { (new_name, s1) \<leftarrow> stage_script host (args ! 1) s;
                         and_then (a3_run parse new_name cwd0 s1) (\<lambda>ret s2. returns ret (renew_store host cwd0 s2)) })
         else if args ! 0 = ''echo''
         then (if length args > 2 then handle_error TOO_MANY_TOKENS s
               else if length args < 2 then None else a3_echo (args ! 1) s)
         else if args ! 0 = ''exec''
         then (if length args \<le> 1 then handle_error TOO_FEW_TOKENS s
               else if length args > 5 then handle_error TOO_MANY_TOKENS s
               else do { (scripts, s1) \<leftarrow> stage_scripts host (tl args) s;
                         and_then (a3_exec parse scripts ''RR'' cwd0 s1) (\<lambda>ret s2. returns ret (renew_store host cwd0 s2)) })
         else if args ! 0 = ''resetmem''
         then do { m \<leftarrow> reset_var_zone (frame_var_border s) (var_store_size s) (mem3 s); returns 0 (s\<lparr>mem3 := m\<rparr>) }
         else fs_command n junk args s)"

section \<open>Splitting a line\<close>

definition strtok :: "string \<Rightarrow> string option \<times> string" where
  "strtok r =
     (let r1 = dropWhile (\<lambda>c. c = CHR '';'') r
      in if r1 = [] then (None, [])
         else (Some (takeWhile (\<lambda>c. c \<noteq> CHR '';'') r1), drop 1 (dropWhile (\<lambda>c. c \<noteq> CHR '';'') r1)))"

function a3_words :: "string \<Rightarrow> string list" where
  "a3_words r =
     (if r = [] then []
      else takeWhile (\<lambda>c. c \<noteq> CHR '' '') r # a3_words (drop 1 (dropWhile (\<lambda>c. c \<noteq> CHR '' '') r)))"
  by pat_completeness auto
termination
proof (relation "measure length")
  fix r :: string
  assume "r \<noteq> []"
  moreover have "length (dropWhile (\<lambda>c. c \<noteq> CHR '' '') r) \<le> length r" by (rule length_dropWhile_le)
  ultimately show "(drop 1 (dropWhile (\<lambda>c. c \<noteq> CHR '' '') r), r) \<in> measure length" by (cases r) auto
qed simp

declare a3_words.simps [simp del]

partial_function (option) a3_parse_loop ::
    "(string list \<Rightarrow> 'a sh3_scheme \<Rightarrow> (int, 'a sh3_scheme) outcome) \<Rightarrow> string option \<Rightarrow> int \<Rightarrow> 'a sh3_scheme \<Rightarrow> (int, 'a sh3_scheme) outcome" where
  "a3_parse_loop interp tok ret s =
     (case tok of
        None \<Rightarrow> returns ret s
      | Some t \<Rightarrow>
          let words = a3_words (dropWhile (\<lambda>c. c = CHR '' '') t)
          in if length t \<ge> 1000 \<or> length words > 100 then None
             else Option.bind (interp words s) (\<lambda>res.
               case res of
                 Inl final \<Rightarrow> Some (Inl final)
               | Inr es \<Rightarrow>
                   let next = strtok (strtok_rest (snd es)); s1 = (snd es)\<lparr>strtok_rest := snd next\<rparr>
                   in if fst es = - 1 then returns (- 1) s1 else a3_parse_loop interp (fst next) (fst es) s1))"

declare a3_parse_loop.simps [code]

definition a3_parseInput_with ::
    "(string list \<Rightarrow> 'a sh3_scheme \<Rightarrow> (int, 'a sh3_scheme) outcome) \<Rightarrow> string \<Rightarrow> 'a sh3_scheme \<Rightarrow> (int, 'a sh3_scheme) outcome" where
  "a3_parseInput_with interp ui s = a3_parse_loop interp (fst (strtok ui)) 0 (s\<lparr>strtok_rest := snd (strtok ui)\<rparr>)"

primrec a3_parseInput :: "host \<Rightarrow> nat \<Rightarrow> byte list \<Rightarrow> nat \<Rightarrow> 'a sh3_ext parser3" where
  "a3_parseInput host n junk 0 ui cwd0 s = None"
| "a3_parseInput host n junk (Suc fuel) ui cwd0 s =
     a3_parseInput_with (a3_command host n junk (a3_parseInput host n junk fuel) cwd0) ui s"

section \<open>Variables through the interpreter\<close>

lemma isalnum_not_eol: "isalnum c \<Longrightarrow> c \<noteq> CHR 0x0D \<and> c \<noteq> newline \<and> c \<noteq> CHR ''$''"
  by (auto simp: isalnum_def newline_def)

lemma strip_eol_alnum: "list_all isalnum v \<Longrightarrow> strip_eol v = v"
  using isalnum_not_eol by (auto simp: strip_eol_def takeWhile_eq_all_conv list_all_iff)

lemma set_buffer_joins:
  "\<forall>v\<in>set vs. isAlphaNumStr v \<Longrightarrow> length (buf @ unwords vs) < 505 \<Longrightarrow> set_buffer vs buf = Some (Some (buf @ unwords vs))"
proof (induction vs arbitrary: buf rule: unwords.induct)
  case (3 w v vs)
  have "set_buffer (v # vs) (buf @ w @ '' '') = Some (Some ((buf @ w @ '' '') @ unwords (v # vs)))"
    using "3.prems" by (intro "3.IH") auto
  moreover have "length (buf @ w @ '' '') < 505" using "3.prems"(2) by simp
  ultimately show ?case using "3.prems"(1) by (simp add: Let_def)
qed simp_all

lemma length_a3_mem_set [simp]: "length (a3_mem_set_value b n x v m) = length m"
  by (simp add: a3_mem_set_value_def store_set_def split: option.split)

lemma a3_get_set:
  assumes "store_wf (frame_var_border s) (var_store_size s) (mem3 s)" "x \<noteq> free_name"
    "x \<in> dom (store_abs (frame_var_border s) (var_store_size s) (mem3 s)) \<or>
     card (dom (store_abs (frame_var_border s) (var_store_size s) (mem3 s))) < var_store_size s"
  shows "a3_get c x (s\<lparr>mem3 := a3_mem_set_value (frame_var_border s) (var_store_size s) x v (mem3 s)\<rparr>) = v"
  using vars3.get_after_set [OF assms(1,2,2,3), of v]
  by (simp add: a3_get_def a3_mem_get_value_def var_store_size_def)

text \<open>C39. What \<^verbatim>\<open>set\<close> stores is what \<^verbatim>\<open>echo\<close> and \<^verbatim>\<open>print\<close> show: the values joined by blanks, for every variable that is in the store or
  that the store has room for.\<close>

theorem a3_set_then_echo:
  fixes s :: "'a sh3_scheme"
  assumes "store_wf (frame_var_border s) (var_store_size s) (mem3 s)" "isAlphaNumStr x" "x \<noteq> free_name"
    "vs \<noteq> []" "\<forall>v\<in>set vs. isAlphaNumStr v" "length x < 400" "length (unwords vs) < 505"
    "x \<in> dom (store_abs (frame_var_border s) (var_store_size s) (mem3 s)) \<or>
     card (dom (store_abs (frame_var_border s) (var_store_size s) (mem3 s))) < var_store_size s"
  shows "\<exists>s'. a3_command host n junk parse cwd0 (''set'' # x # vs) s = returns 0 s' \<and>
    a3_command host n junk parse cwd0 [''echo'', CHR ''$'' # x] s' = returns 0 (put3 (unwords vs @ [newline]) s') \<and>
    a3_command host n junk parse cwd0 [''print'', x] s' = returns 0 (put3 (unwords vs @ [newline]) s')"
proof -
  let ?s = "s\<lparr>mem3 := a3_mem_set_value (frame_var_border s) (var_store_size s) x (unwords vs) (mem3 s)\<rparr>"
  have strip: "strip_eol x = x" "map strip_eol vs = vs"
    using assms(2,5) by (auto simp: isAlphaNumStr_def strip_eol_alnum intro: map_idI)
  from strip(1) have dollar: "strip_eol (CHR ''$'' # x) = CHR ''$'' # x" by (simp add: strip_eol_def newline_def)
  have words: "strip_eol ''set'' = ''set''" "strip_eol ''echo'' = ''echo''" "strip_eol ''print'' = ''print''"
    by (auto simp: strip_eol_def newline_def)
  have "a3_command host n junk parse cwd0 (''set'' # x # vs) s = returns 0 ?s"
    using assms(2,4-7) set_buffer_joins [of vs "[]"]
    by (simp add: a3_command_def strip words set_command_def a3_set_def numeral_3_eq_3)
  moreover have "a3_command host n junk parse cwd0 [''echo'', CHR ''$'' # x] ?s = returns 0 (put3 (unwords vs @ [newline]) ?s)"
    "a3_command host n junk parse cwd0 [''print'', x] ?s = returns 0 (put3 (unwords vs @ [newline]) ?s)"
    using assms(2) a3_get_set [OF assms(1,3,8)]
    by (simp_all add: a3_command_def strip dollar words a3_echo_def a3_print_def)
  ultimately show ?thesis by blast
qed


definition shell3_start :: "(string \<Rightarrow> string option) \<Rightarrow> sh3" where
  "shell3_start fs =
     \<lparr>nodes3 = Map.empty, next_node3 = 0, out3 = [], mem3 = a3_mem_init 6 2, frame_var_border = 6, pages3 = Map.empty, next_page3 = 0,
      pcbs3 = Map.empty, next_pcb3 = 0, QUEUE = \<lparr>ll_size = 0, dummy_head = 0, dummy_tail = 0\<rparr>,
      LRU_CACHE = \<lparr>ll_size = 0, dummy_head = 0, dummy_tail = 0\<rparr>, ALL_PCB = \<lparr>ll_size = 0, dummy_head = 0, dummy_tail = 0\<rparr>,
      PID_counter = 1, files3 = fs,
      fs3 = \<lparr>console = [], image = [], blocks = [], hard_drive = None, fs_device = 0, cache = [], clock = 0, malloc_ok = \<lambda>_. True,
             inodes = Map.empty, open_inodes = [], next_inode = 0, open_files = Map.empty, next_file = 0,
             free_map = \<lparr>bit_cnt = 0, bits = []\<rparr>, free_map_file = None, file_table = [], dirs = Map.empty, next_dir = 0, cwd = None,
             host_files = Map.empty, host_writable = \<lambda>_. True\<rparr>,
      strtok_rest = [], new_name_count = 1\<rparr>"

theorem a3_set_then_echo_witness:
  "\<exists>s'. a3_command idle_host 1 [] (\<lambda>_ _ t. returns 0 t) [] [''set'', ''x'', ''a'', ''b''] (shell3_start Map.empty) = returns 0 s' \<and>
    a3_command idle_host 1 [] (\<lambda>_ _ t. returns 0 t) [] [''echo'', ''$x''] s' = returns 0 (put3 (''a b'' @ [newline]) s') \<and>
    a3_command idle_host 1 [] (\<lambda>_ _ t. returns 0 t) [] [''print'', ''x''] s' = returns 0 (put3 (''a b'' @ [newline]) s')"
proof -
  have "store_wf 6 2 (a3_mem_init 6 2)" "store_abs 6 2 (a3_mem_init 6 2) = Map.empty"
    by (simp_all add: a3_mem_init_def store_wf_init store_abs_init)
  then show ?thesis
    using a3_set_then_echo [of "shell3_start Map.empty" "''x''" "[''a'', ''b'']" idle_host 1 "[]" "\<lambda>_ _ t. returns 0 t" "[]"]
    by (simp add: shell3_start_def var_store_size_def a3_mem_init_def isAlphaNumStr_def isalnum_def free_name_def)
qed

section \<open>The static state of \<^verbatim>\<open>strtok\<close>\<close>

lemma strtok_None: "fst (strtok r) = None \<Longrightarrow> snd (strtok r) = []"
  by (simp add: strtok_def Let_def split: if_splits)

lemma parse_loop_rest:
  assumes "a3_parse_loop interp tok ret s = Some y"
  shows "(tok = None \<longrightarrow> strtok_rest s = []) \<longrightarrow> (\<forall>e s'. y = Inr (e, s') \<and> e \<noteq> - 1 \<longrightarrow> strtok_rest s' = [])"
  using assms
proof (rule a3_parse_loop.raw_induct
    [where P = "\<lambda>interp tok ret s y. (tok = None \<longrightarrow> strtok_rest s = []) \<longrightarrow> (\<forall>e s'. y = Inr (e, s') \<and> e \<noteq> - 1 \<longrightarrow> strtok_rest s' = [])", rotated],
    goal_cases)
  case (1 loop interp tok ret s y)
  show ?case
  proof (cases tok)
    case None
    with 1(2) show ?thesis by (auto simp: returns_def)
  next
    case (Some t)
    with 1(2) obtain res where "interp (a3_words (dropWhile (\<lambda>c. c = CHR '' '') t)) s = Some res"
      and y: "(case res of Inl final \<Rightarrow> Some (Inl final) | Inr es \<Rightarrow>
        if fst es = - 1 then returns (- 1) ((snd es)\<lparr>strtok_rest := snd (strtok (strtok_rest (snd es)))\<rparr>)
        else loop interp (fst (strtok (strtok_rest (snd es)))) (fst es) ((snd es)\<lparr>strtok_rest := snd (strtok (strtok_rest (snd es)))\<rparr>)) = Some y"
      by (auto simp: Let_def bind_eq_Some_conv split: if_splits)
    show ?thesis
    proof (cases res)
      case (Inl a)
      with y show ?thesis by auto
    next
      case (Inr es)
      let ?nxt = "strtok (strtok_rest (snd es))"
      show ?thesis
      proof (cases "fst es = - 1")
        case True
        with y Inr show ?thesis by (auto simp: returns_def)
      next
        case False
        with y Inr have "loop interp (fst ?nxt) (fst es) ((snd es)\<lparr>strtok_rest := snd ?nxt\<rparr>) = Some y" by (simp add: Let_def)
        from 1(1) [OF this] show ?thesis using strtok_None by auto
      qed
    qed
  qed
qed

lemma parse_leaves_no_rest:
  assumes "a3_parseInput host n junk fuel line cwd0 s = Some (Inr (e, s'))" "e \<noteq> - 1"
  shows "strtok_rest s' = []"
proof (cases fuel)
  case 0
  with assms(1) show ?thesis by simp
next
  case (Suc k)
  from assms(1) parse_loop_rest show ?thesis
    using assms(2) strtok_None [of line] by (fastforce simp: Suc a3_parseInput_with_def)
qed

text \<open>A command that interprets a line of a script, as \<^verbatim>\<open>run\<close> and \<^verbatim>\<open>exec\<close> do, leaves \<^verbatim>\<open>strtok\<close> at the end of that line: when it
  returns, \<^verbatim>\<open>parseInput\<close> drops the commands after it on its own line.\<close>

theorem script_drops_rest_of_line:
  assumes "a3_parseInput host n junk fuel line cwd1 s0 = Some (Inr (e, s1))" "e \<noteq> - 1"
    and "interp (a3_words (dropWhile (\<lambda>c. c = CHR '' '') t)) s = Some (Inr (r, s2))" "strtok_rest s2 = strtok_rest s1" "r \<noteq> - 1"
    and "length t < 1000" "length (a3_words (dropWhile (\<lambda>c. c = CHR '' '') t)) \<le> 100"
  shows "a3_parse_loop interp (Some t) ret s = returns r s2"
proof -
  have "strtok_rest s2 = []" using parse_leaves_no_rest [OF assms(1,2)] assms(4) by simp
  then have "strtok (strtok_rest s2) = (None, [])" "s2\<lparr>strtok_rest := []\<rparr> = s2" by (simp_all add: strtok_def)
  with assms(3,5-7) show ?thesis
    by (subst a3_parse_loop.simps) (simp add: Let_def a3_parse_loop.simps [of _ None])
qed

lemma a3_words_one:
  assumes "w \<noteq> []" "CHR '' '' \<notin> set w"
  shows "a3_words w = [w]"
proof -
  have w: "takeWhile (\<lambda>c. c \<noteq> CHR '' '') w = w" "dropWhile (\<lambda>c. c \<noteq> CHR '' '') w = []"
    using assms(2) by (auto simp: takeWhile_eq_all_conv dropWhile_eq_Nil_conv)
  from assms(1) show ?thesis unfolding a3_words.simps [of w] w by (simp add: a3_words.simps)
qed

lemma help_line: "a3_parseInput host n junk (Suc 0) ''help'' cwd0 s = Some (Inr (0, put3 (a3_help_string @ [newline]) s\<lparr>strtok_rest := []\<rparr>))"
proof -
  have "a3_words ''help'' = [''help'']" by (rule a3_words_one) auto
  then show ?thesis
    by (simp add: a3_parseInput_with_def strtok_def a3_parse_loop.simps a3_command_def a3_help_def strip_eol_def newline_def returns_def put3_def Let_def)
qed

theorem script_drops_rest_of_line_witness:
  "a3_parse_loop (\<lambda>_. a3_parseInput idle_host 1 [] (Suc 0) ''help'' []) (Some ''run f'') 0 ((shell3_start Map.empty)\<lparr>strtok_rest := ''echo a''\<rparr>) =
   returns 0 (put3 (a3_help_string @ [newline]) (shell3_start Map.empty))"
proof -
  let ?s = "(shell3_start Map.empty)\<lparr>strtok_rest := ''echo a''\<rparr>"
  let ?t = "put3 (a3_help_string @ [newline]) (shell3_start Map.empty)"
  have *: "a3_parseInput idle_host 1 [] (Suc 0) ''help'' [] ?s = Some (Inr (0, ?t))"
    by (subst help_line) (simp add: put3_def shell3_start_def)
  have "length (a3_words ''run f'') \<le> 100" by (simp add: a3_words.simps)
  then show ?thesis
    using script_drops_rest_of_line [OF *, of "\<lambda>_. a3_parseInput idle_host 1 [] (Suc 0) ''help'' []" "''run f''" ?s 0 ?t 0] *
    by simp
qed

section \<open>The shape of the memory\<close>

text \<open>Calls that return in a state with the same shell memory.\<close>

definition keeps_mem :: "'a sh3_scheme \<Rightarrow> (int, 'a sh3_scheme) outcome \<Rightarrow> bool" where
  "keeps_mem s r \<longleftrightarrow> (\<forall>e s'. r = Some (Inr (e, s')) \<longrightarrow> mem3 s' = mem3 s \<and> frame_var_border s' = frame_var_border s)"

named_theorems keeps_intro

lemma keeps_returns [keeps_intro]: "mem3 t = mem3 s \<Longrightarrow> frame_var_border t = frame_var_border s \<Longrightarrow> keeps_mem s (returns e t)"
  by (simp add: keeps_mem_def)

lemma keeps_error [keeps_intro]: "mem3 t = mem3 s \<Longrightarrow> frame_var_border t = frame_var_border s \<Longrightarrow> keeps_mem s (handle_error e t)"
  by (auto simp: keeps_mem_def handle_error_def handle_status_def put3_def split: if_splits)

lemma keeps_status [keeps_intro]: "mem3 t = mem3 s \<Longrightarrow> frame_var_border t = frame_var_border s \<Longrightarrow> keeps_mem s (handle_status e t)"
  by (auto simp: keeps_mem_def handle_status_def put3_def split: if_splits)

lemma keeps_None [keeps_intro]: "keeps_mem s None"
  by (simp add: keeps_mem_def)

lemma fs_call_mem: "fs_call op s = Some (x, t) \<Longrightarrow> mem3 t = mem3 s \<and> frame_var_border t = frame_var_border s"
  unfolding fs_call_def by (cases "op ((fs3 s)\<lparr>console := screen3 s, host_files := files3 s\<rparr>)") auto

lemma fs_do_mem: "fs_do op s = Some t \<Longrightarrow> mem3 t = mem3 s \<and> frame_var_border t = frame_var_border s"
  unfolding fs_do_def using fs_call_mem by fastforce

lemma keeps_fs_call [keeps_intro]:
  assumes "\<And>x t. mem3 t = mem3 s \<Longrightarrow> frame_var_border t = frame_var_border s \<Longrightarrow> keeps_mem s (k (x, t))"
  shows "keeps_mem s (Option.bind (fs_call op s) k)"
proof (cases "fs_call op s")
  case (Some p)
  then show ?thesis using assms fs_call_mem [of op s "fst p" "snd p"] by (cases p) simp
qed (simp add: keeps_None)

lemma keeps_fs_do [keeps_intro]:
  assumes "mem3 u = mem3 s" "frame_var_border u = frame_var_border s"
    and "\<And>t. mem3 t = mem3 s \<Longrightarrow> frame_var_border t = frame_var_border s \<Longrightarrow> keeps_mem s (k t)"
  shows "keeps_mem s (Option.bind (fs_do op u) k)"
  using assms fs_do_mem [of op u] by (cases "fs_do op u") (simp_all add: keeps_None)

lemma keeps_bind: "(\<And>x. keeps_mem s (k x)) \<Longrightarrow> keeps_mem s (Option.bind m k)"
  by (cases m) (simp_all add: keeps_mem_def)

lemmas keeps_atoi [keeps_intro] = keeps_bind [where m = "atoi str" for str]
  and keeps_chk32 [keeps_intro] = keeps_bind [where m = "chk32 x" for x]

lemma keeps_if [keeps_intro]: "(c \<Longrightarrow> keeps_mem s a) \<Longrightarrow> (\<not> c \<Longrightarrow> keeps_mem s b) \<Longrightarrow> keeps_mem s (if c then a else b)"
  by simp

lemma put3_mem [simp]: "mem3 (put3 str s) = mem3 s" "frame_var_border (put3 str s) = frame_var_border s"
  by (simp_all add: put3_def)

lemma file_commands_keep:
  "keeps_mem s (ls_command n args s)"
  "keeps_mem s (cat_command n args s)"
  "keeps_mem s (rm_command n args s)"
  "keeps_mem s (create_command n junk args s)"
  "keeps_mem s (write_command n args s)"
  "keeps_mem s (size_command n args s)"
  "keeps_mem s (seek_command n args s)"
  "keeps_mem s (freespace_command args s)"
  "keeps_mem s (copy_command copy args s)"
  "keeps_mem s (plain_command3 k op args s)"
  unfolding ls_command_def cat_command_def rm_command_def create_command_def write_command_def size_command_def seek_command_def freespace_command_def copy_command_def plain_command3_def Let_def split_def
  by (intro keeps_intro; simp)+

lemma read_command_keeps: "keeps_mem s (read_command n args s)"
  unfolding read_command_def split_def
  by (intro keeps_intro; simp split: option.split add: keeps_None keeps_error keeps_returns)

lemma fs_command_keeps: "keeps_mem s (fs_command n junk args s)"
  unfolding fs_command_def by (intro keeps_intro file_commands_keep read_command_keeps; simp)

lemma value_update_var: "mem_var (m[i := (m ! i)\<lparr>mem_value := v\<rparr>] ! j) = mem_var (m ! j)"
  by (cases "i < length m") (auto simp: nth_list_update list_update_beyond)

lemma store_set_wf: "store_wf b k m \<Longrightarrow> store_wf b k (a3_mem_set_value b k x v m)"
proof (cases "x = free_name")
  case True
  assume "store_wf b k m"
  with True show ?thesis
    by (auto simp: a3_mem_set_value_def store_set_def store_wf_def value_update_var split: option.split)
next
  case False
  then show "store_wf b k m \<Longrightarrow> ?thesis" by (rule vars3.set_inv [rotated])
qed

lemma reset_wf: "b + k \<le> length m \<Longrightarrow> reset_var_zone b k m = Some m' \<Longrightarrow> store_wf b k m' \<and> length m' = length m"
  by (auto simp: reset_var_zone_def mem_free_loop_fill store_wf_def nth_fill none_cell_def)

definition mem_shape :: "'a k3_scheme \<Rightarrow> 'b k3_scheme \<Rightarrow> bool" where
  "mem_shape s s' \<longleftrightarrow> frame_var_border s' = frame_var_border s \<and> length (mem3 s') = length (mem3 s) \<and>
     store_wf (frame_var_border s') (var_store_size s') (mem3 s')"

lemma keeps_shape:
  assumes "store_wf (frame_var_border s) (var_store_size s) (mem3 s)" "keeps_mem s r" "r = Some (Inr (e, s'))"
  shows "mem_shape s s'"
  using assms by (simp add: keeps_mem_def mem_shape_def var_store_size_def)

lemma set_command_shape:
  assumes "store_wf (frame_var_border s) (var_store_size s) (mem3 s)" "set_command args s = Some (Inr (e, s'))"
  shows "mem_shape s s'"
proof -
  have "keeps_mem s (handle_error c s)" for c by (intro keeps_intro) simp_all
  from keeps_shape [OF assms(1) this] have err: "handle_error c s = Some (Inr (e, s')) \<Longrightarrow> ?thesis" for c .
  have "a3_set x v s = Some (Inr (e, s')) \<Longrightarrow> ?thesis" for x v
    using store_set_wf [OF assms(1)] by (auto simp: a3_set_def mem_shape_def var_store_size_def split: if_splits)
  with err assms(2) show ?thesis
    by (auto simp: set_command_def bind_eq_Some_conv split: if_splits option.splits)
qed

text \<open>
  C19. Every command that does not start a script keeps the shape of the memory: its size, the border between frames and variables, and that
  no variable is stored twice.
\<close>

theorem a3_command_keeps_store:
  assumes "store_wf (frame_var_border s) (var_store_size s) (mem3 s)"
    and "strip_eol (hd args) \<noteq> ''run''" "strip_eol (hd args) \<noteq> ''exec''"
    and "a3_command host n junk parse cwd0 args s = Some (Inr (e, s'))"
  shows "frame_var_border s' = frame_var_border s \<and> length (mem3 s') = length (mem3 s) \<and>
         store_wf (frame_var_border s') (var_store_size s') (mem3 s')"
proof (cases args)
  case Nil
  have "keeps_mem s (handle_error TOO_FEW_TOKENS s)" by (intro keeps_intro) simp_all
  with assms(1,4) Nil show ?thesis using keeps_shape by (auto simp: a3_command_def mem_shape_def)
next
  case (Cons a as)
  let ?args = "map strip_eol args"
  have mem: "mem3 (remove_store host cwd0 s) = mem3 s" "frame_var_border (remove_store host cwd0 s) = frame_var_border s"
    by (simp_all add: remove_store_def a3_system_def)
  consider "?args ! 0 = ''set''" | "?args ! 0 = ''resetmem''" | "?args ! 0 \<noteq> ''set'' \<and> ?args ! 0 \<noteq> ''resetmem''" by blast
  then have "mem_shape s s'"
  proof cases
    case 1
    with assms(4) Cons have "set_command ?args s = Some (Inr (e, s'))" by (simp add: a3_command_def)
    then show ?thesis by (rule set_command_shape [OF assms(1)])
  next
    case 2
    with assms(4) Cons obtain m where m: "reset_var_zone (frame_var_border s) (var_store_size s) (mem3 s) = Some m" and s': "s' = s\<lparr>mem3 := m\<rparr>"
      by (auto simp: a3_command_def bind_eq_Some_conv)
    have "frame_var_border s + var_store_size s \<le> length (mem3 s)" using assms(1) by (simp add: store_wf_def)
    from reset_wf [OF this m] show ?thesis by (simp add: s' mem_shape_def var_store_size_def)
  next
    case 3
    have "keeps_mem s (a3_command host n junk parse cwd0 args s)"
      using 3 assms(2,3) mem Cons unfolding a3_command_def Let_def a3_help_def a3_quit_def a3_print_def a3_echo_def
      by (intro keeps_intro fs_command_keeps; simp)
    from keeps_shape [OF assms(1) this assms(4)] show ?thesis .
  qed
  then show ?thesis unfolding mem_shape_def .
qed

theorem a3_command_keeps_store_witness:
  "\<exists>s'. a3_command idle_host 1 [] (\<lambda>_ _ t. returns 0 t) [] [''resetmem''] (shell3_start Map.empty) = Some (Inr (0, s')) \<and>
     length (mem3 s') = 8 \<and> store_wf (frame_var_border s') (var_store_size s') (mem3 s')"
proof -
  let ?s = "shell3_start Map.empty"
  have s: "mem3 ?s = a3_mem_init 6 2" "frame_var_border ?s = 6" "length (mem3 ?s) = 8" "var_store_size ?s = 2"
    by (simp_all add: shell3_start_def a3_mem_init_def var_store_size_def)
  have len: "length (a3_mem_init 6 2) = 8" by (simp add: a3_mem_init_def)
  have wf: "store_wf 6 2 (a3_mem_init 6 2)" by (simp add: a3_mem_init_def store_wf_init)
  have strip: "strip_eol ''resetmem'' = ''resetmem''" by (simp add: strip_eol_def newline_def)
  obtain m where "reset_var_zone 6 2 (a3_mem_init 6 2) = Some m"
    by (simp add: reset_var_zone_def a3_mem_init_def mem_free_loop_fill)
  then have cmd: "a3_command idle_host 1 [] (\<lambda>_ _ t. returns 0 t) [] [''resetmem''] ?s = Some (Inr (0, ?s\<lparr>mem3 := m\<rparr>))"
    by (simp add: a3_command_def strip s returns_def)
  from a3_command_keeps_store [OF _ _ _ this] wf have "length (mem3 (?s\<lparr>mem3 := m\<rparr>)) = 8 \<and>
      store_wf (frame_var_border (?s\<lparr>mem3 := m\<rparr>)) (var_store_size (?s\<lparr>mem3 := m\<rparr>)) (mem3 (?s\<lparr>mem3 := m\<rparr>))"
    by (simp add: s strip len)
  with cmd show ?thesis by blast
qed

end
