(* ===== verification/Session.thy ===== *)
theory Session
  imports Shell2 Shell3
begin

text \<open>
  The three \<^verbatim>\<open>main\<close> functions: initialisation and the loop that reads lines from the standard input. When the input ends it is opened again on the
  terminal; \<open>tty k\<close> is what is typed there until the end of the \<open>k\<close>-th of these files. The loop ends when the program does.
\<close>

section \<open>The terminal loop\<close>

partial_function (option) terminal ::
    "(string \<Rightarrow> 's \<Rightarrow> (int, 's) outcome) \<Rightarrow> (string \<Rightarrow> 's \<Rightarrow> 's) \<Rightarrow> (nat \<Rightarrow> string) \<Rightarrow> nat \<Rightarrow> bool \<Rightarrow> string \<Rightarrow> 's \<Rightarrow> 's option" where
  "terminal parse put tty k isatty stdin s =
     (let s1 = (if isatty then put ''$ '' s else s);
          got = (case fgets 999 stdin of None \<Rightarrow> ([], []) | Some lr \<Rightarrow> lr)
      in Option.bind (parse (fst got) s1) (\<lambda>res.
           case res of
             Inl final \<Rightarrow> Some final
           | Inr es \<Rightarrow>
               if fst es = - 1 then Some (snd es)
               else if hits_eof 999 stdin then terminal parse put tty (Suc k) True (tty k) (snd es)
               else terminal parse put tty k isatty (snd got) (snd es)))"

declare terminal.simps [code]

section \<open>The programs\<close>

definition a1_main :: "host \<Rightarrow> nat \<Rightarrow> (nat \<Rightarrow> string) \<Rightarrow> bool \<Rightarrow> string \<Rightarrow> a1 \<Rightarrow> a1 option" where
  "a1_main host fuel tty isatty stdin s =
     (let s1 = a1_printf (a1_help_string @ [newline]) (a1_printf (''Shell v1.0'' @ [newline]) s)
      in terminal (a1_parseInput (a1_interpreter host fuel)) a1_printf tty 0 isatty stdin (s1\<lparr>mem1 := a1_mem_init\<rparr>))"

text \<open>\<^term>\<open>Inl\<close> when \<^verbatim>\<open>exit\<close> is called.\<close>

definition create_backing_store :: "host \<Rightarrow> 'a k2_scheme \<Rightarrow> ('a k2_scheme + 'a k2_scheme) option" where
  "create_backing_store host s =
     do { let (e, s1) = a2_host host (Access (backing_store_path s)) s;
          (r, s2) \<leftarrow> if e = 0 then removeBackingStore host s1 else Some (0, s1);
          if r \<noteq> 0 then Some (Inl s2)
          else do { let (m, s3) = a2_host host (Mkdir (backing_store_path s)) s2;
                    Some (if m \<noteq> 0 then Inl s3 else Inr s3) } }"

text \<open>\<open>F\<close> and \<open>V\<close> are \<^verbatim>\<open>FRAMESTORE_LENGTH\<close> and \<^verbatim>\<open>SHELL_MEM_LENGTH\<close>. An empty line is not interpreted.\<close>

definition a2_main :: "host \<Rightarrow> nat \<Rightarrow> nat \<Rightarrow> nat \<Rightarrow> string \<Rightarrow> (nat \<Rightarrow> string) \<Rightarrow> bool \<Rightarrow> string \<Rightarrow> 'a k2_scheme \<Rightarrow> 'a k2_scheme option" where
  "a2_main host fuel F V cwd0 tty isatty stdin s =
     (if length cwd0 + 14 \<ge> 1024 then None
      else case create_backing_store host (s\<lparr>backing_store_path := cwd0 @ ''/backing_store''\<rparr>) of
        None \<Rightarrow> None
      | Some (Inl final) \<Rightarrow> Some final
      | Some (Inr s1) \<Rightarrow>
          let s2 = a2_printf (''Frame Store Size = '' @ nat_str (F * 3) @ ''; Variable Store Size = '' @ nat_str V @ [newline])
                     (a2_printf (''Shell v2.0'' @ [newline]) s1)
          in terminal (\<lambda>line t. if line = [] then returns 0 t else a2_parseInput host fuel line t) a2_printf tty 0 isatty stdin
               (framestore_init F (s2\<lparr>varmemory := a2_mem_init V\<rparr>)))"

text \<open>\<open>F\<close> and \<open>V\<close> are \<^verbatim>\<open>FRAME_STORE_SIZE\<close> and \<^verbatim>\<open>VAR_STORE_SIZE\<close>, \<open>fd\<close> what \<^verbatim>\<open>open\<close> returns for the disk file.\<close>

definition a3_main ::
    "host \<Rightarrow> nat \<Rightarrow> byte list \<Rightarrow> nat \<Rightarrow> nat \<Rightarrow> nat \<Rightarrow> string list \<Rightarrow> string \<Rightarrow> int \<Rightarrow> (nat \<Rightarrow> string) \<Rightarrow> bool \<Rightarrow> string \<Rightarrow> 'a sh3_scheme \<Rightarrow> 'a sh3_scheme option" where
  "a3_main host n junk fuel F V argv cwd0 fd tty isatty stdin s =
     (if length argv < 2
      then Some (put3 (''Error: myshell must be called with the hard drive as argument. E.g., ./myshell myhd.dsk'' @ [newline]) s)
      else do {
        let format = (length argv = 3 \<and> argv ! 2 = ''-f'');
        let s1 = a3_system host ''mkdir backing_store'' (a3_system host ''rm -rf backing_store'' s);
        let s2 = put3 (''Frame Store Size = '' @ nat_str F @ ''; Variable Store Size = '' @ nat_str V @ [newline])
                   (put3 (''Shell v2.1'' @ [newline]) s1);
        s3 \<leftarrow> kernel_setup (s2\<lparr>mem3 := a3_mem_init F V, frame_var_border := F\<rparr>);
        s4 \<leftarrow> fs_do (ide_init n fd (argv ! 1)) s3;
        s5 \<leftarrow> fs_do (filesys_init n format) s4;
        terminal (\<lambda>line t. a3_parseInput host n junk fuel line cwd0 t) put3 tty 0 isatty stdin s5 })"

section \<open>What a session does\<close>

text \<open>The lines of a session until the program ends: \<^term>\<open>Inl\<close> the state at its end, \<^term>\<open>Inr\<close> the state after the last line.\<close>

fun session_lines :: "(string \<Rightarrow> 's \<Rightarrow> (int, 's) outcome) \<Rightarrow> string list \<Rightarrow> 's \<Rightarrow> ('s + 's) option" where
  "session_lines parse [] s = Some (Inr s)"
| "session_lines parse (l # ls) s =
     Option.bind (parse (l @ [newline]) s) (\<lambda>res.
       case res of
         Inl final \<Rightarrow> Some (Inl final)
       | Inr es \<Rightarrow> if fst es = - 1 then Some (Inl (snd es)) else session_lines parse ls (snd es))"

text \<open>C40. The loop of \<^verbatim>\<open>main\<close> hands every line of the input to the parser, in their order and complete, until a command ends the program;
  what follows is read by the same loop.\<close>

theorem terminal_runs_lines:
  assumes "\<forall>l\<in>set ls. text_line l"
  shows "terminal parse put tty k False (unlines ls @ rest) s =
    Option.bind (session_lines parse ls s) (\<lambda>r. case r of Inl final \<Rightarrow> Some final | Inr t \<Rightarrow> terminal parse put tty k False rest t)"
  using assms
proof (induction ls arbitrary: s)
  case Nil
  then show ?case by (simp add: unlines_def)
next
  case (Cons l ls)
  then have l: "text_line l" and ls: "\<forall>l\<in>set ls. text_line l" by auto
  have eq: "unlines (l # ls) @ rest = l @ newline # (unlines ls @ rest)" by (simp add: unlines_def)
  have "terminal parse put tty k False (unlines (l # ls) @ rest) s =
      Option.bind (parse (l @ [newline]) s) (\<lambda>res. case res of Inl final \<Rightarrow> Some final | Inr es \<Rightarrow>
        if fst es = - 1 then Some (snd es) else terminal parse put tty k False (unlines ls @ rest) (snd es))"
    unfolding eq by (subst terminal.simps) (simp add: fgets_line [OF l] cong: if_cong)
  then show ?case
    by (cases "parse (l @ [newline]) s") (auto simp: Cons.IH [OF ls] split: sum.split)
qed

theorem terminal_runs_lines_witness:
  "terminal (\<lambda>l n. returns (if l = ''q'' @ [newline] then - 1 else 0) (n + length l)) (\<lambda>_ n. n) (\<lambda>_. []) 0 False (unlines [''ab'', ''q''] @ ''z'') 0 = Some 5"
  using terminal_runs_lines [of "[''ab'', ''q'']" "\<lambda>l n. returns (if l = ''q'' @ [newline] then - 1 else 0) (n + length l)" "\<lambda>_ n. n" "\<lambda>_. []" 0 "''z''" 0]
  by (simp add: text_line_def newline_def returns_def)

section \<open>The backing store\<close>

lemma remove_store_if_there:
  assumes host: "posix_tree host U" "dom (files s) \<subseteq> U"
    and path: "files s (backing_store_path s) = None" "tidy (backing_store_path s) (files s)"
  shows "(if below (backing_store_path s) (files s) \<noteq> {} then removeBackingStore host s else Some (0, s)) =
    Some (0, s\<lparr>files := clear (backing_store_path s) (files s)\<rparr>)"
proof (cases "below (backing_store_path s) (files s) = {}")
  case True
  then have "files s k = None" if "prefix (backing_store_path s @ ''/'') k" for k
    using that by (auto simp: below_def dom_def)
  then have "clear (backing_store_path s) (files s) = files s" by (auto simp: clear_def fun_eq_iff)
  then show ?thesis using True by simp
next
  case False
  then show ?thesis using posix_tree.removes_tree [OF host path(2) False] by (simp add: removeBackingStore_def)
qed



end
