(* ===== verification/Shell3_Files.thy ===== *)
theory Shell3_Files
  imports Shell3 Directory_Spec File_Spec
begin

text \<open>
  The file commands of the third shell on a file of the file table: what \<^verbatim>\<open>write\<close> stores is what \<^verbatim>\<open>read\<close> prints after \<^verbatim>\<open>seek\<close>.
\<close>

section \<open>Calls of the file system\<close>

lemma host_upd [simp]:
  fixes s :: "'a ustate_scheme"
  shows "dev_sector d (s\<lparr>host_files := b\<rparr>) = dev_sector d s" "dev_ok m d (s\<lparr>host_files := b\<rparr>) = dev_ok m d s"
    "cache_content (s\<lparr>host_files := b\<rparr>) = cache_content s" "cache_inv n (s\<lparr>host_files := b\<rparr>) = cache_inv n s"
proof -
  show *: "dev_sector d (s\<lparr>host_files := b\<rparr>) = dev_sector d s" for d by (simp add: dev_sector_def fun_eq_iff)
  show **: "dev_ok m d (s\<lparr>host_files := b\<rparr>) = dev_ok m d s" for m d by (simp add: dev_ok_def cong: option.case_cong)
  show "cache_content (s\<lparr>host_files := b\<rparr>) = cache_content s" "cache_inv n (s\<lparr>host_files := b\<rparr>) = cache_inv n s"
    by (simp_all add: cache_content_def cache_inv_def * **)
qed

definition fs_view :: "'a sh3_scheme \<Rightarrow> ustate" where
  "fs_view s = (fs3 s)\<lparr>console := screen3 s, host_files := files3 s\<rparr>"

lemma fs_view_inv [simp]:
  "file_inv n name f inode (fs_view s) = file_inv n name f inode (fs3 s)" "inode_content inode (fs_view s) = inode_content inode (fs3 s)"
  "file_pos f (fs_view s) = file_pos f (fs3 s)"
  by (simp_all add: fs_view_def file_inv_def inode_ok_def inode_content_def file_pos_def get_file_by_fname_def cong: option.case_cong)

lemma fs_call_view: "op (fs_view s) = Some (r, u) \<Longrightarrow> \<exists>t. fs_call op s = Some (r, t) \<and> fs3 t = u"
  by (simp add: fs_call_def fs_view_def)

lemma fs3_put3 [simp]: "fs3 (put3 str s) = fs3 s"
  by (simp add: put3_def)

section \<open>Writing and reading\<close>

lemma write_command_writes:
  assumes "file_inv n name f inode (fs3 s)" "ws \<noteq> []" "file_pos f (fs3 s) + length (unwords ws) + 2 \<le> length (inode_content inode (fs3 s))"
  shows "\<exists>s'. write_command (Suc fuel) (''write'' # name # ws) s = returns 0 s' \<and> file_inv n name f inode (fs3 s') \<and>
           inode_content inode (fs3 s') = pwrite (inode_content inode (fs3 s)) (file_pos f (fs3 s)) (map char_byte (unwords ws) @ [0, 0]) \<and>
           file_pos f (fs3 s') = file_pos f (fs3 s) + length (unwords ws)"
proof -
  let ?t = "map char_byte (unwords ws)"
  from tf.write_text [of n name f inode "fs_view s" ?t fuel] assms obtain u where
    u: "fsutil_write (Suc fuel) name (?t @ [0, 0]) (int (length ?t + 2)) (fs_view s) = Some (int (length ?t + 2), u)" "file_inv n name f inode u"
      "inode_content inode u = pwrite (inode_content inode (fs3 s)) (file_pos f (fs3 s)) (?t @ [0, 0])"
      "file_pos f u = file_pos f (fs3 s) + length (unwords ws)" by auto
  from fs_call_view [of "fsutil_write (Suc fuel) name (?t @ [0, 0]) (int (length ?t + 2))", OF u(1)] obtain t where "fs_call (fsutil_write (Suc fuel) name (?t @ [0, 0]) (int (length ?t + 2))) s = Some (int (length ?t + 2), t)"
    "fs3 t = u" by blast
  with assms(2) u show ?thesis by (intro exI [of _ t]) (simp add: write_command_def numeral_3_eq_3)
qed

lemma seek_command_seeks:
  assumes "file_inv n name f inode (fs3 s)" "atoi num = Some (int p)" "int32 (int p)"
  shows "\<exists>s'. seek_command fuel [''seek'', name, num] s = returns 0 s' \<and> file_inv n name f inode (fs3 s') \<and>
           inode_content inode (fs3 s') = inode_content inode (fs3 s) \<and> file_pos f (fs3 s') = p"
proof -
  from tf.seek_law [of n name f inode "fs_view s" p fuel] assms obtain u where
    u: "fsutil_seek fuel name (int p) (fs_view s) = Some (0, u)" "file_inv n name f inode u"
      "inode_content inode u = inode_content inode (fs3 s)" "file_pos f u = p" by auto
  from fs_call_view [of "fsutil_seek fuel name (int p)", OF u(1)] obtain t where "fs_call (fsutil_seek fuel name (int p)) s = Some (0, t)" "fs3 t = u" by blast
  with assms(2) u show ?thesis by (intro exI [of _ t]) (simp add: seek_command_def)
qed

lemma read_command_reads:
  assumes "file_inv n name f inode (fs3 s)" "atoi num = Some (int k)" "file_pos f (fs3 s) + k \<le> length (inode_content inode (fs3 s))"
  shows "\<exists>t. read_command fuel [''read'', name, num] s =
             returns 1 (put3 (bytes_string (slice (file_pos f (fs3 s)) k (inode_content inode (fs3 s))) @ [newline]) t)"
proof -
  from tf.read_law [of n name f inode "fs_view s" k fuel] assms obtain u where
    u: "fsutil_read fuel name (int k) (fs_view s) = Some (Some (slice (file_pos f (fs3 s)) k (inode_content inode (fs3 s))), u)" by auto
  from fs_call_view [of "fsutil_read fuel name (int k)", OF u(1)] obtain t where
    "fs_call (fsutil_read fuel name (int k)) s = Some (Some (slice (file_pos f (fs3 s)) k (inode_content inode (fs3 s))), t)" by blast
  moreover from assms(1) obtain fl :: open_file where "inode_ok n (f_inode fl) inode (fs3 s)" by (rule file_invD) blast
  from content_small [OF this] assms(3) have "int32 (int k + 1)" by (auto simp: int32_def)
  ultimately show ?thesis using assms(2,3) by (intro exI [of _ t]) (simp add: read_command_def chk32_def slice_def)
qed

lemma bytes_string_text:
  assumes "CHR 0x00 \<notin> set str"
  shows "bytes_string (map char_byte str) = str"
proof -
  have "takeWhile (\<lambda>b. b \<noteq> 0) (map char_byte str) = map char_byte str"
    using assms by (auto simp: takeWhile_eq_all_conv char_byte_0)
  then show ?thesis unfolding bytes_string_def by (simp only: map_map comp_def byte_char_inverse map_ident)
qed


definition shell8 :: sh3 where
  "shell8 = (shell3_start Map.empty)\<lparr>fs3 := dstate.extend file8 \<lparr>host_files = Map.empty, host_writable = \<lambda>_. True\<rparr>\<rparr>"

lemma extend_inv: "file_inv n name f inode (dstate.extend s m) = file_inv n name f inode s" "file_pos f (dstate.extend s m) = file_pos f s"
proof -
  have *: "dev_sector d (dstate.extend s m) = dev_sector d s" for d by (simp add: dev_sector_def dstate.defs fun_eq_iff)
  have **: "dev_ok k d (dstate.extend s m) = dev_ok k d s" for k d by (simp add: dev_ok_def dstate.defs cong: option.case_cong)
  have "cache_content (dstate.extend s m) = cache_content s" "cache_inv k (dstate.extend s m) = cache_inv k s" for k
    by (simp_all add: cache_content_def cache_inv_def * **) (simp_all add: dstate.defs)
  moreover have sel: "malloc_ok (dstate.extend s m) = malloc_ok s" "inodes (dstate.extend s m) = inodes s"
    "open_files (dstate.extend s m) = open_files s" "file_table (dstate.extend s m) = file_table s" by (simp_all add: dstate.defs)
  ultimately have "inode_ok n i inode (dstate.extend s m) = inode_ok n i inode s" for i by (simp add: inode_ok_def)
  then show "file_inv n name f inode (dstate.extend s m) = file_inv n name f inode s" "file_pos f (dstate.extend s m) = file_pos f s"
    using \<open>cache_content (dstate.extend s m) = cache_content s\<close> by (simp_all add: file_inv_def file_pos_def get_file_by_fname_def sel cong: option.case_cong)
qed


end
