(* ===== verification/Spec2Isabelle.thy ===== *)
theory Spec2Isabelle
  imports File_Life Remove_Spec Kernel_List_Spec Kernel3_Spec Session Shell3_Files
begin

text \<open>
  Verification of \<^verbatim>\<open>comp310\<close>: three versions of a small operating-system shell and the file system of the third.

  \<^bold>\<open>The program.\<close> \<^verbatim>\<open>a1\<close> is a shell with variables, scripts and an \<^verbatim>\<open>if\<close> command. \<^verbatim>\<open>a2\<close> adds processes:
  programs are loaded page by page into a frame store, a ready queue of process control blocks feeds four schedulers, and
  the page of the least recently used frame is replaced on a page fault. \<^verbatim>\<open>a3\<close> has a shell memory
  that holds frames and variables in one array, and a file system (\<^verbatim>\<open>a3/fs\<close>) in layers: a disk file
  (\<^verbatim>\<open>ide.c\<close>), block devices and partitions (\<^verbatim>\<open>block.c\<close>, \<^verbatim>\<open>partition.c\<close>), a write-back cache
  (\<^verbatim>\<open>cache.c\<close>), a bitmap of free sectors (\<^verbatim>\<open>bitmap.c\<close>, \<^verbatim>\<open>free-map.c\<close>), inodes with direct, indirect and
  doubly indirect blocks (\<^verbatim>\<open>inode.c\<close>), files (\<^verbatim>\<open>file.c\<close>), directories (\<^verbatim>\<open>directory.c\<close>) and the interface
  to the shell (\<^verbatim>\<open>filesys.c\<close>).

  \<^bold>\<open>Conventions.\<close> State is a \<^verbatim>\<open>record\<close> that each layer extends: the cache extends the block layer,
  inodes extend the cache, files and directories extend inodes, and every operation takes the extensible record, so the
  operation of a lower layer is called on the state of a higher one as it is. Undefined behaviour (a null or dangling
  pointer, a read past an array, signed overflow) and a loop that does not end are \<^term>\<open>None\<close>; error codes of the
  program are ordinary results. Machine integers are words where they wrap (sector numbers, bitmap elements, little-endian
  fields), and \<^typ>\<open>int\<close> with the check \<open>chk32\<close> where overflow is undefined. Failed assertions print a line
  and go on, as \<^verbatim>\<open>debug_panic\<close> of this program does.

  \<^bold>\<open>Theories.\<close>
  \<^item> \<open>Prelude\<close>: result types, \<open>first_from\<close>, slices, little-endian words, file images, lines of a stream,
    \<^verbatim>\<open>ASSERT\<close>.
  \<^item> \<open>Bitmap\<close> (\<^verbatim>\<open>bitmap.c\<close>, \<^verbatim>\<open>round.h\<close>): every operation refines the list of bits; the scan finds the first
    run; claims are disjoint; round trip through bytes. Locale \<open>bit_vector\<close>, interpreted as \<open>fm\<close>.
  \<^item> \<open>Block_Device\<close> (\<^verbatim>\<open>block.c\<close>, \<^verbatim>\<open>ide.c\<close>, \<^verbatim>\<open>partition.c\<close>): reads and writes on disks and partitions
    of any depth. Locale \<open>sector_store\<close>, interpreted as \<open>raw\<close>.
  \<^item> \<open>Buffer_Cache\<close> (\<^verbatim>\<open>cache.c\<close>): the cache is invisible to its clients (\<open>sector_store\<close> again, as \<open>bc\<close>), the
    clock algorithm ends and gives a second chance, closing writes everything back.
  \<^item> \<open>Inode\<close> (\<^verbatim>\<open>inode.c\<close>, \<^verbatim>\<open>free-map.c\<close>, parts of \<^verbatim>\<open>file.c\<close> and \<^verbatim>\<open>bitmap.c\<close>): definitions.
    Writing an inode may allocate sectors, allocating saves the free map, and saving it writes an inode; \<open>inode_write_at\<close>
    and \<open>save_map\<close> carry fuel for the depth of this recursion. One level is enough, because the free map file never grows.
  \<^item> \<open>Inode_Data\<close>: the bytes of a file as a function of the sectors; reading and writing at any position; the list
    of data sectors agrees with the index computation; inodes survive the disk.
  \<^item> \<open>Allocation\<close>: the invariant of the free map; allocation keeps map and file in step; creation makes
    files of zeros. Locale \<open>map_saver\<close>, interpreted as \<open>ms\<close> on \<open>save_map\<close>.
  \<^item> \<open>File_Ops\<close>, \<open>Directory\<close>, \<open>Filesys\<close> (\<^verbatim>\<open>file.c\<close>, \<^verbatim>\<open>directory.c\<close>, \<^verbatim>\<open>filesys.c\<close>): definitions.
  \<^item> \<open>Directory_Spec\<close>: a directory is a finite map from names to sectors. Locale \<open>name_store\<close>, interpreted as
    \<open>dn\<close> on \<open>dir_add\<close> and \<open>dir_find\<close>.
  \<^item> \<open>Filesys_Spec\<close>: creating a file takes free sectors, keeps the invariant of the file system and every other file, and opening its
    name afterwards gives the new file. \<open>Remove_Spec\<close>: removing a file frees its sectors and its name; creating and removing are inverse.
  \<^item> \<open>Kernel_List\<close> (\<^verbatim>\<open>list.c\<close>, \<^verbatim>\<open>list.h\<close>): the doubly linked list on an explicit heap of elements. \<open>Kernel_Links\<close>: what
    well-linked means, insertion, removal, splicing. \<open>Kernel_Sort\<close>: the natural merge sort in place is the stable sort of the
    library. \<open>Kernel_List_Spec\<close>: reversal, both ends (\<open>deque\<close> again, as \<open>kl\<close>), ordered insertion, duplicates, extrema.
  \<^item> \<open>Shell_Memory\<close> (the three \<^verbatim>\<open>shellmemory.c\<close>): variable stores are bounded maps (locale \<open>var_store\<close>), frame allocation
    is first fit.
  \<^item> \<open>Ready_Queue\<close> (\<^verbatim>\<open>a2/ready_queue.c\<close>): the pointer operations in an explicit heap refine operations on the
    list of nodes (locale \<open>deque\<close>, interpreted as \<open>rdq\<close>).
  \<^item> \<open>Frame_Store\<close> (\<^verbatim>\<open>a2/framestore.c\<close>, \<^verbatim>\<open>page.c\<close>, \<^verbatim>\<open>lru.c\<close>, \<^verbatim>\<open>pcb.c\<close>): loading, page tables, the least recently
    used victim, eviction.
  \<^item> \<open>Scheduler\<close> (\<^verbatim>\<open>a2/kernel.c\<close>): execution of processes and the schedulers; round robin and first come, first served run every program to
    its end in the order of the policy. The schedulers are \<^verbatim>\<open>partial_function\<close>s, and their termination is part of what is proved.
  \<^item> \<open>Host_Files\<close> (\<^verbatim>\<open>rm_rf\<close> of \<^verbatim>\<open>a2/shell.c\<close>): removal of a directory of the host, on the calls it makes. It returns on every host with
    a longest path, and removes just the directory when the files form a tree (locale \<open>posix_tree\<close>, interpreted as \<open>th\<close>).
  \<^item> \<open>Shell1\<close>, \<open>Shell2\<close> (\<^verbatim>\<open>shell.c\<close> and \<^verbatim>\<open>interpreter.c\<close> of \<^verbatim>\<open>a1\<close> and \<^verbatim>\<open>a2\<close>): parsing and the commands.

  \<^item> \<open>Process_List\<close>, \<open>Process_List_Spec\<close> (\<^verbatim>\<open>a3/linked_list.c\<close>): the list of processes with its dummy ends; \<open>deque\<close> once more.
  \<^item> \<open>Kernel3\<close> (\<^verbatim>\<open>pcb.c\<close>, \<^verbatim>\<open>cpu.c\<close>, \<^verbatim>\<open>kernel.c\<close> of \<^verbatim>\<open>a3\<close>): processes, page loading and replacement, and the two schedulers. \<open>Kernel3_Spec\<close>: a page
    fault on a full memory, and what a page holds when it is loaded again.
  \<^item> \<open>Fsutil\<close> (\<^verbatim>\<open>fsutil.c\<close>, \<^verbatim>\<open>hex_dump\<close>): the file commands of the shell. \<open>Fsutil2\<close> (\<^verbatim>\<open>fsutil2.c\<close>): copying, search, fragmentation, recovery; the
    files of the host are a field of the state. \<open>File_Spec\<close>: through these commands an open file is a text with a position (locale
    \<open>text_file\<close>, interpreted as \<open>tf\<close>); texts written in turn are read back as one.
    \<open>File_Life\<close>: the same for a file that is created first.

  \<^item> \<open>Shell3\<close> (\<^verbatim>\<open>shell.c\<close>, \<^verbatim>\<open>interpreter.c\<close> of \<^verbatim>\<open>a3\<close>): the commands of the third shell on the kernel and the file system; the
    shape of its memory is an invariant, \<^verbatim>\<open>set\<close> and \<^verbatim>\<open>echo\<close> are inverse. \<open>Session\<close>:
    the three \<^verbatim>\<open>main\<close> functions, with one loop for the lines of the input. \<open>Shell3_Files\<close>: writing, seeking and reading
    a file through the commands of the shell.

  \<^bold>\<open>Not modelled.\<close> The host's file system but for the content of the disk file and of scripts and the calls of
  \<^verbatim>\<open>rm_rf\<close>; what a call of the host does is a parameter.
\<close>

end
